(* ===== verification/RT_Prelude.thy ===== *)
theory RT_Prelude
  imports Main "HOL-Library.Word" "HOL-Library.Monad_Syntax"
begin

text \<open>
  Shared vocabulary of the development: the C++ integer types of the program at their width on
  the target (LP64 Linux with glibc, where \<^verbatim>\<open>uint_fast16_t\<close>, \<^verbatim>\<open>uint_fast32_t\<close> and
  \<^verbatim>\<open>uint_fast64_t\<close> are all \<^verbatim>\<open>unsigned long\<close>), decimal printing as done by
  \<^verbatim>\<open>std::to_string\<close> and \<^verbatim>\<open>sprintf("%d")\<close>, and the facts about words without wrap-around
  that the components share, collected in \<open>no_wrap\<close>.
\<close>

section \<open>Types\<close>

type_synonym uint_fast8 = "8 word"
type_synonym uint_fast16 = "64 word"
type_synonym uint_fast32 = "64 word"
type_synonym uint_fast64 = "64 word"
type_synonym c_int = "32 word"
type_synonym c_long = "64 word"
type_synonym ptr = "64 word"
type_synonym byte = "8 word"

text \<open>The limits of \<^verbatim>\<open>includes/flags.h\<close>.\<close>

definition TIMER_MAX_FREQUENCY :: uint_fast16 where "TIMER_MAX_FREQUENCY = 100"
definition CPU_CORE_AFFINITY :: int where "CPU_CORE_AFFINITY = 0"
definition TCP_SENDER_SEND_BUFFER :: int where "TCP_SENDER_SEND_BUFFER = 1024 * 1024 * 2"
definition TCP_SENDER_RECV_BUFFER :: int where "TCP_SENDER_RECV_BUFFER = 512 * 1024"

named_theorems no_wrap \<open>reading words as numbers where no operation wraps around\<close>
named_theorems spec_defs \<open>the specification predicates of the components\<close>

section \<open>Words that do not wrap around\<close>

lemma uint_add_no_wrap [no_wrap]:
  fixes a b :: "64 word"
  assumes "uint a + uint b < 2 ^ 64"
  shows "uint (a + b) = uint a + uint b"
  using assms by (simp add: uint_word_ariths)

lemma unat_add_no_wrap [no_wrap]:
  fixes a b :: "64 word"
  assumes "unat a + unat b < 2 ^ 64"
  shows "unat (a + b) = unat a + unat b"
  using assms by (simp add: unat_word_ariths)

lemma unat_mult_no_wrap [no_wrap]:
  fixes a b :: "64 word"
  assumes "unat a * unat b < 2 ^ 64"
  shows "unat (a * b) = unat a * unat b"
  using assms by (simp add: unat_word_ariths)

lemma unat_sub_no_wrap [no_wrap]:
  fixes a b :: "64 word"
  assumes "b \<le> a"
  shows "unat (a - b) = unat a - unat b"
  using assms by (simp add: unat_sub)

lemma uint_sub_no_wrap [no_wrap]:
  fixes a b :: "64 word"
  assumes "b \<le> a"
  shows "uint (a - b) = uint a - uint b"
  using assms by (simp add: uint_minus_simple_alt [THEN iffD1])

lemma word_sub_pos_le:
  fixes x d :: "64 word"
  assumes "x < d"
  shows "0 < d - x \<and> d - x \<le> d"
proof -
  have "unat (d - x) = unat d - unat x" using assms by (simp add: unat_sub_no_wrap)
  with assms show ?thesis by (simp add: word_less_nat_alt word_le_nat_alt)
qed

lemma uint_word_of_int_small [no_wrap]:
  assumes "0 \<le> x" and "x < 2 ^ 64"
  shows "uint (word_of_int x :: 64 word) = x"
  using assms by (simp add: uint_word_of_int)

lemma uint_eq_int_unat: "uint w = int (unat w)"
  by simp

text \<open>A signed value that is not negative reads the same unsigned.\<close>

lemma sint_eq_uint_nonneg:
  fixes w :: "64 word"
  assumes "0 \<le> sint w"
  shows "sint w = uint w"
proof -
  have "sint w < 2 ^ 63" using sint_lt [of w] by simp
  have "w = word_of_int (sint w)" by (metis scast_eq scast_id)
  then have "uint w = uint (word_of_int (sint w) :: 64 word)" by (rule arg_cong)
  also have "\<dots> = sint w mod 2 ^ 64" by (simp only: uint_word_of_int) simp
  also have "\<dots> = sint w" using assms \<open>sint w < 2 ^ 63\<close> by simp
  finally show ?thesis by simp
qed

lemma sint_word_of_int_small [no_wrap]:
  assumes "- (2 ^ 63) \<le> x" and "x < 2 ^ 63"
  shows "sint (word_of_int x :: 64 word) = x"
  using assms by (simp add: signed_take_bit_int_eq_self sint_sbintrunc')

lemma sint_eq_uint_small:
  fixes w :: "64 word"
  assumes "uint w < 2 ^ 63"
  shows "sint w = uint w"
proof -
  have "- (2 ^ 63) \<le> uint w" by (rule order_trans [OF _ uint_ge_0]) simp
  then show ?thesis using sint_word_of_int_small [of "uint w"] assms by simp
qed

section \<open>Decimal printing\<close>

definition dec_digit :: "nat \<Rightarrow> char" where
  "dec_digit d = char_of (48 + d)"

fun dec_nat :: "nat \<Rightarrow> string" where
  "dec_nat n = (if n < 10 then [dec_digit n] else dec_nat (n div 10) @ [dec_digit (n mod 10)])"

declare dec_nat.simps [simp del]

definition dec_int :: "int \<Rightarrow> string" where
  "dec_int i = (if i < 0 then CHR ''-'' # dec_nat (nat (- i)) else dec_nat (nat i))"

lemma length_dec_nat: "n < 10 ^ k \<Longrightarrow> 0 < k \<Longrightarrow> length (dec_nat n) \<le> k"
proof (induction n arbitrary: k rule: dec_nat.induct)
  case (1 n)
  show ?case
  proof (cases "n < 10")
    case True
    with 1(3) show ?thesis by (subst dec_nat.simps) simp
  next
    case False
    with 1(2) obtain j where k: "k = Suc j" and j: "0 < j"
      by (cases k; cases "k - 1"; auto)
    from 1(2) k have "n div 10 < 10 ^ j"
      by (simp add: less_mult_imp_div_less mult.commute)
    with False j 1(1) have "length (dec_nat (n div 10)) \<le> j" by blast
    with False k show ?thesis by (subst dec_nat.simps) simp
  qed
qed

lemma length_dec_int_32: "length (dec_int (sint (w :: 32 word))) \<le> 11"
proof -
  have "sint w < 2 ^ 31" "- (2 ^ 31) \<le> sint w" using sint_lt [of w] sint_ge [of w] by simp_all
  then have "nat (sint w) < 10 ^ 10" "nat (- sint w) < 10 ^ 10" by simp_all
  then have "length (dec_nat (nat (sint w))) \<le> 10" "length (dec_nat (nat (- sint w))) \<le> 10"
    by (simp_all add: length_dec_nat)
  then show ?thesis by (simp add: dec_int_def)
qed

end
