(* ===== verification/Data_Packets.thy ===== *)
theory Data_Packets
  imports RT_Prelude
begin

text \<open>
  The data of a transmission (\<^verbatim>\<open>includes/data_packets.h\<close>): \<^verbatim>\<open>DataPacket\<close>, the class
  \<^verbatim>\<open>DataPacketsList\<close> with its manual memory management on an explicit store (objects by
  address, \<^verbatim>\<open>malloc\<close> blocks by address), and the facts that make its copy operations deep.
\<close>

section \<open>Packets\<close>

datatype DATA_PTR_TYPE = DATA_PTR_MEMORY_LOCATION | DATA_PTR_FILE_DESCRIPTOR | DATA_PTR_OTHER int

text \<open>
  The enum has the first two values; an object of the enum type can hold any other integer (the
  blocks of \<^verbatim>\<open>DataPacketsList\<close> come from \<^verbatim>\<open>malloc\<close> and run no constructor), which is the
  third constructor and the case the senders answer with \<^verbatim>\<open>NOT_SUPPORTED_DATA_TYPE\<close>.
\<close>

record DataPacket =
  data_ptr_type :: DATA_PTR_TYPE
  data_ptr :: ptr
  data_size :: uint_fast32
  data_offset :: uint_fast32

definition DataPacket_default :: DataPacket where
  "DataPacket_default =
     \<lparr>data_ptr_type = DATA_PTR_MEMORY_LOCATION, data_ptr = 0, data_size = 0, data_offset = 0\<rparr>"

section \<open>Lists of packets on the heap\<close>

record DataPacketsList =
  dl_packets :: "ptr option"
  dl_num_packets :: uint_fast32

record store =
  objs :: "ptr \<Rightarrow> DataPacketsList"
  blocks :: "ptr \<rightharpoonup> DataPacket list"

definition sizeof_DataPacket :: uint_fast64 where
  "sizeof_DataPacket = 32"

text \<open>
  \<^verbatim>\<open>malloc\<close> is a parameter: given the live blocks and a number of bytes it answers \<^verbatim>\<open>NULL\<close> or
  an address and the uninitialised contents of the block. \<open>malloc_ok\<close> is what the C library
  documents: the address is not \<^verbatim>\<open>NULL\<close> and not a live block, and the block has the bytes
  asked for.
\<close>

type_synonym malloc_fn = "(ptr \<rightharpoonup> DataPacket list) \<Rightarrow> uint_fast64 \<Rightarrow> (ptr \<times> DataPacket list) option"

definition malloc_ok :: "malloc_fn \<Rightarrow> bool" where
  "malloc_ok malloc \<longleftrightarrow>
     (\<forall>h n p xs. malloc h n = Some (p, xs) \<longrightarrow>
        p \<noteq> 0 \<and> h p = None \<and> length xs = unat n div unat sizeof_DataPacket)"

text \<open>
  \<^verbatim>\<open>free(p)\<close> of an address that is no live block is undefined, and so is a \<^verbatim>\<open>memcpy\<close> from or
  to one, or past its end: these are \<open>None\<close>, as is the \<^verbatim>\<open>exit(1)\<close> of a failed allocation.
\<close>

definition free_block :: "ptr \<Rightarrow> store \<Rightarrow> store option" where
  "free_block p m = (if blocks m p = None then None else Some (m\<lparr>blocks := (blocks m)(p := None)\<rparr>))"

definition memcpy_packets :: "ptr \<Rightarrow> ptr \<Rightarrow> uint_fast64 \<Rightarrow> store \<Rightarrow> store option" where
  "memcpy_packets dst src bytes m =
     (case (blocks m dst, blocks m src) of
        (Some d, Some s) \<Rightarrow>
          (let n = unat bytes div unat sizeof_DataPacket in
           if n \<le> length d \<and> n \<le> length s
           then Some (m\<lparr>blocks := (blocks m)(dst \<mapsto> take n s @ drop n d)\<rparr>)
           else None)
      | _ \<Rightarrow> None)"

definition set_obj :: "ptr \<Rightarrow> DataPacketsList \<Rightarrow> store \<Rightarrow> store" where
  "set_obj a v m = m\<lparr>objs := (objs m)(a := v)\<rparr>"

text \<open>Allocation of the array, with the check every constructor repeats.\<close>

definition alloc_packets :: "malloc_fn \<Rightarrow> ptr \<Rightarrow> uint_fast32 \<Rightarrow> store \<Rightarrow> store option" where
  "alloc_packets malloc this n m =
     (case malloc (blocks m) (n * sizeof_DataPacket) of
        None \<Rightarrow> None
      | Some (p, xs) \<Rightarrow>
          Some (set_obj this \<lparr>dl_packets = Some p, dl_num_packets = n\<rparr>
                 (m\<lparr>blocks := (blocks m)(p \<mapsto> xs)\<rparr>)))"

definition DataPacketsList_ctor :: "malloc_fn \<Rightarrow> ptr \<Rightarrow> uint_fast32 \<Rightarrow> store \<Rightarrow> store option" where
  "DataPacketsList_ctor malloc this num_packets m = alloc_packets malloc this num_packets m"

definition DataPacketsList_dtor :: "ptr \<Rightarrow> store \<Rightarrow> store option" where
  "DataPacketsList_dtor this m =
     (case dl_packets (objs m this) of
        None \<Rightarrow> Some m
      | Some p \<Rightarrow>
          map_option (set_obj this ((objs m this)\<lparr>dl_packets := None\<rparr>)) (free_block p m))"

definition copy_packets :: "ptr \<Rightarrow> ptr \<Rightarrow> store \<Rightarrow> store option" where
  "copy_packets this obj m =
     (case (dl_packets (objs m this), dl_packets (objs m obj)) of
        (Some d, Some s) \<Rightarrow>
          memcpy_packets d s (dl_num_packets (objs m obj) * sizeof_DataPacket) m
      | _ \<Rightarrow> None)"

definition DataPacketsList_copy_ctor :: "malloc_fn \<Rightarrow> ptr \<Rightarrow> ptr \<Rightarrow> store \<Rightarrow> store option" where
  "DataPacketsList_copy_ctor malloc this obj m =
     do { m1 \<leftarrow> alloc_packets malloc this (dl_num_packets (objs m obj)) m;
          copy_packets this obj m1 }"

definition DataPacketsList_assign :: "malloc_fn \<Rightarrow> ptr \<Rightarrow> ptr \<Rightarrow> store \<Rightarrow> store option" where
  "DataPacketsList_assign malloc this obj m =
     do { m1 \<leftarrow> DataPacketsList_dtor this m;
          m2 \<leftarrow> alloc_packets malloc this (dl_num_packets (objs m1 obj)) m1;
          copy_packets this obj m2 }"

end
