(* ===== verification/Os_Model.thy ===== *)
theory Os_Model
  imports Data_Packets
begin

text \<open>
  What the program uses of Linux and of the C library. Everything the machine decides is an
  oracle of the record \<open>os\<close> (the successive readings of the monotonic clock, the answer to the
  n-th system call, how far the other thread gets between two steps of the main thread), so a
  function of the model is deterministic and a theorem about every \<open>os\<close> is a theorem about every
  behaviour of the machine. The calls made are recorded, in order, in \<open>log\<close>.
\<close>

section \<open>Points in time\<close>

record timespec =
  tv_sec :: c_long
  tv_nsec :: c_long

text \<open>The number of nanoseconds a \<^verbatim>\<open>timespec\<close> stands for.\<close>

definition ts_ns :: "timespec \<Rightarrow> int" where
  "ts_ns t = sint (tv_sec t) * 10 ^ 9 + sint (tv_nsec t)"

definition ts_norm :: "timespec \<Rightarrow> bool" where
  "ts_norm t \<longleftrightarrow> 0 \<le> sint (tv_nsec t) \<and> sint (tv_nsec t) < 10 ^ 9"

text \<open>The order of points in time: by seconds, then by nanoseconds, both signed.\<close>

instantiation timespec_ext :: (linorder) linorder
begin

definition less_eq_timespec_ext :: "'a timespec_scheme \<Rightarrow> 'a timespec_scheme \<Rightarrow> bool" where
  "less_eq_timespec_ext s t \<longleftrightarrow>
     sint (tv_sec s) < sint (tv_sec t) \<or>
     tv_sec s = tv_sec t \<and>
       (sint (tv_nsec s) < sint (tv_nsec t) \<or>
        tv_nsec s = tv_nsec t \<and> timespec.more s \<le> timespec.more t)"

definition less_timespec_ext :: "'a timespec_scheme \<Rightarrow> 'a timespec_scheme \<Rightarrow> bool" where
  "less_timespec_ext s t \<longleftrightarrow> s \<le> t \<and> \<not> t \<le> (s :: 'a timespec_scheme)"

instance
proof
  fix x y z :: "'a timespec_scheme"
  show "(x < y) = (x \<le> y \<and> \<not> y \<le> x)" by (rule less_timespec_ext_def)
  show "x \<le> x" by (simp add: less_eq_timespec_ext_def)
  show "x \<le> y \<Longrightarrow> y \<le> z \<Longrightarrow> x \<le> z" by (auto simp: less_eq_timespec_ext_def)
  show "x \<le> y \<Longrightarrow> y \<le> x \<Longrightarrow> x = y" by (auto simp: less_eq_timespec_ext_def)
  show "x \<le> y \<or> y \<le> x"
    using less_linear [of "sint (tv_sec x)" "sint (tv_sec y)"]
      less_linear [of "sint (tv_nsec x)" "sint (tv_nsec y)"]
      linear [of "timespec.more x" "timespec.more y"]
    by (auto simp: less_eq_timespec_ext_def dest!: signed_word_eqI)
qed

end

lemma ts_ns_mono:
  fixes s t :: timespec
  assumes "ts_norm s" and "ts_norm t" and "s \<le> t"
  shows "ts_ns s \<le> ts_ns t"
proof (cases "sint (tv_sec s) < sint (tv_sec t)")
  case True
  then have "sint (tv_sec s) + 1 \<le> sint (tv_sec t)" by simp
  with assms(1,2) show ?thesis by (simp add: ts_ns_def ts_norm_def)
next
  case False
  with assms(3) show ?thesis by (auto simp: less_eq_timespec_ext_def ts_ns_def)
qed

section \<open>The machine\<close>

record addrinfo =
  ai_family :: int
  ai_socktype :: int
  ai_protocol :: int

datatype sockopt =
    SO_REUSEADDR int
  | SO_ZEROCOPY int
  | SO_SNDTIMEO int int
  | SO_SNDBUF int
  | SO_RCVBUF int

datatype event =
    Nanosleep timespec
  | Getaddrinfo string
  | Freeaddrinfo
  | SocketCall addrinfo
  | Setsockopt int sockopt
  | BindCall int addrinfo
  | ListenCall int int
  | IgnoreSigpipe
  | AcceptCall int
  | ShutdownCall int
  | CloseCall int
  | AttrInit
  | AttrSetstacksize
  | AttrSetschedpolicy
  | AttrSetschedparam int
  | AttrSetinheritsched
  | PthreadCreate
  | SetAffinity int
  | SendCall int ptr uint_fast64 bool
  | SendfileCall int int int uint_fast64
  | PollCall int
  | RecvmsgCall int
  | Mlockall
  | SchedSetscheduler int
  | SchedSetaffinity int
  | UserFn uint_fast32 bool uint_fast16

text \<open>
  What \<^verbatim>\<open>recvmsg\<close> delivers from the error queue of a socket: the flags and the first control
  message, with its level, its type and the fields of \<^verbatim>\<open>sock_extended_err\<close> the program reads.
\<close>

record cmsg =
  cmsg_level :: int
  cmsg_type :: int
  ee_origin :: byte
  ee_info :: "32 word"
  ee_data :: "32 word"

record msghdr =
  msg_flags :: c_int
  msg_first :: "cmsg option"

text \<open>
  \<open>clock\<close> are the readings of \<^verbatim>\<open>CLOCK_MONOTONIC\<close>, \<open>reads\<close> how many were taken;
  \<open>answer n\<close> is the return value of the n-th logged call, \<open>revents n\<close> and \<open>errqueue n\<close> what it
  writes through its pointers when it is a \<^verbatim>\<open>poll\<close> or a \<^verbatim>\<open>recvmsg\<close>; \<open>memory\<close>, \<open>int_at\<close> and
  \<open>file_bytes\<close> are the process memory, the \<^verbatim>\<open>int\<close>s stored in it and the contents of open
  files; \<open>lists\<close> are the \<^verbatim>\<open>DataPacketsList\<close> objects of the caller, by address; \<open>wire\<close> are
  the bytes handed to the client socket; \<open>schedule n\<close> is the number of steps the worker thread
  makes before the n-th access of the main thread to shared data, \<open>turns\<close> how many such accesses
  there were; \<open>spurious n\<close> says whether the condition wait of the worker ends without a signal at
  the n-th time it is looked at, \<open>waits\<close> how often it was.
\<close>

record os =
  clock :: "nat \<Rightarrow> timespec"
  reads :: nat
  answer :: "nat \<Rightarrow> int"
  revents :: "nat \<Rightarrow> 16 word"
  errqueue :: "nat \<Rightarrow> msghdr"
  log :: "event list"
  memory :: "ptr \<Rightarrow> byte"
  int_at :: "ptr \<Rightarrow> int"
  file_bytes :: "int \<Rightarrow> byte list"
  lists :: "ptr \<Rightarrow> DataPacket list"
  wire :: "byte list"
  addrinfos :: "addrinfo list"
  gai_strerror :: "int \<Rightarrow> string"
  schedule :: "nat \<Rightarrow> nat"
  turns :: nat
  spurious :: "nat \<Rightarrow> bool"
  waits :: nat

definition syscall :: "event \<Rightarrow> os \<Rightarrow> int \<times> os" where
  "syscall e w = (answer w (length (log w)), w\<lparr>log := log w @ [e]\<rparr>)"

definition clock_gettime :: "os \<Rightarrow> timespec \<times> os" where
  "clock_gettime w = (clock w (reads w), w\<lparr>reads := Suc (reads w)\<rparr>)"

text \<open>The calls of the user function, in order.\<close>

fun is_user_call :: "event \<Rightarrow> bool" where
  "is_user_call (UserFn _ _ _) = True"
| "is_user_call _ = False"

definition user_calls :: "os \<Rightarrow> event list" where
  "user_calls w = filter is_user_call (log w)"

lemma filter_user_calls [simp]: "filter is_user_call (log w) = user_calls w"
  by (simp add: user_calls_def)

lemma user_calls_update [simp]:
  "user_calls (w\<lparr>log := l\<rparr>) = filter is_user_call l" "user_calls (w\<lparr>reads := n\<rparr>) = user_calls w"
  "user_calls (w\<lparr>wire := x\<rparr>) = user_calls w" "user_calls (w\<lparr>turns := n\<rparr>) = user_calls w"
  "user_calls (w\<lparr>waits := n\<rparr>) = user_calls w" "user_calls (w\<lparr>lists := f\<rparr>) = user_calls w"
  "user_calls (w\<lparr>memory := m\<rparr>) = user_calls w"
  by (simp_all add: user_calls_def del: filter_user_calls)

lemma os_log_simps:
  "wire (w\<lparr>log := l\<rparr>) = wire w" "memory (w\<lparr>log := l\<rparr>) = memory w"
  "file_bytes (w\<lparr>log := l\<rparr>) = file_bytes w" "answer (w\<lparr>log := l\<rparr>) = answer w"
  by simp_all

text \<open>
  The documented behaviour of \<^verbatim>\<open>CLOCK_MONOTONIC\<close>: readings are normalised, never go back, are
  not negative and stay below \<open>2 ^ 63\<close> nanoseconds (292 years); and the clock runs: it reaches
  every point below \<open>2 ^ 62\<close> nanoseconds (146 years) at some reading.
\<close>

definition clock_ok :: "(nat \<Rightarrow> timespec) \<Rightarrow> bool" where
  "clock_ok c \<longleftrightarrow>
     (\<forall>i. ts_norm (c i) \<and> c i \<le> c (Suc i) \<and> 0 \<le> ts_ns (c i) \<and> ts_ns (c i) < 2 ^ 63)"

definition clock_runs :: "(nat \<Rightarrow> timespec) \<Rightarrow> bool" where
  "clock_runs c \<longleftrightarrow> clock_ok c \<and> (\<forall>t < 2 ^ 62. \<exists>i. t \<le> ts_ns (c i))"

lemma clock_mono: "clock_ok c \<Longrightarrow> i \<le> j \<Longrightarrow> ts_ns (c i) \<le> ts_ns (c j)"
proof (induction j)
  case 0
  then show ?case by simp
next
  case (Suc j)
  then have "ts_ns (c j) \<le> ts_ns (c (Suc j))"
    by (auto simp: clock_ok_def intro: ts_ns_mono)
  with Suc show ?case by (cases "i = Suc j") auto
qed

lemma clock_bounds: "clock_ok c \<Longrightarrow> 0 \<le> ts_ns (c i)" "clock_ok c \<Longrightarrow> ts_ns (c i) < 2 ^ 63"
  by (auto simp: clock_ok_def)

lemma clock_norm: "clock_ok c \<Longrightarrow> ts_norm (c i)"
  by (auto simp: clock_ok_def)

lemma clock_reaches_later:
  assumes "clock_runs c" and "t < 2 ^ 62"
  shows "\<exists>i \<ge> k. t \<le> ts_ns (c i)"
proof -
  from assms obtain i where i: "t \<le> ts_ns (c i)" by (auto simp: clock_runs_def)
  also have "\<dots> \<le> ts_ns (c (max i k))"
    using assms(1) by (intro clock_mono) (auto simp: clock_runs_def)
  finally show ?thesis by (auto intro: exI [of _ "max i k"])
qed

text \<open>
  A concrete machine for the witnesses: the clock advances by one millisecond per reading and
  stops at \<open>2 ^ 62\<close> nanoseconds, every call answers 0, and the worker thread makes one step at
  every turn.
\<close>

definition ns_ts :: "nat \<Rightarrow> timespec" where
  "ns_ts n = \<lparr>tv_sec = word_of_nat (n div 10 ^ 9), tv_nsec = word_of_nat (n mod 10 ^ 9)\<rparr>"

definition demo_clock :: "nat \<Rightarrow> timespec" where
  "demo_clock i = ns_ts (min (i * 10 ^ 6) (2 ^ 62))"

definition demo_os :: os where
  "demo_os = \<lparr>clock = demo_clock, reads = 0, answer = (\<lambda>_. 0),
     revents = (\<lambda>_. 0), errqueue = (\<lambda>_. \<lparr>msg_flags = 0, msg_first = None\<rparr>), log = [], memory = (\<lambda>_. 0),
     int_at = (\<lambda>_. 0), file_bytes = (\<lambda>_. []), lists = (\<lambda>_. []), wire = [], addrinfos = [],
     gai_strerror = (\<lambda>_. ''''), schedule = (\<lambda>_. 1), turns = 0, spurious = (\<lambda>_. False), waits = 0\<rparr>"

lemma sint_word_of_nat_small: "n < 2 ^ 63 \<Longrightarrow> sint (word_of_nat n :: 64 word) = int n"
  using sint_word_of_int_small [of "int n"] by simp

lemma ts_ns_ns_ts: "n < 2 ^ 63 \<Longrightarrow> ts_ns (ns_ts n) = int n"
proof -
  assume "n < 2 ^ 63"
  then have "n div 10 ^ 9 < 2 ^ 63" "n mod 10 ^ 9 < 2 ^ 63"
    by (auto intro: le_less_trans [OF div_le_dividend] le_less_trans [OF mod_less_eq_dividend])
  then have "ts_ns (ns_ts n) = int (n div 10 ^ 9) * 10 ^ 9 + int (n mod 10 ^ 9)"
    by (simp only: ts_ns_def ns_ts_def sint_word_of_nat_small timespec.simps)
  also have "\<dots> = int (n div 10 ^ 9 * 10 ^ 9 + n mod 10 ^ 9)"
    by (simp only: of_nat_add of_nat_mult of_nat_power of_nat_numeral)
  also have "\<dots> = int n" by (simp only: div_mult_mod_eq)
  finally show ?thesis .
qed

lemma ts_norm_ns_ts: "n < 2 ^ 63 \<Longrightarrow> ts_norm (ns_ts n)"
proof -
  have "n mod 10 ^ 9 < 10 ^ 9" by simp
  then show ?thesis
    using sint_word_of_nat_small [of "n mod 10 ^ 9"]
    by (simp add: ts_norm_def ns_ts_def)
qed

lemma ns_ts_mono: "m \<le> n \<Longrightarrow> n < 2 ^ 63 \<Longrightarrow> ns_ts m \<le> ns_ts n"
proof (rule ccontr)
  assume mn: "m \<le> n" "n < 2 ^ 63" and "\<not> ns_ts m \<le> ns_ts n"
  then have lt: "ns_ts n \<le> ns_ts m" "ns_ts n \<noteq> ns_ts m" by auto
  then have "ts_ns (ns_ts n) \<le> ts_ns (ns_ts m)"
    using mn by (intro ts_ns_mono ts_norm_ns_ts) auto
  with mn have "m = n" by (simp add: ts_ns_ns_ts)
  with lt show False by simp
qed

lemma clock_runs_demo: "clock_runs demo_clock"
proof -
  have ok: "clock_ok demo_clock"
    by (auto simp: clock_ok_def demo_clock_def ts_ns_ns_ts ts_norm_ns_ts min_def intro!: ns_ts_mono)
  have "\<exists>i. t \<le> ts_ns (demo_clock i)" if "t < 2 ^ 62" for t
    using that by (intro exI [of _ "2 ^ 62"]) (simp add: demo_clock_def ts_ns_ns_ts)
  with ok show ?thesis by (simp add: clock_runs_def)
qed

lemma demo_os_simps [simp]:
  "clock demo_os = demo_clock" "reads demo_os = 0" "answer demo_os = (\<lambda>_. 0)" "log demo_os = []"
  by (simp_all add: demo_os_def)

end
