(* ===== verification/Timers_Utils.thy ===== *)
theory Timers_Utils
  imports Os_Model
begin

text \<open>
  The macros and sleep functions of namespace \<^verbatim>\<open>timers_utils\<close>
  (\<^verbatim>\<open>includes/timers_utils.h\<close>, \<^verbatim>\<open>src/timers/timers_utils.cpp\<close>). The macros multiply and
  divide by \<^verbatim>\<open>uint_fast64_t (1000)\<close>, so their argument is converted to the unsigned type and
  the result wraps at \<open>2 ^ 64\<close>: they are functions on \<open>64 word\<close>.
\<close>

section \<open>Conversions\<close>

definition SEC_TO_MS :: "uint_fast64 \<Rightarrow> uint_fast64" where "SEC_TO_MS s = s * 1000"
definition SEC_TO_US :: "uint_fast64 \<Rightarrow> uint_fast64" where "SEC_TO_US s = SEC_TO_MS s * 1000"
definition SEC_TO_NS :: "uint_fast64 \<Rightarrow> uint_fast64" where "SEC_TO_NS s = SEC_TO_US s * 1000"
definition SEC_TO_PS :: "uint_fast64 \<Rightarrow> uint_fast64" where "SEC_TO_PS s = SEC_TO_NS s * 1000"

definition MS_TO_SEC :: "uint_fast64 \<Rightarrow> uint_fast64" where "MS_TO_SEC s = s div 1000"
definition MS_TO_US :: "uint_fast64 \<Rightarrow> uint_fast64" where "MS_TO_US s = s * 1000"
definition MS_TO_NS :: "uint_fast64 \<Rightarrow> uint_fast64" where "MS_TO_NS s = MS_TO_US s * 1000"
definition MS_TO_PS :: "uint_fast64 \<Rightarrow> uint_fast64" where "MS_TO_PS s = MS_TO_NS s * 1000"

definition US_TO_MS :: "uint_fast64 \<Rightarrow> uint_fast64" where "US_TO_MS s = s div 1000"
definition US_TO_SEC :: "uint_fast64 \<Rightarrow> uint_fast64" where "US_TO_SEC s = US_TO_MS s div 1000"
definition US_TO_NS :: "uint_fast64 \<Rightarrow> uint_fast64" where "US_TO_NS s = s * 1000"
definition US_TO_PS :: "uint_fast64 \<Rightarrow> uint_fast64" where "US_TO_PS s = US_TO_NS s * 1000"

definition NS_TO_US :: "uint_fast64 \<Rightarrow> uint_fast64" where "NS_TO_US s = s div 1000"
definition NS_TO_MS :: "uint_fast64 \<Rightarrow> uint_fast64" where "NS_TO_MS s = NS_TO_US s div 1000"
definition NS_TO_SEC :: "uint_fast64 \<Rightarrow> uint_fast64" where "NS_TO_SEC s = NS_TO_MS s div 1000"
definition NS_TO_PS :: "uint_fast64 \<Rightarrow> uint_fast64" where "NS_TO_PS s = s * 1000"

definition PS_TO_NS :: "uint_fast64 \<Rightarrow> uint_fast64" where "PS_TO_NS s = s div 1000"
definition PS_TO_US :: "uint_fast64 \<Rightarrow> uint_fast64" where "PS_TO_US s = PS_TO_NS s div 1000"
definition PS_TO_MS :: "uint_fast64 \<Rightarrow> uint_fast64" where "PS_TO_MS s = PS_TO_US s div 1000"
definition PS_TO_SEC :: "uint_fast64 \<Rightarrow> uint_fast64" where "PS_TO_SEC s = PS_TO_MS s div 1000"

lemmas to_finer = SEC_TO_MS_def SEC_TO_US_def SEC_TO_NS_def SEC_TO_PS_def MS_TO_US_def MS_TO_NS_def
  MS_TO_PS_def US_TO_NS_def US_TO_PS_def NS_TO_PS_def

lemmas to_coarser = MS_TO_SEC_def US_TO_MS_def US_TO_SEC_def NS_TO_US_def NS_TO_MS_def
  NS_TO_SEC_def PS_TO_NS_def PS_TO_US_def PS_TO_MS_def PS_TO_SEC_def

text \<open>Reading the conversions as numbers: the finer ones wrap, the coarser ones never do.\<close>

lemma unat_div_1000: "unat (w div 1000 :: 64 word) = unat w div 1000"
  by (simp add: unat_div)

lemma unat_NS_TO_SEC: "unat (NS_TO_SEC w) = unat w div 10 ^ 9"
  by (simp add: to_coarser unat_div div_mult2_eq [symmetric])

lemma uint_NS_TO_SEC: "uint (NS_TO_SEC w) = uint w div 10 ^ 9"
  by (simp add: to_coarser uint_div zdiv_zmult2_eq [symmetric])

lemma unat_PS_TO_NS: "unat (PS_TO_NS w) = unat w div 1000"
  by (simp add: to_coarser unat_div)

lemma SEC_TO_NS_1: "SEC_TO_NS 1 = 10 ^ 9" and SEC_TO_PS_1: "SEC_TO_PS 1 = 10 ^ 12"
  by (simp_all add: to_finer)

lemma SEC_TO_NS_word_of_int: "SEC_TO_NS (word_of_int x) = word_of_int (x * 10 ^ 9)"
  by (simp add: to_finer)

lemma unat_MS_TO_NS: "unat w * 10 ^ 6 < 2 ^ 64 \<Longrightarrow> unat (MS_TO_NS w) = unat w * 10 ^ 6"
  by (simp add: to_finer unat_word_ariths mod_mult_left_eq)

lemma unat_US_TO_NS: "unat w * 1000 < 2 ^ 64 \<Longrightarrow> unat (US_TO_NS w) = unat w * 1000"
  by (simp add: to_finer unat_word_ariths)

section \<open>Differences and sums of points in time\<close>

definition TIMESPEC_DIFF_NS :: "timespec \<Rightarrow> timespec \<Rightarrow> uint_fast64" where
  "TIMESPEC_DIFF_NS t1 t2 = SEC_TO_NS (tv_sec t2 - tv_sec t1) + (tv_nsec t2 - tv_nsec t1)"

definition ADD_NS_TO_TIMESPEC :: "timespec \<Rightarrow> uint_fast64 \<Rightarrow> timespec" where
  "ADD_NS_TO_TIMESPEC ts ns =
     (let ts1 = ts\<lparr>tv_sec := tv_sec ts + NS_TO_SEC (tv_nsec ts + ns)\<rparr>
      in ts1\<lparr>tv_nsec := (tv_nsec ts1 + ns) mod SEC_TO_NS 1\<rparr>)"

text \<open>The macro computes the difference of the two points modulo \<open>2 ^ 64\<close>, whatever they are.\<close>

lemma word_of_int_sint: "word_of_int (sint w) = (w :: 'a::len word)"
  by (metis scast_eq scast_id)

lemma TIMESPEC_DIFF_NS_word: "TIMESPEC_DIFF_NS t1 t2 = word_of_int (ts_ns t2 - ts_ns t1)"
proof -
  have "word_of_int (ts_ns t2 - ts_ns t1) =
      ((word_of_int (sint (tv_sec t2)) - word_of_int (sint (tv_sec t1))) * 10 ^ 9 +
       (word_of_int (sint (tv_nsec t2)) - word_of_int (sint (tv_nsec t1))) :: 64 word)"
    by (simp add: ts_ns_def algebra_simps)
  also have "\<dots> = TIMESPEC_DIFF_NS t1 t2"
    by (simp add: TIMESPEC_DIFF_NS_def to_finer word_of_int_sint)
  finally show ?thesis by simp
qed

lemma uint_TIMESPEC_DIFF_NS:
  assumes "ts_ns t1 \<le> ts_ns t2" and "ts_ns t2 - ts_ns t1 < 2 ^ 64"
  shows "uint (TIMESPEC_DIFF_NS t1 t2) = ts_ns t2 - ts_ns t1"
  unfolding TIMESPEC_DIFF_NS_word using assms by (intro uint_word_of_int_small) simp_all

lemma ADD_NS_TO_TIMESPEC_fields:
  assumes "ts_norm t" and "uint ns < 2 ^ 63" and "0 \<le> ts_ns t" and "ts_ns t < 2 ^ 63"
  shows "sint (tv_sec (ADD_NS_TO_TIMESPEC t ns)) =
      sint (tv_sec t) + (sint (tv_nsec t) + uint ns) div 10 ^ 9"
    and "sint (tv_nsec (ADD_NS_TO_TIMESPEC t ns)) = (sint (tv_nsec t) + uint ns) mod 10 ^ 9"
proof -
  let ?u = "tv_nsec t + ns"
  have n: "sint (tv_nsec t) = uint (tv_nsec t)" and s: "sint (tv_sec t) = uint (tv_sec t)"
    using assms by (auto simp: ts_norm_def ts_ns_def intro!: sint_eq_uint_nonneg)
  have "uint (tv_sec t) * 10 ^ 9 + uint (tv_nsec t) < 2 ^ 63"
    using assms(4) n s by (simp add: ts_ns_def)
  then have "uint (tv_sec t) * 10 ^ 9 < 2 ^ 63"
    using uint_ge_0 [of "tv_nsec t"] by linarith
  then have small: "uint (tv_nsec t) < 10 ^ 9" "uint (tv_sec t) < 2 ^ 34"
    using assms(1) n by (simp_all add: ts_norm_def)
  have u: "uint ?u = uint (tv_nsec t) + uint ns"
    using small assms(2) by (intro uint_add_no_wrap) simp
  have q: "uint (NS_TO_SEC ?u) = uint ?u div 10 ^ 9"
    by (rule uint_NS_TO_SEC)
  have "uint ?u div 10 ^ 9 < 2 ^ 34"
    using u small assms(2) by simp
  then have w: "uint (tv_sec t + NS_TO_SEC ?u) = uint (tv_sec t) + uint ?u div 10 ^ 9"
    using small q by (subst uint_add_no_wrap) simp_all
  have "sint (tv_sec t + NS_TO_SEC ?u) = uint (tv_sec t + NS_TO_SEC ?u)"
    using w small \<open>uint ?u div 10 ^ 9 < 2 ^ 34\<close> by (intro sint_eq_uint_small) simp
  then show "sint (tv_sec (ADD_NS_TO_TIMESPEC t ns)) =
      sint (tv_sec t) + (sint (tv_nsec t) + uint ns) div 10 ^ 9"
    using w u n s by (simp add: ADD_NS_TO_TIMESPEC_def Let_def)
  have m: "uint (?u mod SEC_TO_NS 1) = uint ?u mod 10 ^ 9"
    by (simp add: SEC_TO_NS_1 uint_mod)
  then have "sint (?u mod SEC_TO_NS 1) = uint ?u mod 10 ^ 9"
    by (subst sint_eq_uint_small) simp_all
  then show "sint (tv_nsec (ADD_NS_TO_TIMESPEC t ns)) = (sint (tv_nsec t) + uint ns) mod 10 ^ 9"
    using u n by (simp add: ADD_NS_TO_TIMESPEC_def Let_def)
qed

text \<open>The sum is exact and normalised again.\<close>

lemma ts_ns_ADD_NS:
  assumes "ts_norm t" and "uint ns < 2 ^ 63" and "0 \<le> ts_ns t" and "ts_ns t < 2 ^ 63"
  shows "ts_ns (ADD_NS_TO_TIMESPEC t ns) = ts_ns t + uint ns"
    and "ts_norm (ADD_NS_TO_TIMESPEC t ns)"
  using ADD_NS_TO_TIMESPEC_fields [OF assms]
  by (simp_all only: ts_ns_def ts_norm_def) (simp_all add: algebra_simps)

section \<open>Sleeping\<close>

definition ns_sleep_time :: "uint_fast64 \<Rightarrow> timespec" where
  "ns_sleep_time d = \<lparr>tv_sec = NS_TO_SEC d, tv_nsec = d mod SEC_TO_NS 1\<rparr>"

text \<open>
  \<^verbatim>\<open>nanosleep\<close> may return early (interrupted by a signal); its answer is ignored and the loop
  reads the clock again. \<open>None\<close> is a loop that never ends.
\<close>

partial_function (option) nanosleep_loop ::
  "timespec \<Rightarrow> timespec \<Rightarrow> uint_fast64 \<Rightarrow> os \<Rightarrow> os option" where [code]:
  "nanosleep_loop start_time current_time sleep_time_ns w =
     (let slept_time_ns = TIMESPEC_DIFF_NS start_time current_time in
      if slept_time_ns < sleep_time_ns then
        (let (_, w1) = syscall (Nanosleep (ns_sleep_time (sleep_time_ns - slept_time_ns))) w;
             (current_time', w2) = clock_gettime w1
         in nanosleep_loop start_time current_time' sleep_time_ns w2)
      else Some w)"

definition nanoseconds_sleep :: "uint_fast64 \<Rightarrow> os \<Rightarrow> os option" where
  "nanoseconds_sleep sleep_time_ns w =
     (let (start_time, w1) = clock_gettime w;
          (current_time, w2) = clock_gettime w1
      in nanosleep_loop start_time current_time sleep_time_ns w2)"

definition microseconds_sleep :: "uint_fast32 \<Rightarrow> os \<Rightarrow> os option" where
  "microseconds_sleep sleep_time_us w = nanoseconds_sleep (US_TO_NS sleep_time_us) w"

definition milliseconds_sleep :: "uint_fast32 \<Rightarrow> os \<Rightarrow> os option" where
  "milliseconds_sleep sleep_time_ms w = nanoseconds_sleep (MS_TO_NS sleep_time_ms) w"

definition seconds_sleep :: "uint_fast16 \<Rightarrow> os \<Rightarrow> os option" where
  "seconds_sleep sleep_time_s w = nanoseconds_sleep (SEC_TO_NS sleep_time_s) w"

text \<open>The loop \<^verbatim>\<open>while(TIMESPEC_DIFF_NS(...) < ...) clock_gettime(...)\<close> of the spinning timers.\<close>

partial_function (option) busy_wait_loop ::
  "timespec \<Rightarrow> timespec \<Rightarrow> uint_fast64 \<Rightarrow> os \<Rightarrow> os option" where [code]:
  "busy_wait_loop start_time current_time sleep_time_ns w =
     (if TIMESPEC_DIFF_NS start_time current_time < sleep_time_ns then
        (let (current_time', w1) = clock_gettime w
         in busy_wait_loop start_time current_time' sleep_time_ns w1)
      else Some w)"

subsection \<open>What sleeping changes\<close>

text \<open>
  \<open>slept w naps w'\<close>: between \<open>w\<close> and \<open>w'\<close> the process only read the clock and asked for the
  naps \<open>naps\<close>.
\<close>

definition slept :: "os \<Rightarrow> timespec list \<Rightarrow> os \<Rightarrow> bool" where
  [spec_defs]: "slept w naps w' \<longleftrightarrow>
     reads w \<le> reads w' \<and> w' = w\<lparr>reads := reads w', log := log w @ map Nanosleep naps\<rparr>"

lemma slept_refl [simp]: "slept w [] w"
  by (simp add: slept_def)

lemma slept_trans: "slept w ns w1 \<Longrightarrow> slept w1 ms w2 \<Longrightarrow> slept w (ns @ ms) w2"
  by (cases w; cases w1; cases w2) (auto simp: slept_def)

lemma slept_clock_gettime: "slept w [] (snd (clock_gettime w))"
  by (simp add: slept_def clock_gettime_def)

lemma slept_first: "slept (snd (clock_gettime w)) naps w' \<Longrightarrow> slept w naps w'"
  using slept_trans [OF slept_clock_gettime [of w]] by simp

lemma slept_nap: "slept w [t] (snd (syscall (Nanosleep t) w))"
  by (simp add: slept_def syscall_def)

lemma sleptD:
  assumes "slept w naps w'"
  shows "clock w' = clock w" "reads w \<le> reads w'" "log w' = log w @ map Nanosleep naps"
    "answer w' = answer w" "lists w' = lists w" "wire w' = wire w" "memory w' = memory w"
    "schedule w' = schedule w" "turns w' = turns w" "spurious w' = spurious w"
    "file_bytes w' = file_bytes w" "int_at w' = int_at w" "addrinfos w' = addrinfos w"
    "gai_strerror w' = gai_strerror w" "waits w' = waits w"
proof -
  from assms have e: "w' = w\<lparr>reads := reads w', log := log w @ map Nanosleep naps\<rparr>"
    and "reads w \<le> reads w'" by (auto simp: slept_def)
  then show "reads w \<le> reads w'" by blast
  show "clock w' = clock w" "log w' = log w @ map Nanosleep naps"
    "answer w' = answer w" "lists w' = lists w" "wire w' = wire w" "memory w' = memory w"
    "schedule w' = schedule w" "turns w' = turns w" "spurious w' = spurious w"
    "file_bytes w' = file_bytes w" "int_at w' = int_at w" "addrinfos w' = addrinfos w"
    "gai_strerror w' = gai_strerror w" "waits w' = waits w"
    by (subst e, simp)+
qed

lemma slept_user_calls: "slept w naps w' \<Longrightarrow> user_calls w' = user_calls w"
  by (simp add: user_calls_def sleptD(3) comp_def del: filter_user_calls)

lemma slept_last_reading:
  assumes "slept w naps w'" and "0 < reads w"
  shows "0 < reads w'"
  using sleptD [OF assms(1)] assms(2) by simp

subsection \<open>The loops end late enough\<close>

text \<open>
  The spinning loop leaves either at once, on the reading it was entered with, or on a reading of
  its own.
\<close>

lemma busy_wait_loop_result:
  assumes "busy_wait_loop s c d w = Some w'"
  shows "slept w [] w' \<and>
     (w' = w \<and> d \<le> TIMESPEC_DIFF_NS s c \<or>
      reads w < reads w' \<and> d \<le> TIMESPEC_DIFF_NS s (clock w (reads w' - 1)))"
proof (induct rule: busy_wait_loop.raw_induct [OF _ assms(1), consumes 0, case_names step])
  case (step f s c d w w')
  show ?case
  proof (cases "TIMESPEC_DIFF_NS s c < d")
    case True
    let ?w1 = "snd (clock_gettime w)"
    from step(2) True have "f s (clock w (reads w)) d ?w1 = Some w'"
      by (simp add: clock_gettime_def)
    from step(1) [OF this] have IH: "slept ?w1 [] w' \<and>
        (w' = ?w1 \<and> d \<le> TIMESPEC_DIFF_NS s (clock w (reads w)) \<or>
         reads ?w1 < reads w' \<and> d \<le> TIMESPEC_DIFF_NS s (clock ?w1 (reads w' - 1)))" .
    then have "slept w ([] @ []) w'"
      by (intro slept_trans [OF slept_clock_gettime]) simp
    with IH show ?thesis by (auto simp: clock_gettime_def)
  next
    case False
    with step(2) show ?thesis by (simp add: linorder_not_less)
  qed
qed

lemma busy_wait_loop_returns:
  assumes "reads w \<le> i" and "d \<le> TIMESPEC_DIFF_NS s (clock w i)"
  shows "\<exists>w'. busy_wait_loop s c d w = Some w'"
  using assms
proof (induction "i - reads w" arbitrary: c w)
  case 0
  then have "reads w = i" and "\<not> TIMESPEC_DIFF_NS s (clock w i) < d"
    by (simp_all add: linorder_not_less)
  then show ?case
    by (simp add: clock_gettime_def busy_wait_loop.simps [of s c d w]
          busy_wait_loop.simps [of s "clock w i" d "w\<lparr>reads := Suc i\<rparr>"])
next
  case (Suc n)
  have "\<exists>w'. busy_wait_loop s (clock w (reads w)) d (snd (clock_gettime w)) = Some w'"
    using Suc by (intro Suc(1)) (auto simp: clock_gettime_def)
  then show ?case
    by (subst busy_wait_loop.simps) (simp add: clock_gettime_def)
qed

lemma nanosleep_loop_result:
  assumes "nanosleep_loop s c d w = Some w'" and "c = clock w (reads w - 1)" and "0 < reads w"
  shows "\<exists>naps. slept w naps w' \<and> d \<le> TIMESPEC_DIFF_NS s (clock w' (reads w' - 1)) \<and>
     (\<forall>t \<in> set naps. \<exists>r. t = ns_sleep_time r \<and> 0 < r \<and> r \<le> d)"
  using assms(2,3)
proof (induct rule: nanosleep_loop.raw_induct [OF _ assms(1), consumes 0, case_names step])
  case (step f s c d w w')
  let ?r = "d - TIMESPEC_DIFF_NS s c"
  show ?case
  proof (cases "TIMESPEC_DIFF_NS s c < d")
    case True
    let ?w1 = "snd (syscall (Nanosleep (ns_sleep_time ?r)) w)"
    let ?w2 = "snd (clock_gettime ?w1)"
    have r: "f s (clock w (reads w)) d ?w2 = Some w'"
      using step(2) True by (simp add: clock_gettime_def syscall_def Let_def)
    obtain naps where naps: "slept ?w2 naps w'" "d \<le> TIMESPEC_DIFF_NS s (clock w' (reads w' - 1))"
      "\<forall>t \<in> set naps. \<exists>r. t = ns_sleep_time r \<and> 0 < r \<and> r \<le> d"
      using step(1) [OF r] by (auto simp: clock_gettime_def syscall_def)
    have "slept w ([ns_sleep_time ?r] @ ([] @ naps)) w'"
      by (rule slept_trans [OF slept_nap slept_trans [OF slept_clock_gettime naps(1)]])
    moreover have "0 < ?r \<and> ?r \<le> d"
      using True by (rule word_sub_pos_le)
    ultimately show ?thesis
      using naps by (intro exI [of _ "ns_sleep_time ?r # naps"]) auto
  next
    case False
    with step(2) have "w' = w" by simp
    with step(3) False show ?thesis by (auto simp: linorder_not_less intro!: exI [of _ "[]"])
  qed
qed

lemma nanoseconds_sleep_slept:
  assumes "nanoseconds_sleep d w = Some w'"
  shows "\<exists>naps. slept w naps w'"
proof -
  let ?w2 = "w\<lparr>reads := Suc (Suc (reads w))\<rparr>"
  have "nanosleep_loop (clock w (reads w)) (clock ?w2 (Suc (reads w))) d ?w2 = Some w'"
    using assms by (simp add: nanoseconds_sleep_def clock_gettime_def)
  then obtain naps where "slept ?w2 naps w'" using nanosleep_loop_result by fastforce
  moreover have "slept w [] ?w2" by (simp add: slept_def)
  ultimately show ?thesis using slept_trans by blast
qed

lemma nanosleep_loop_returns:
  assumes "d \<le> TIMESPEC_DIFF_NS s (clock w i)" and "c = clock w (reads w - 1)"
    and "reads w \<le> Suc i" and "0 < reads w"
  shows "\<exists>w'. nanosleep_loop s c d w = Some w'"
  using assms
proof (induction "Suc i - reads w" arbitrary: c w)
  case 0
  then have "reads w - 1 = i" by simp
  with 0 show ?case by (subst nanosleep_loop.simps) (auto simp: linorder_not_less Let_def)
next
  case (Suc n)
  let ?w1 = "snd (syscall (Nanosleep (ns_sleep_time (d - TIMESPEC_DIFF_NS s c))) w)"
  have "\<exists>w'. nanosleep_loop s (clock w (reads w)) d (snd (clock_gettime ?w1)) = Some w'"
    using Suc by (intro Suc(1)) (auto simp: clock_gettime_def syscall_def)
  then show ?case
    by (subst nanosleep_loop.simps) (simp add: clock_gettime_def syscall_def Let_def)
qed

text \<open>A request made of a remaining time is normalised, so the kernel does not refuse it.\<close>

lemma ns_sleep_time_ok: "ts_norm (ns_sleep_time d)" "ts_ns (ns_sleep_time d) = uint d"
proof -
  have "uint (NS_TO_SEC d) = uint d div 10 ^ 9" by (rule uint_NS_TO_SEC)
  moreover have "uint d < 2 ^ 64" using uint_lt2p [of d] by simp
  ultimately have s: "sint (NS_TO_SEC d) = uint d div 10 ^ 9"
    by (subst sint_eq_uint_small) simp_all
  have n: "sint (d mod SEC_TO_NS 1) = uint d mod 10 ^ 9"
    by (subst sint_eq_uint_small) (simp_all add: SEC_TO_NS_1 uint_mod order.strict_trans [of _ "10 ^ 9"])
  show "ts_norm (ns_sleep_time d)" by (simp add: ts_norm_def ns_sleep_time_def n)
  show "ts_ns (ns_sleep_time d) = uint d"
    by (simp only: ts_ns_def ns_sleep_time_def timespec.simps s n div_mult_mod_eq)
qed

lemma clock_diff:
  assumes "clock_ok c" and "i \<le> j"
  shows "uint (TIMESPEC_DIFF_NS (c i) (c j)) = ts_ns (c j) - ts_ns (c i)"
  using assms clock_mono [OF assms] clock_bounds [OF assms(1), of i] clock_bounds [OF assms(1), of j]
  by (intro uint_TIMESPEC_DIFF_NS) simp_all

text \<open>A reading late enough is one from which the difference has reached \<open>d\<close>.\<close>

lemma diff_reached_iff:
  assumes "clock_ok c" and "i \<le> j"
  shows "d \<le> TIMESPEC_DIFF_NS (c i) (c j) \<longleftrightarrow> ts_ns (c i) + uint d \<le> ts_ns (c j)"
  using clock_diff [OF assms] by (auto simp: word_le_def)

lemma nanoseconds_sleep_result:
  assumes "nanoseconds_sleep d w = Some w'" and "clock_ok (clock w)"
  shows "\<exists>naps. slept w naps w' \<and> Suc (Suc (reads w)) \<le> reads w' \<and>
     ts_ns (clock w (reads w)) + uint d \<le> ts_ns (clock w (reads w' - 1)) \<and>
     (\<forall>t \<in> set naps. ts_norm t \<and> 0 < ts_ns t \<and> ts_ns t \<le> uint d)"
proof -
  let ?w2 = "w\<lparr>reads := Suc (Suc (reads w))\<rparr>"
  have "nanosleep_loop (clock w (reads w)) (clock w (Suc (reads w))) d ?w2 = Some w'"
    using assms(1) by (simp add: nanoseconds_sleep_def clock_gettime_def)
  from nanosleep_loop_result [OF this] obtain naps where
    naps: "slept ?w2 naps w'" "d \<le> TIMESPEC_DIFF_NS (clock w (reads w)) (clock w' (reads w' - 1))"
      "\<forall>t \<in> set naps. \<exists>r. t = ns_sleep_time r \<and> 0 < r \<and> r \<le> d" by auto
  have "slept w [] ?w2" by (simp add: slept_def)
  from slept_trans [OF this naps(1)] have 1: "slept w naps w'" by simp
  have 2: "Suc (Suc (reads w)) \<le> reads w'" using sleptD(2) [OF naps(1)] by simp
  have "d \<le> TIMESPEC_DIFF_NS (clock w (reads w)) (clock w (reads w' - 1))"
    using naps(2) sleptD(1) [OF 1] by simp
  then have 3: "ts_ns (clock w (reads w)) + uint d \<le> ts_ns (clock w (reads w' - 1))"
    using 2 assms(2) by (subst (asm) diff_reached_iff) auto
  have 4: "\<forall>t \<in> set naps. ts_norm t \<and> 0 < ts_ns t \<and> ts_ns t \<le> uint d"
    using naps(3) by (auto simp: ns_sleep_time_ok word_less_def word_le_def)
  from 1 2 3 4 show ?thesis by blast
qed

lemma nanoseconds_sleep_returns:
  assumes "clock_runs (clock w)" and "ts_ns (clock w (reads w)) + uint d < 2 ^ 62"
  shows "\<exists>w'. nanoseconds_sleep d w = Some w'"
proof -
  have ok: "clock_ok (clock w)" using assms(1) by (simp add: clock_runs_def)
  obtain i where i: "Suc (reads w) \<le> i" "ts_ns (clock w (reads w)) + uint d \<le> ts_ns (clock w i)"
    using clock_reaches_later [OF assms] by blast
  then have "d \<le> TIMESPEC_DIFF_NS (clock w (reads w)) (clock w i)"
    using ok by (subst diff_reached_iff) auto
  then show ?thesis
    using i nanosleep_loop_returns [of d "clock w (reads w)" "w\<lparr>reads := Suc (Suc (reads w))\<rparr>" i]
    by (simp add: nanoseconds_sleep_def clock_gettime_def)
qed

subsection \<open>Sleeping ends early enough\<close>

text \<open>
  The loop stops at the first reading that is late enough, so on a clock that advances by at most
  \<open>b\<close> from one reading to the next it oversleeps by at most that.
\<close>

definition clock_steps :: "int \<Rightarrow> (nat \<Rightarrow> timespec) \<Rightarrow> bool" where
  "clock_steps b c \<longleftrightarrow> (\<forall>i. ts_ns (c (Suc i)) \<le> ts_ns (c i) + b)"

lemma nanosleep_loop_first:
  assumes "nanosleep_loop s c d w = Some w'" and "c = clock w (reads w - 1)" and "0 < reads w"
    and "reads w - 1 \<le> i" and "i < reads w' - 1"
  shows "TIMESPEC_DIFF_NS s (clock w i) < d"
  using assms(2-5)
proof (induct rule: nanosleep_loop.raw_induct [OF _ assms(1), consumes 0, case_names step])
  case (step f s c d w w')
  show ?case
  proof (cases "TIMESPEC_DIFF_NS s c < d")
    case True
    let ?w1 = "snd (syscall (Nanosleep (ns_sleep_time (d - TIMESPEC_DIFF_NS s c))) w)"
    let ?w2 = "snd (clock_gettime ?w1)"
    have r: "f s (clock w (reads w)) d ?w2 = Some w'"
      using step(2) True by (simp add: clock_gettime_def syscall_def Let_def)
    show ?thesis
    proof (cases "i = reads w - 1")
      case True
      with \<open>TIMESPEC_DIFF_NS s c < d\<close> step(3) show ?thesis by simp
    next
      case False
      with step(5) have "reads w \<le> i" by simp
      with step(1) [OF r] step(6) show ?thesis by (simp add: clock_gettime_def syscall_def)
    qed
  next
    case False
    with step(2) have "w' = w" by simp
    with step(5,6) show ?thesis by simp
  qed
qed

lemma nanoseconds_sleep_until:
  assumes "nanoseconds_sleep d w = Some w'" and ok: "clock_ok (clock w)" and b: "clock_steps b (clock w)"
  shows "ts_ns (clock w (reads w')) \<le> ts_ns (clock w (reads w)) + uint d + 2 * b"
proof -
  let ?w2 = "w\<lparr>reads := Suc (Suc (reads w))\<rparr>" and ?T = "\<lambda>i. ts_ns (clock w i)"
  have l: "nanosleep_loop (clock w (reads w)) (clock w (Suc (reads w))) d ?w2 = Some w'"
    using assms(1) by (simp add: nanoseconds_sleep_def clock_gettime_def)
  from nanosleep_loop_result [OF this] obtain naps where "slept ?w2 naps w'" by auto
  then have r: "Suc (Suc (reads w)) \<le> reads w'" using sleptD(2) by fastforce
  have st: "?T (Suc i) \<le> ?T i + b" for i using b by (simp add: clock_steps_def)
  define j where "j = reads w' - 1"
  have j: "reads w' = Suc j" "Suc (reads w) \<le> j" using r by (auto simp: j_def)
  have b0: "0 \<le> b" using st [of 0] clock_mono [OF ok, of 0 1] by simp
  have "?T j \<le> ?T (reads w) + uint d + b"
  proof (cases "j = Suc (reads w)")
    case True
    then have "?T j \<le> ?T (reads w) + b" using st [of "reads w"] by simp
    with uint_ge_0 [of d] show ?thesis by linarith
  next
    case False
    with j have i: "Suc (reads w) \<le> j - 1" "j - 1 < j" "Suc (j - 1) = j" by auto
    then have "TIMESPEC_DIFF_NS (clock w (reads w)) (clock w (j - 1)) < d"
      using nanosleep_loop_first [OF l, of "j - 1"] by (simp add: j_def)
    moreover have "\<not> TIMESPEC_DIFF_NS (clock w (reads w)) (clock w (j - 1)) < d \<longleftrightarrow>
        ?T (reads w) + uint d \<le> ?T (j - 1)"
      using diff_reached_iff [OF ok, of "reads w" "j - 1" d] i(1) by (simp add: linorder_not_less)
    ultimately have "?T (j - 1) < ?T (reads w) + uint d" by linarith
    with st [of "j - 1"] i(3) show ?thesis by simp
  qed
  with st [of j] j(1) b0 show ?thesis by simp
qed

subsection \<open>Waiting for a point in time after \<open>s\<close>\<close>

lemma diff_from:
  assumes "clock_ok c" and "0 \<le> ts_ns s" and "ts_ns s \<le> ts_ns (c j)"
  shows "uint (TIMESPEC_DIFF_NS s (c j)) = ts_ns (c j) - ts_ns s"
    and "d \<le> TIMESPEC_DIFF_NS s (c j) \<longleftrightarrow> ts_ns s + uint d \<le> ts_ns (c j)"
proof -
  show "uint (TIMESPEC_DIFF_NS s (c j)) = ts_ns (c j) - ts_ns s"
    using assms clock_bounds [OF assms(1), of j] by (intro uint_TIMESPEC_DIFF_NS) simp_all
  then show "d \<le> TIMESPEC_DIFF_NS s (c j) \<longleftrightarrow> ts_ns s + uint d \<le> ts_ns (c j)"
    by (auto simp: word_le_def)
qed

text \<open>Spinning from a reading \<open>clock w i\<close> taken before.\<close>

lemma busy_wait_reached:
  assumes "clock_ok (clock w)" and "0 \<le> ts_ns s" and "ts_ns s \<le> ts_ns (clock w i)" and "i < reads w"
    and "busy_wait_loop s (clock w i) d w = Some w'"
  shows "slept w [] w'" and "ts_ns s + uint d \<le> ts_ns (clock w (reads w' - 1))"
proof -
  note r = busy_wait_loop_result [OF assms(5)]
  then show "slept w [] w'" by blast
  have later: "ts_ns (clock w i) \<le> ts_ns (clock w j)" if "i \<le> j" for j
    using assms(1) that by (rule clock_mono)
  show "ts_ns s + uint d \<le> ts_ns (clock w (reads w' - 1))"
  proof (cases "w' = w")
    case True
    with r have "ts_ns s + uint d \<le> ts_ns (clock w i)"
      using diff_from(2) [OF assms(1-3)] by auto
    also have "\<dots> \<le> ts_ns (clock w (reads w' - 1))" using True assms(4) by (intro later) simp
    finally show ?thesis .
  next
    case False
    with r have "reads w < reads w'" "d \<le> TIMESPEC_DIFF_NS s (clock w (reads w' - 1))" by auto
    moreover from this(1) assms(4) have "i \<le> reads w' - 1" by simp
    then have "ts_ns s \<le> ts_ns (clock w (reads w' - 1))"
      using assms(3) later by (meson order_trans)
    ultimately show ?thesis using diff_from(2) [OF assms(1,2)] by blast
  qed
qed

lemma busy_wait_returns:
  assumes "clock_runs (clock w)" and "0 \<le> ts_ns s" and "ts_ns s + uint d < 2 ^ 62"
  shows "\<exists>w'. busy_wait_loop s c d w = Some w'"
proof -
  have ok: "clock_ok (clock w)" using assms(1) by (simp add: clock_runs_def)
  obtain i where i: "reads w \<le> i" "ts_ns s + uint d \<le> ts_ns (clock w i)"
    using clock_reaches_later [OF assms(1,3)] by blast
  then have "d \<le> TIMESPEC_DIFF_NS s (clock w i)"
    using uint_ge_0 [of d] by (subst diff_from(2) [OF ok assms(2)]) linarith+
  with i(1) show ?thesis by (rule busy_wait_loop_returns)
qed

end
