(* ===== verification/Error_Handler.thy ===== *)
theory Error_Handler
  imports RT_Prelude
begin

text \<open>
  The class \<^verbatim>\<open>Error\<close> (\<^verbatim>\<open>includes/error.h\<close>, \<^verbatim>\<open>src/utils/error.cpp\<close>) that every other class
  embeds as \<^verbatim>\<open>error_handler_\<close>, and the interface \<open>error_source\<close> of the classes whose
  \<^verbatim>\<open>get_error\<close>/\<^verbatim>\<open>is_error\<close> pair drains that handler.
\<close>

record Error =
  e_is_error :: bool
  e_error_msg :: string
  e_owner_identifier :: string

definition Error_ctor :: "string \<Rightarrow> Error" where
  "Error_ctor owner_identifier =
     \<lparr>e_is_error = False, e_error_msg = '''', e_owner_identifier = owner_identifier\<rparr>"

definition Error_set_error :: "string \<Rightarrow> Error \<Rightarrow> Error" where
  "Error_set_error error_msg e = e\<lparr>e_error_msg := error_msg, e_is_error := True\<rparr>"

definition Error_get_error :: "Error \<Rightarrow> string" where
  "Error_get_error e = e_error_msg e"

definition Error_is_error :: "Error \<Rightarrow> bool" where
  "Error_is_error e = e_is_error e"

definition Error_clear_error :: "Error \<Rightarrow> Error" where
  "Error_clear_error e = e\<lparr>e_is_error := False, e_error_msg := ''''\<rparr>"

text \<open>Class invariant: without a pending error the message is empty.\<close>

definition Error_wf :: "Error \<Rightarrow> bool" where
  "Error_wf e \<longleftrightarrow> (\<not> e_is_error e \<longrightarrow> e_error_msg e = '''')"

lemmas Error_ops = Error_ctor_def Error_set_error_def Error_get_error_def Error_is_error_def
  Error_clear_error_def

lemma Error_wf_ctor [simp]: "Error_wf (Error_ctor n)"
  by (simp add: Error_wf_def Error_ops)

lemma Error_wf_set_error [simp]: "Error_wf (Error_set_error m e)"
  by (simp add: Error_wf_def Error_ops)

lemma Error_wf_clear_error [simp]: "Error_wf (Error_clear_error e)"
  by (simp add: Error_wf_def Error_ops)

lemma Error_is_error_simps [simp]:
  "Error_is_error (Error_set_error m e)"
  "\<not> Error_is_error (Error_clear_error e)"
  "\<not> Error_is_error (Error_ctor n)"
  by (simp_all add: Error_ops)

lemma Error_get_error_simps [simp]:
  "Error_get_error (Error_set_error m e) = m"
  "Error_get_error (Error_clear_error e) = ''''"
  "Error_get_error (Error_ctor n) = ''''"
  by (simp_all add: Error_ops)

lemma Error_owner_simps [simp]:
  "e_owner_identifier (Error_set_error m e) = e_owner_identifier e"
  "e_owner_identifier (Error_clear_error e) = e_owner_identifier e"
  by (simp_all add: Error_ops)

text \<open>
  The interface \<^verbatim>\<open>get_error\<close>/\<^verbatim>\<open>is_error\<close> that \<^verbatim>\<open>Timer\<close>, \<^verbatim>\<open>Sender\<close> and
  \<^verbatim>\<open>RealTimeSystem\<close> promise: ``return the error string if an error occurs and the error
  MUST be removed after this call, if no error occurs, return the empty string''. The client
  lemmas hold for every class that delegates to an embedded \<^verbatim>\<open>Error\<close>.
\<close>

locale error_source =
  fixes handler :: "'o \<Rightarrow> Error"
    and get :: "'o \<Rightarrow> string \<times> 'o"
    and is_err :: "'o \<Rightarrow> bool"
  assumes get_msg: "fst (get x) = Error_get_error (handler x)"
    and get_clears: "handler (snd (get x)) = Error_clear_error (handler x)"
    and is_err_handler: "is_err x = Error_is_error (handler x)"
begin

lemma drained: "\<not> is_err (snd (get x))"
  by (simp add: is_err_handler get_clears)

lemma second_get_empty: "fst (get (snd (get x))) = ''''"
  by (simp add: get_msg get_clears)

lemma no_error_empty:
  assumes "Error_wf (handler x)" and "\<not> is_err x"
  shows "fst (get x) = ''''"
  using assms by (simp add: get_msg is_err_handler Error_wf_def Error_ops)

lemma reported_once:
  assumes "handler x = Error_set_error m e"
  shows "is_err x \<and> fst (get x) = m \<and> \<not> is_err (snd (get x)) \<and> fst (get (snd (get x))) = ''''"
  using assms by (simp add: is_err_handler get_msg get_clears)

end

end
