(* ===== verification/Timer_Interface.thy ===== *)
theory Timer_Interface
  imports Timers_Utils Error_Handler
begin

text \<open>
  The abstract class \<^verbatim>\<open>Timer\<close> (\<^verbatim>\<open>includes/timer.h\<close>) as a record of its virtual methods, the
  abstract state every timer keeps, and the contract \<open>tick_timer\<close>: each method, seen through the
  abstraction, is one of the transitions below. The lemmas on the schedule of ticks (no overflow,
  never early, bounded drift) are proved once, inside the contract.
\<close>

section \<open>The abstract class\<close>

definition TIMER_FREQUNCY_ERROR :: uint_fast16 where
  "TIMER_FREQUNCY_ERROR = push_bit 16 1 - 1"

record 't Timer =
  tm_initialize :: "'t \<Rightarrow> bool \<times> 't"
  tm_set_frequency :: "uint_fast16 \<Rightarrow> 't \<Rightarrow> (bool \<times> 't) option"
  tm_get_frequency :: "'t \<Rightarrow> uint_fast16"
  tm_start_timer :: "'t \<Rightarrow> os \<Rightarrow> bool \<times> 't \<times> os"
  tm_stop_timer :: "'t \<Rightarrow> 't"
  tm_sleep_to_next_tick :: "'t \<Rightarrow> os \<Rightarrow> (bool \<times> 't \<times> os) option"
  tm_get_error :: "'t \<Rightarrow> string \<times> 't"
  tm_is_error :: "'t \<Rightarrow> bool"

text \<open>
  The message \<^verbatim>\<open>sprintf\<close> writes into \<^verbatim>\<open>buffer_[256]\<close>; \<^verbatim>\<open>%d\<close> reads the low 32 bits of the
  frequency as a signed number.
\<close>

definition frequency_message :: "uint_fast16 \<Rightarrow> string" where
  "frequency_message frequency =
     ''The frequency provided is : '' @ dec_int (sint (ucast frequency :: c_int)) @
     '', the max frequency supported is '' @ dec_int (sint (ucast TIMER_MAX_FREQUENCY :: c_int))"

lemma length_frequency_message: "length (frequency_message f) < 256"
proof -
  have "length (dec_int (sint (ucast f :: c_int))) \<le> 11"
    "length (dec_int (sint (ucast TIMER_MAX_FREQUENCY :: c_int))) \<le> 11"
    by (rule length_dec_int_32)+
  then show ?thesis by (simp add: frequency_message_def)
qed

section \<open>The abstract state of a timer\<close>

record timer_view =
  v_start :: timespec
  v_frequency :: uint_fast16
  v_ps :: uint_fast64
  v_target :: uint_fast64
  v_started :: bool
  v_counter :: uint_fast32

text \<open>\<^verbatim>\<open>uint_fast32_t (1 << 23)\<close>: the number of ticks after which the start time moves.\<close>

definition counter_limit :: uint_fast32 where
  "counter_limit = push_bit 23 1"

definition target_for :: "uint_fast64 \<Rightarrow> uint_fast32 \<Rightarrow> uint_fast64" where
  "target_for ps n = PS_TO_NS (ps * n) + 1"

definition view_initialize :: "timer_view \<Rightarrow> timer_view" where
  "view_initialize v = v\<lparr>v_frequency := TIMER_FREQUNCY_ERROR, v_started := False\<rparr>"

definition view_set_frequency :: "uint_fast16 \<Rightarrow> timer_view \<Rightarrow> timer_view" where
  "view_set_frequency f v = v\<lparr>v_frequency := f, v_ps := SEC_TO_PS 1 div f\<rparr>"

definition view_start :: "timespec \<Rightarrow> timer_view \<Rightarrow> timer_view" where
  "view_start now v =
     v\<lparr>v_start := now, v_started := True, v_counter := 1, v_target := target_for (v_ps v) 1\<rparr>"

definition view_stop :: "timer_view \<Rightarrow> timer_view" where
  "view_stop v = v\<lparr>v_started := False\<rparr>"

definition view_next :: "timer_view \<Rightarrow> timer_view" where
  "view_next v =
     (let v1 = (if v_counter v = counter_limit
                then v\<lparr>v_start := ADD_NS_TO_TIMESPEC (v_start v) (v_target v), v_counter := 0\<rparr>
                else v)
      in v1\<lparr>v_counter := v_counter v1 + 1, v_target := target_for (v_ps v1) (v_counter v1 + 1)\<rparr>)"

lemmas view_ops = view_initialize_def view_set_frequency_def view_start_def view_stop_def

text \<open>
  The tick the view waits for, in nanoseconds on the monotonic clock, and whether the clock has
  passed it.
\<close>

definition deadline :: "timer_view \<Rightarrow> int" where
  "deadline v = ts_ns (v_start v) + uint (v_target v)"

definition late :: "timer_view \<Rightarrow> os \<Rightarrow> bool" where
  "late v w \<longleftrightarrow> v_target v < TIMESPEC_DIFF_NS (v_start v) (clock w (reads w))"

text \<open>
  The invariant of a running timer: a counter between 1 and \<open>2 ^ 23\<close>, a period of at most a
  second (\<open>10 ^ 12\<close> picoseconds), the target that belongs to the counter, and a start time that
  is not in the future of the clock.
\<close>

definition ticking :: "timer_view \<Rightarrow> os \<Rightarrow> bool" where
  [spec_defs]: "ticking v w \<longleftrightarrow>
     v_started v \<and> 0 < unat (v_ps v) \<and> unat (v_ps v) \<le> 10 ^ 12 \<and>
     1 \<le> unat (v_counter v) \<and> unat (v_counter v) \<le> 2 ^ 23 \<and>
     v_target v = target_for (v_ps v) (v_counter v) \<and>
     ts_norm (v_start v) \<and> 0 \<le> ts_ns (v_start v) \<and>
     ts_ns (v_start v) \<le> ts_ns (clock w (reads w))"

text \<open>
  ``Prevent overflow'': with at most \<open>10 ^ 12\<close> picoseconds and a counter of at most \<open>2 ^ 23\<close>
  the product stays below \<open>2 ^ 63\<close>, so the target is the exact quotient.
\<close>

lemma unat_target_for:
  assumes "unat ps \<le> 10 ^ 12" and "unat n \<le> 2 ^ 23"
  shows "unat (target_for ps n) = unat ps * unat n div 1000 + 1"
    and "unat ps * unat n < 2 ^ 63"
proof -
  have "unat ps * unat n \<le> 10 ^ 12 * 2 ^ 23" using assms by (rule mult_le_mono)
  also have "\<dots> < (2 ^ 63 :: nat)" by simp
  finally show p: "unat ps * unat n < 2 ^ 63" .
  then have m: "unat (PS_TO_NS (ps * n)) = unat ps * unat n div 1000"
    by (simp add: unat_PS_TO_NS unat_mult_no_wrap)
  moreover have "unat ps * unat n div 1000 \<le> unat ps * unat n" by (rule div_le_dividend)
  ultimately have "unat (PS_TO_NS (ps * n)) < 2 ^ 63" using p by linarith
  then have "unat (PS_TO_NS (ps * n) + 1) = unat (PS_TO_NS (ps * n)) + 1"
    by (subst unat_add_no_wrap) simp_all
  with m show "unat (target_for ps n) = unat ps * unat n div 1000 + 1"
    by (simp add: target_for_def)
qed

lemma ticking_target:
  assumes "ticking v w"
  shows "uint (v_target v) = int (unat (v_ps v) * unat (v_counter v) div 1000 + 1)"
    and "uint (v_target v) < 2 ^ 63"
proof -
  have 1: "unat (v_target v) = unat (v_ps v) * unat (v_counter v) div 1000 + 1"
    and 2: "unat (v_ps v) * unat (v_counter v) < 2 ^ 63"
    using assms unat_target_for [of "v_ps v" "v_counter v"] by (simp_all add: ticking_def)
  then show "uint (v_target v) = int (unat (v_ps v) * unat (v_counter v) div 1000 + 1)"
    by (simp only: uint_eq_int_unat)
  have "unat (v_ps v) * unat (v_counter v) div 1000 + 1 < 2 ^ 63" using 2 by simp
  then have "int (unat (v_target v)) < int (2 ^ 63)" using 1 by (simp only: of_nat_less_iff)
  then show "uint (v_target v) < 2 ^ 63" by simp
qed

lemma unat_counter_limit: "unat counter_limit = 2 ^ 23"
  by (simp add: counter_limit_def push_bit_eq_mult)

lemma counter_wraps_iff: "v_counter v = counter_limit \<longleftrightarrow> unat (v_counter v) = 2 ^ 23"
  by (metis unat_counter_limit unsigned_word_eqI)

text \<open>One tick of the view, with the numbers the words stand for.\<close>

lemma view_next_wrap:
  assumes "ticking v w" and "unat (v_counter v) = 2 ^ 23" and "ts_ns (v_start v) < 2 ^ 63"
  shows "unat (v_counter (view_next v)) = 1" and "ts_ns (v_start (view_next v)) = deadline v"
    and "ts_norm (v_start (view_next v))"
proof -
  have c: "v_counter v = counter_limit" using assms(2) by (simp only: counter_wraps_iff)
  then show "unat (v_counter (view_next v)) = 1" by (simp add: view_next_def)
  have n: "ts_norm (v_start v)" "0 \<le> ts_ns (v_start v)" using assms(1) by (simp_all add: ticking_def)
  note add = ts_ns_ADD_NS [OF n(1) ticking_target(2) [OF assms(1)] n(2) assms(3)]
  have s: "v_start (view_next v) = ADD_NS_TO_TIMESPEC (v_start v) (v_target v)"
    using c by (simp add: view_next_def)
  show "ts_ns (v_start (view_next v)) = deadline v" "ts_norm (v_start (view_next v))"
    unfolding s deadline_def using add by simp_all
qed

lemma view_next_count:
  assumes "ticking v w" and "unat (v_counter v) \<noteq> 2 ^ 23"
  shows "unat (v_counter (view_next v)) = Suc (unat (v_counter v))"
    and "v_start (view_next v) = v_start v"
proof -
  have c: "v_counter v \<noteq> counter_limit" using assms(2) by (simp only: counter_wraps_iff simp_thms)
  have "unat (v_counter v + 1) = unat (v_counter v) + 1"
    using assms by (intro trans [OF unat_add_no_wrap]) (auto simp: ticking_def)
  with c show "unat (v_counter (view_next v)) = Suc (unat (v_counter v))"
    by (simp add: view_next_def)
  from c show "v_start (view_next v) = v_start v" by (simp add: view_next_def)
qed

lemma view_next_same [simp]:
  "v_ps (view_next v) = v_ps v" "v_frequency (view_next v) = v_frequency v"
  "v_started (view_next v) = v_started v"
  "v_target (view_next v) = target_for (v_ps v) (v_counter (view_next v))"
  by (simp_all add: view_next_def Let_def)

text \<open>What being in time means in nanoseconds: the time left is the distance to the deadline.\<close>

lemma in_time_left:
  assumes "\<not> late v w" and "ticking v w" and "clock_ok (clock w)"
  shows "TIMESPEC_DIFF_NS (v_start v) (clock w (reads w)) \<le> v_target v"
    and "uint (v_target v - TIMESPEC_DIFF_NS (v_start v) (clock w (reads w))) =
      deadline v - ts_ns (clock w (reads w))"
proof -
  show le: "TIMESPEC_DIFF_NS (v_start v) (clock w (reads w)) \<le> v_target v"
    using assms(1) by (simp add: late_def linorder_not_less)
  have "uint (TIMESPEC_DIFF_NS (v_start v) (clock w (reads w))) =
      ts_ns (clock w (reads w)) - ts_ns (v_start v)"
    using assms(2,3) by (intro diff_from) (simp_all add: ticking_def)
  then show "uint (v_target v - TIMESPEC_DIFF_NS (v_start v) (clock w (reads w))) =
      deadline v - ts_ns (clock w (reads w))"
    using uint_sub_no_wrap [OF le] by (simp add: deadline_def)
qed

text \<open>A running timer keeps running within its bounds, once the clock has reached the deadline.\<close>

lemma ticking_next:
  assumes "ticking v w" and "clock_ok (clock w)" and "clock w' = clock w"
    and "reads w \<le> reads w'" and "deadline v \<le> ts_ns (clock w (reads w'))"
  shows "ticking (view_next v) w'"
proof -
  have s: "ts_ns (v_start v) < 2 ^ 63"
    using assms(1) clock_bounds(2) [OF assms(2), of "reads w"] by (simp add: ticking_def)
  have later: "ts_ns (clock w (reads w)) \<le> ts_ns (clock w (reads w'))"
    using assms(2,4) by (rule clock_mono)
  show ?thesis
  proof (cases "unat (v_counter v) = 2 ^ 23")
    case True
    have "0 \<le> deadline v" using assms(1) by (simp add: deadline_def ticking_def)
    with view_next_wrap [OF assms(1) True s] assms show ?thesis
      by (simp add: ticking_def)
  next
    case False
    with view_next_count [OF assms(1) False] assms later show ?thesis
      by (auto simp: ticking_def)
  qed
qed

section \<open>The schedule over many ticks\<close>

text \<open>
  \<open>on_schedule s n v\<close>: \<open>v\<close> has done \<open>n\<close> ticks since it was started at time \<open>s\<close>. The start
  time was moved \<open>q\<close> times, once in \<open>2 ^ 23\<close> ticks, and gained less than a nanosecond
  each time.
\<close>

definition on_schedule :: "int \<Rightarrow> nat \<Rightarrow> timer_view \<Rightarrow> bool" where
  [spec_defs]: "on_schedule s n v \<longleftrightarrow>
     (\<exists>q. n + 1 = q * 2 ^ 23 + unat (v_counter v) \<and>
        int (unat (v_ps v) * 2 ^ 23 * q) \<le> 1000 * (ts_ns (v_start v) - s) \<and>
        1000 * (ts_ns (v_start v) - s) \<le> int (unat (v_ps v) * 2 ^ 23 * q + 1000 * q))"

lemma quotient_bounds:
  "int p < 1000 * int (p div 1000 + 1)" "1000 * int (p div 1000 + 1) \<le> int p + 1000"
proof -
  have "int p = int (p div 1000 * 1000 + p mod 1000)" by (simp only: div_mult_mod_eq)
  moreover have "int (p mod 1000) < 1000" by simp
  ultimately have "int p = 1000 * int (p div 1000) + int (p mod 1000)" "int (p mod 1000) < 1000"
    by (simp_all only: of_nat_add of_nat_mult of_nat_numeral mult.commute)
  then show "int p < 1000 * int (p div 1000 + 1)" "1000 * int (p div 1000 + 1) \<le> int p + 1000"
    unfolding of_nat_add of_nat_1 distrib_left by linarith+
qed

lemma drift_step:
  assumes "int (p * q) \<le> x" and "x \<le> int (p * q + 1000 * q)"
  shows "int (p * Suc q) \<le> x + 1000 * int (p div 1000 + 1)"
    and "x + 1000 * int (p div 1000 + 1) \<le> int (p * Suc q + 1000 * Suc q)"
  using assms quotient_bounds [of p] unfolding mult_Suc_right of_nat_add by linarith+

lemma on_schedule_next:
  assumes "ticking v w" and "on_schedule s n v" and "ts_ns (v_start v) < 2 ^ 63"
  shows "on_schedule s (Suc n) (view_next v)"
proof -
  from assms(2) obtain q where
    q: "n + 1 = q * 2 ^ 23 + unat (v_counter v)"
      "int (unat (v_ps v) * 2 ^ 23 * q) \<le> 1000 * (ts_ns (v_start v) - s)"
      "1000 * (ts_ns (v_start v) - s) \<le> int (unat (v_ps v) * 2 ^ 23 * q + 1000 * q)"
    by (auto simp: on_schedule_def)
  show ?thesis
  proof (cases "unat (v_counter v) = 2 ^ 23")
    case True
    let ?p = "unat (v_ps v) * 2 ^ 23"
    have d: "1000 * (deadline v - s) = 1000 * (ts_ns (v_start v) - s) + 1000 * int (?p div 1000 + 1)"
      using ticking_target [OF assms(1)] True by (simp add: deadline_def)
    have "int (?p * Suc q) \<le> 1000 * (deadline v - s)"
      "1000 * (deadline v - s) \<le> int (?p * Suc q + 1000 * Suc q)"
      unfolding d by (rule drift_step [OF q(2,3)])+
    moreover have "Suc n + 1 = Suc q * 2 ^ 23 + 1" using q(1) True by simp
    ultimately show ?thesis
      unfolding on_schedule_def view_next_wrap [OF assms(1) True assms(3)] view_next_same
      by (intro exI [of _ "Suc q"] conjI)
  next
    case False
    with q view_next_count [OF assms(1) False] show ?thesis
      by (auto simp: on_schedule_def intro!: exI [of _ q])
  qed
qed

lemma on_schedule_deadline:
  assumes "ticking v w" and "on_schedule s n v"
  shows "int (unat (v_ps v) * (n + 1)) < 1000 * (deadline v - s)"
    and "1000 * (deadline v - s) \<le> int (unat (v_ps v) * (n + 1) + 1000 * (n div 2 ^ 23 + 1))"
proof -
  from assms(2) obtain q where
    q: "n + 1 = q * 2 ^ 23 + unat (v_counter v)"
      "int (unat (v_ps v) * 2 ^ 23 * q) \<le> 1000 * (ts_ns (v_start v) - s)"
      "1000 * (ts_ns (v_start v) - s) \<le> int (unat (v_ps v) * 2 ^ 23 * q + 1000 * q)"
    by (auto simp: on_schedule_def)
  have "n = q * 2 ^ 23 + (unat (v_counter v) - 1)" "unat (v_counter v) - 1 < 2 ^ 23"
    using q(1) assms(1) by (auto simp: ticking_def)
  then have n: "n div 2 ^ 23 = q" by simp
  let ?p = "unat (v_ps v) * unat (v_counter v)"
  have d: "1000 * (deadline v - s) = 1000 * (ts_ns (v_start v) - s) + 1000 * int (?p div 1000 + 1)"
    using ticking_target [OF assms(1)] by (simp add: deadline_def)
  have e: "unat (v_ps v) * (n + 1) = unat (v_ps v) * 2 ^ 23 * q + ?p"
    unfolding q(1) by (simp add: algebra_simps)
  show "int (unat (v_ps v) * (n + 1)) < 1000 * (deadline v - s)"
    "1000 * (deadline v - s) \<le> int (unat (v_ps v) * (n + 1) + 1000 * (n div 2 ^ 23 + 1))"
    unfolding d e n of_nat_add [of _ ?p] of_nat_add [of _ "1000 * (q + 1)"]
    using quotient_bounds [of ?p] q(2,3) unfolding of_nat_add [of _ "1000 * q"]
    by (simp_all only: of_nat_mult [of 1000] of_nat_add [of q] of_nat_1 of_nat_numeral distrib_left)
qed

text \<open>
  The period in whole picoseconds is at most a picosecond short of \<open>1 / f\<close> seconds, so \<open>k\<close>
  periods are at most \<open>k\<close> picoseconds short of \<open>k / f\<close> seconds.
\<close>

lemma periods_from:
  assumes "0 < f" and "int (10 ^ 12 div f * k) \<le> D"
  shows "10 ^ 12 * int k \<le> int f * (D + int k)"
proof -
  have "10 ^ 12 \<le> f * (10 ^ 12 div f + 1)" using assms(1) dividend_less_times_div [of f "10 ^ 12"] by simp
  then have "int (10 ^ 12 * k) \<le> int (f * (10 ^ 12 div f + 1) * k)"
    by (intro zle_int [THEN iffD2] mult_right_mono) simp_all
  also have "\<dots> = int f * (int (10 ^ 12 div f * k) + int k)"
    by (simp only: of_nat_mult of_nat_add of_nat_1 algebra_simps)
  also have "\<dots> \<le> int f * (D + int k)" using assms(2) by (intro mult_left_mono) simp_all
  finally show ?thesis by (simp only: of_nat_mult of_nat_power of_nat_numeral)
qed

lemma periods_until:
  assumes "D \<le> int (10 ^ 12 div f * k + e)"
  shows "int f * D \<le> 10 ^ 12 * int k + int f * int e"
proof -
  have "int f * D \<le> int f * int (10 ^ 12 div f * k + e)" using assms by (intro mult_left_mono) simp_all
  also have "\<dots> = int (f * (10 ^ 12 div f) * k) + int f * int e"
    by (simp only: of_nat_mult of_nat_add mult.assoc distrib_left)
  also have "\<dots> \<le> int (10 ^ 12 * k) + int f * int e"
    by (intro add_mono order_refl zle_int [THEN iffD2] mult_right_mono) simp_all
  finally show ?thesis by (simp only: of_nat_mult of_nat_power of_nat_numeral)
qed

section \<open>The contract of a timer\<close>

definition late_message :: string where
  "late_message = ''The tick already ticked before calling sleep_to_next_tick.''"

definition running_message :: string where
  "running_message = ''You can't start the timer while it is already running''"

text \<open>The loop \<^verbatim>\<open>while(timer.sleep_to_next_tick())\<close> of a client, for \<open>n\<close> ticks.\<close>

fun sleep_ticks :: "'t Timer \<Rightarrow> nat \<Rightarrow> 't \<Rightarrow> os \<Rightarrow> ('t \<times> os) option" where
  "sleep_ticks T 0 t w = Some (t, w)"
| "sleep_ticks T (Suc n) t w =
     do { (t1, w1) \<leftarrow> sleep_ticks T n t w;
          (ok, t2, w2) \<leftarrow> tm_sleep_to_next_tick T t1 w1;
          if ok then Some (t2, w2) else None }"

lemma sleep_ticks_Suc_iff:
  "sleep_ticks T (Suc n) t w = Some (t', w') \<longleftrightarrow>
     (\<exists>t1 w1. sleep_ticks T n t w = Some (t1, w1) \<and>
        tm_sleep_to_next_tick T t1 w1 = Some (True, t', w'))"
  by (auto simp: bind_eq_Some_conv split: if_splits)

declare sleep_ticks.simps(2) [simp del]

text \<open>
  A timer that was given the frequency \<open>f\<close>, was started on the machine \<open>w\<close>, and has done \<open>n\<close>
  ticks since.
\<close>

definition runs_at :: "'t Timer \<Rightarrow> uint_fast16 \<Rightarrow> 't \<Rightarrow> os \<Rightarrow> nat \<Rightarrow> 't \<Rightarrow> os \<Rightarrow> bool" where
  "runs_at T f t w n t' w' \<longleftrightarrow>
     (\<exists>t1 t2 w2. tm_set_frequency T f t = Some (True, t1) \<and> tm_start_timer T t1 w = (True, t2, w2) \<and>
        sleep_ticks T n t2 w2 = Some (t', w'))"

text \<open>
  Histories of calls on a timer, each on any machine, with their answers; and what a client may expect
  of the errors: the message of the last failure since the last \<^verbatim>\<open>get_error\<close>.
\<close>

datatype timer_call =
    T_Initialize
  | T_Set_Frequency uint_fast16
  | T_Start
  | T_Stop
  | T_Sleep
  | T_Get_Error

fun timer_do :: "'t Timer \<Rightarrow> timer_call \<Rightarrow> 't \<Rightarrow> os \<Rightarrow> (bool \<times> 't \<times> os) option" where
  "timer_do T T_Initialize t w = (let (b, t1) = tm_initialize T t in Some (b, t1, w))"
| "timer_do T (T_Set_Frequency f) t w = do { (b, t1) \<leftarrow> tm_set_frequency T f t; Some (b, t1, w) }"
| "timer_do T T_Start t w = Some (tm_start_timer T t w)"
| "timer_do T T_Stop t w = Some (True, tm_stop_timer T t, w)"
| "timer_do T T_Sleep t w = tm_sleep_to_next_tick T t w"
| "timer_do T T_Get_Error t w = Some (True, snd (tm_get_error T t), w)"

fun timer_history :: "'t Timer \<Rightarrow> (timer_call \<times> os) list \<Rightarrow> 't \<Rightarrow> (bool list \<times> 't) option" where
  "timer_history T [] t = Some ([], t)"
| "timer_history T ((c, w) # cs) t =
     do { (b, t1, _) \<leftarrow> timer_do T c t w;
          (bs, t2) \<leftarrow> timer_history T cs t1;
          Some (b # bs, t2) }"

fun failure_message :: "timer_call \<Rightarrow> string" where
  "failure_message (T_Set_Frequency f) = frequency_message f"
| "failure_message T_Start = running_message"
| "failure_message T_Sleep = late_message"
| "failure_message _ = ''''"

fun pending :: "string option \<Rightarrow> (timer_call \<times> bool) list \<Rightarrow> string option" where
  "pending p [] = p"
| "pending p ((c, b) # xs) =
     pending (if c = T_Get_Error then None else if b then p else Some (failure_message c)) xs"

definition reports_failures :: "'t Timer \<Rightarrow> 't \<Rightarrow> bool" where
  [spec_defs]: "reports_failures T t0 \<longleftrightarrow>
     (\<forall>cs bs t. timer_history T cs t0 = Some (bs, t) \<longrightarrow>
        (case pending None (zip (map fst cs) bs) of
           None \<Rightarrow> \<not> tm_is_error T t \<and> fst (tm_get_error T t) = ''''
         | Some m \<Rightarrow> tm_is_error T t \<and> fst (tm_get_error T t) = m))"

locale tick_timer = error_source handler "tm_get_error T" "tm_is_error T"
  for T :: "'t Timer" and handler :: "'t \<Rightarrow> Error" +
  fixes view :: "'t \<Rightarrow> timer_view"
  assumes initialize_law:
      "fst (tm_initialize T t) \<and> view (snd (tm_initialize T t)) = view_initialize (view t) \<and>
       handler (snd (tm_initialize T t)) = handler t"
    and set_frequency_over: "TIMER_MAX_FREQUENCY < f \<Longrightarrow>
       \<exists>t'. tm_set_frequency T f t = Some (False, t') \<and> view t' = view t \<and>
         handler t' = Error_set_error (frequency_message f) (handler t)"
    and set_frequency_zero: "tm_set_frequency T 0 t = None"
    and set_frequency_ok: "0 < f \<Longrightarrow> f \<le> TIMER_MAX_FREQUENCY \<Longrightarrow>
       \<exists>t'. tm_set_frequency T f t = Some (True, t') \<and> view t' = view_set_frequency f (view t) \<and>
         handler t' = handler t"
    and get_frequency_law: "tm_get_frequency T t = v_frequency (view t)"
    and start_running: "v_started (view t) \<Longrightarrow>
       \<exists>t'. tm_start_timer T t w = (False, t', w) \<and> view t' = view t \<and>
         handler t' = Error_set_error running_message (handler t)"
    and start_stopped: "\<not> v_started (view t) \<Longrightarrow>
       \<exists>t'. tm_start_timer T t w = (True, t', snd (clock_gettime w)) \<and>
         view t' = view_start (fst (clock_gettime w)) (view t) \<and> handler t' = handler t"
    and stop_law: "view (tm_stop_timer T t) = view_stop (view t) \<and>
       handler (tm_stop_timer T t) = handler t"
    and sleep_late: "late (view t) w \<Longrightarrow>
       \<exists>t'. tm_sleep_to_next_tick T t w = Some (False, t', snd (clock_gettime w)) \<and>
         view t' = view t \<and> handler t' = Error_set_error late_message (handler t)"
    and sleep_in_time: "\<lbrakk>\<not> late (view t) w; ticking (view t) w; clock_ok (clock w);
         tm_sleep_to_next_tick T t w = Some (ok, t', w')\<rbrakk> \<Longrightarrow>
       ok \<and> view t' = view_next (view t) \<and> handler t' = handler t \<and>
       (\<exists>naps. slept w naps w') \<and> reads w < reads w' \<and>
       deadline (view t) \<le> ts_ns (clock w (reads w' - 1))"
    and sleep_returns: "\<lbrakk>\<not> late (view t) w; ticking (view t) w; clock_runs (clock w);
         ts_ns (clock w (Suc (reads w))) + uint (v_target (view t)) < 2 ^ 62\<rbrakk> \<Longrightarrow>
       tm_sleep_to_next_tick T t w \<noteq> None"
    and sleep_slept: "tm_sleep_to_next_tick T t w = Some (ok, t', w') \<Longrightarrow> \<exists>naps. slept w naps w'"
    and sleep_handler: "tm_sleep_to_next_tick T t w = Some (ok, t', w') \<Longrightarrow>
       handler t' = (if ok then handler t else Error_set_error late_message (handler t))"
begin

lemma sleep_cases:
  assumes "ticking (view t) w" and "clock_ok (clock w)"
    and "tm_sleep_to_next_tick T t w = Some (ok, t', w')"
  shows "ok \<longleftrightarrow> \<not> late (view t) w"
  using sleep_late [of t w] sleep_in_time [OF _ assms(1,2,3)] assms(3) by force

lemma sleep_true:
  assumes "ticking (view t) w" and "clock_ok (clock w)"
    and "tm_sleep_to_next_tick T t w = Some (True, t', w')"
  shows "view t' = view_next (view t)" "handler t' = handler t" "clock w' = clock w"
    "reads w < reads w'" "deadline (view t) \<le> ts_ns (clock w (reads w' - 1))"
    "ticking (view t') w'"
proof -
  have "\<not> late (view t) w" using sleep_cases [OF assms] by simp
  note * = sleep_in_time [OF this assms]
  then show v: "view t' = view_next (view t)" "handler t' = handler t"
    and r: "reads w < reads w'" and d: "deadline (view t) \<le> ts_ns (clock w (reads w' - 1))" by blast+
  from * obtain naps where "slept w naps w'" by blast
  then show c: "clock w' = clock w" by (rule sleptD)
  have "ts_ns (clock w (reads w' - 1)) \<le> ts_ns (clock w (reads w'))"
    using assms(2) by (rule clock_mono) simp
  with d r c v assms show "ticking (view t') w'" by (simp add: ticking_next)
qed

text \<open>A timer that was given a frequency and started is ticking.\<close>

lemma started_ticking:
  assumes "tm_set_frequency T f t = Some (True, t1)" and "\<not> v_started (view t)"
    and "tm_start_timer T t1 w = (ok, t2, w2)" and "clock_ok (clock w)"
  shows "ok \<and> ticking (view t2) w2 \<and> on_schedule (ts_ns (clock w (reads w))) 0 (view t2) \<and>
     0 < f \<and> f \<le> TIMER_MAX_FREQUENCY \<and> unat (v_ps (view t2)) = 10 ^ 12 div unat f \<and>
     v_frequency (view t2) = f"
proof -
  have f: "0 < f" "f \<le> TIMER_MAX_FREQUENCY"
    using assms(1) set_frequency_zero set_frequency_over [of f t]
    by (auto simp: word_neq_0_conv [symmetric] linorder_not_le [symmetric])
  have v1: "view t1 = view_set_frequency f (view t)"
    using set_frequency_ok [OF f, of t] assms(1) by auto
  then have "\<not> v_started (view t1)" using assms(2) by (simp add: view_ops)
  from start_stopped [OF this, of w] assms(3)
  have v2: "ok" "view t2 = view_start (clock w (reads w)) (view t1)" "w2 = snd (clock_gettime w)"
    by (auto simp: clock_gettime_def)
  have ps: "unat (v_ps (view t2)) = 10 ^ 12 div unat f"
    using v1 v2 by (simp add: view_ops SEC_TO_PS_1 unat_div)
  have "unat f \<le> 100" "0 < unat f"
    using f by (simp_all add: TIMER_MAX_FREQUENCY_def word_le_nat_alt word_less_nat_alt)
  then have "0 < (10::nat) ^ 12 div unat f" "(10::nat) ^ 12 div unat f \<le> 10 ^ 12"
    by (simp_all add: div_greater_zero_iff)
  moreover have "ts_ns (clock w (reads w)) \<le> ts_ns (clock w (Suc (reads w)))"
    using assms(4) by (rule clock_mono) simp
  ultimately have "ticking (view t2) w2"
    using v2 ps clock_bounds(1) [OF assms(4)] clock_norm [OF assms(4)]
    unfolding ticking_def by (simp add: view_start_def clock_gettime_def)
  then show ?thesis
    using v1 v2 f ps by (auto simp: on_schedule_def view_ops)
qed

lemma sleep_ticks_schedule:
  assumes "ticking (view t) w" and "on_schedule s k (view t)" and "clock_ok (clock w)"
    and "sleep_ticks T n t w = Some (t', w')"
  shows "ticking (view t') w' \<and> on_schedule s (k + n) (view t') \<and> clock w' = clock w \<and>
     reads w \<le> reads w' \<and> v_ps (view t') = v_ps (view t) \<and> handler t' = handler t"
  using assms(4)
proof (induction n arbitrary: t' w')
  case 0
  with assms show ?case by simp
next
  case (Suc n)
  then obtain t1 w1 where 1: "sleep_ticks T n t w = Some (t1, w1)"
    and 2: "tm_sleep_to_next_tick T t1 w1 = Some (True, t', w')"
    by (auto simp: sleep_ticks_Suc_iff)
  note IH = Suc.IH [OF 1]
  have ok: "ticking (view t1) w1" "clock_ok (clock w1)" using IH assms(3) by auto
  note s = sleep_true [OF ok 2]
  have "ts_ns (v_start (view t1)) < 2 ^ 63"
    using ok(1) clock_bounds(2) [OF ok(2), of "reads w1"] by (simp add: ticking_def)
  with ok IH have "on_schedule s (Suc (k + n)) (view_next (view t1))"
    by (auto intro: on_schedule_next)
  with s IH show ?case by simp
qed

text \<open>
  The schedule against the ideal one: the deadline of tick \<open>n + 1\<close> after the start \<open>s\<close> is at
  most \<open>n + 1\<close> picoseconds before \<open>(n + 1) / f\<close> seconds and at most
  \<open>n div 2 ^ 23 + 1\<close> nanoseconds after it.
\<close>

lemma drift:
  assumes "tm_set_frequency T f t = Some (True, t1)" and "\<not> v_started (view t)"
    and "tm_start_timer T t1 w = (True, t2, w2)" and "clock_ok (clock w)"
    and "sleep_ticks T n t2 w2 = Some (t3, w3)"
  shows "10 ^ 12 * int (n + 1) \<le>
      int (unat f) * (1000 * (deadline (view t3) - ts_ns (clock w (reads w))) + int (n + 1))"
    and "int (unat f) * (1000 * (deadline (view t3) - ts_ns (clock w (reads w)))) \<le>
      10 ^ 12 * int (n + 1) + int (unat f) * (1000 * int (n div 2 ^ 23 + 1))"
proof -
  let ?s = "ts_ns (clock w (reads w))" and ?ps = "10 ^ 12 div unat f"
  note st = started_ticking [OF assms(1-4)]
  have c: "clock_ok (clock w2)"
    using start_stopped [of t1 w] start_running [of t1 w] assms(3,4)
    by (cases "v_started (view t1)") (auto simp: clock_gettime_def)
  have "ticking (view t3) w3" "on_schedule ?s n (view t3)" "unat (v_ps (view t3)) = ?ps"
    using sleep_ticks_schedule [OF _ _ c assms(5), of ?s 0] st by auto
  note b = on_schedule_deadline [OF this(1,2), unfolded this(3)]
  have "0 < unat f" using st by (simp add: word_less_nat_alt)
  from periods_from [OF this, of "n + 1"] b(1)
  show "10 ^ 12 * int (n + 1) \<le> int (unat f) * (1000 * (deadline (view t3) - ?s) + int (n + 1))" by simp
  from periods_until [OF b(2)]
  show "int (unat f) * (1000 * (deadline (view t3) - ?s)) \<le>
      10 ^ 12 * int (n + 1) + int (unat f) * (1000 * int (n div 2 ^ 23 + 1))"
    by (simp only: of_nat_mult of_nat_numeral)
qed

text \<open>The same, and what the next tick does, for a timer that runs.\<close>

lemma runs_at_ticking:
  assumes "runs_at T f t w n t' w'" and "\<not> v_started (view t)" and "clock_ok (clock w)"
  shows "ticking (view t') w' \<and> clock w' = clock w \<and>
     unat (v_ps (view t')) = 10 ^ 12 div unat f \<and> 0 < f \<and> f \<le> TIMER_MAX_FREQUENCY"
proof -
  obtain t1 t2 w2 where r: "tm_set_frequency T f t = Some (True, t1)"
    "tm_start_timer T t1 w = (True, t2, w2)" "sleep_ticks T n t2 w2 = Some (t', w')"
    using assms(1) by (auto simp: runs_at_def)
  note st = started_ticking [OF r(1) assms(2) r(2) assms(3)]
  have c: "clock w2 = clock w"
    using start_stopped [of t1 w] start_running [of t1 w] r(2)
    by (cases "v_started (view t1)") (auto simp: clock_gettime_def)
  with st have "ticking (view t2) w2" "on_schedule (ts_ns (clock w (reads w))) 0 (view t2)" "clock_ok (clock w2)"
    using assms(3) by simp_all
  from sleep_ticks_schedule [OF this r(3)] st c show ?thesis by simp
qed

lemma runs_at_drift:
  assumes "runs_at T f t w n t' w'" and "\<not> v_started (view t)" and "clock_ok (clock w)"
  shows "10 ^ 12 * int (n + 1) \<le>
      int (unat f) * (1000 * (deadline (view t') - ts_ns (clock w (reads w))) + int (n + 1)) \<and>
    int (unat f) * (1000 * (deadline (view t') - ts_ns (clock w (reads w)))) \<le>
      10 ^ 12 * int (n + 1) + int (unat f) * (1000 * int (n div 2 ^ 23 + 1))"
  using assms(1) drift [OF _ assms(2) _ assms(3)] unfolding runs_at_def by blast

text \<open>Every running timer can be made, on a clock that runs.\<close>

lemma runs_at_start:
  assumes "0 < f" and "f \<le> TIMER_MAX_FREQUENCY" and "\<not> v_started (view t)"
  obtains t' w' where "runs_at T f t w 0 t' w'" and "w' = snd (clock_gettime w)"
    and "view t' = view_start (clock w (reads w)) (view_set_frequency f (view t))"
proof -
  obtain t1 where 1: "tm_set_frequency T f t = Some (True, t1)" "view t1 = view_set_frequency f (view t)"
    using set_frequency_ok [OF assms(1,2), of t] by blast
  then have "\<not> v_started (view t1)" using assms(3) by (simp add: view_ops)
  from start_stopped [OF this, of w] obtain t2
    where 2: "tm_start_timer T t1 w = (True, t2, snd (clock_gettime w))"
      "view t2 = view_start (clock w (reads w)) (view t1)" by (auto simp: clock_gettime_def)
  with 1 have "runs_at T f t w 0 t2 (snd (clock_gettime w))" by (auto simp: runs_at_def)
  then show thesis using that 1 2 by simp
qed

lemma runs_at_next:
  assumes "runs_at T f t w n t' w'" and "tm_sleep_to_next_tick T t' w' = Some (True, t'', w'')"
  shows "runs_at T f t w (Suc n) t'' w''"
  using assms unfolding runs_at_def by (auto simp: sleep_ticks_Suc_iff)

text \<open>The first tick of a timer at 100 Hz on the concrete machine.\<close>

lemma demo_first_tick:
  assumes "\<not> v_started (view t)"
  shows "\<exists>t0 w0 t1 w1. runs_at T 100 t demo_os 0 t0 w0 \<and> tm_sleep_to_next_tick T t0 w0 = Some (True, t1, w1) \<and>
    runs_at T 100 t demo_os 1 t1 w1"
proof -
  have f: "0 < (100 :: uint_fast16)" "(100 :: uint_fast16) \<le> TIMER_MAX_FREQUENCY"
    by (simp_all add: TIMER_MAX_FREQUENCY_def)
  obtain t0 w0 where r: "runs_at T 100 t demo_os 0 t0 w0" and w0: "w0 = snd (clock_gettime demo_os)"
    and v: "view t0 = view_start (demo_clock 0) (view_set_frequency 100 (view t))"
    using runs_at_start [OF f assms, of demo_os] by auto
  have ok: "clock_ok (clock demo_os)" using clock_runs_demo by (simp add: clock_runs_def)
  have tk: "ticking (view t0) w0" using runs_at_ticking [OF r assms ok] by blast
  have c: "clock w0 = demo_clock" "reads w0 = 1" by (simp_all add: w0 clock_gettime_def)
  have ts: "ts_ns (demo_clock 0) = 0" "ts_ns (demo_clock 1) = 10 ^ 6" "ts_ns (demo_clock 2) = 2 * 10 ^ 6"
    by (simp_all add: demo_clock_def ts_ns_ns_ts min_def)
  have ps: "v_ps (view t0) = 10 ^ 10" "v_start (view t0) = demo_clock 0"
    using v by (simp_all add: view_ops SEC_TO_PS_1)
  have tg: "v_target (view t0) = 10 ^ 7 + 1"
    using v by (simp add: view_ops SEC_TO_PS_1 target_for_def to_coarser)
  have "uint (TIMESPEC_DIFF_NS (demo_clock 0) (demo_clock 1)) = 10 ^ 6"
    using uint_TIMESPEC_DIFF_NS [of "demo_clock 0" "demo_clock 1"] ts by simp
  then have nl: "\<not> late (view t0) w0"
    using ps tg c by (simp add: late_def word_less_def)
  have "ts_ns (clock w0 (Suc (reads w0))) + uint (v_target (view t0)) < 2 ^ 62"
  proof -
    have n: "Suc (reads w0) = 2" and u: "uint (v_target (view t0)) = 10 ^ 7 + 1" using tg c by simp_all
    show ?thesis unfolding c(1) n u ts(3) by simp
  qed
  with sleep_returns [OF nl tk] c clock_runs_demo obtain ok t1 w1
    where s: "tm_sleep_to_next_tick T t0 w0 = Some (ok, t1, w1)" by (auto simp: not_None_eq)
  have "ok" using sleep_cases [OF tk _ s] nl c clock_runs_demo by (simp add: clock_runs_def)
  with s r runs_at_next [OF r] show ?thesis by auto
qed

text \<open>Each call sets the error exactly when it fails, and \<^verbatim>\<open>get_error\<close> clears it.\<close>

definition handler_is :: "string option \<Rightarrow> Error \<Rightarrow> bool" where
  "handler_is p e \<longleftrightarrow> (case p of None \<Rightarrow> \<not> Error_is_error e \<and> Error_get_error e = ''''
     | Some m \<Rightarrow> Error_is_error e \<and> Error_get_error e = m)"

lemma handler_is_simps [simp]:
  "handler_is None (Error_clear_error e)" "handler_is (Some m) (Error_set_error m e)" "handler_is None (Error_ctor n)"
  by (simp_all add: handler_is_def)

lemma set_frequency_cases:
  assumes "tm_set_frequency T f t = Some (b, t')"
  shows "handler t' = (if b then handler t else Error_set_error (frequency_message f) (handler t))"
proof -
  consider "f = 0" | "0 < f" "f \<le> TIMER_MAX_FREQUENCY" | "TIMER_MAX_FREQUENCY < f"
    by (auto simp: word_neq_0_conv [symmetric] linorder_not_le [symmetric])
  then show ?thesis
    by cases (use assms set_frequency_zero set_frequency_ok [of f t] set_frequency_over [of f t] in auto)
qed

lemma timer_do_error:
  assumes "timer_do T c t w = Some (b, t', w')" and "handler_is p (handler t)"
  shows "handler_is (if c = T_Get_Error then None else if b then p else Some (failure_message c)) (handler t')"
proof (cases c)
  case T_Initialize
  with assms initialize_law [of t] show ?thesis by (auto split: prod.splits)
next
  case (T_Set_Frequency f)
  with assms obtain t1 where "tm_set_frequency T f t = Some (b, t1)" "t' = t1" by (auto simp: bind_eq_Some_conv)
  with set_frequency_cases [of f t b t1] assms(2) T_Set_Frequency show ?thesis by simp
next
  case T_Start
  with assms start_running [of t w] start_stopped [of t w] show ?thesis by (cases "v_started (view t)") auto
next
  case T_Stop
  with assms stop_law [of t] show ?thesis by simp
next
  case T_Sleep
  with assms sleep_handler [of t w b t' w'] show ?thesis by simp
next
  case T_Get_Error
  with assms get_clears [of t] show ?thesis by auto
qed

lemma timer_history_error:
  "timer_history T cs t = Some (bs, t') \<Longrightarrow> handler_is p (handler t) \<Longrightarrow>
   handler_is (pending p (zip (map fst cs) bs)) (handler t')"
proof (induction cs arbitrary: t bs p)
  case Nil
  then show ?case by simp
next
  case (Cons x cs)
  obtain c w where x: "x = (c, w)" by (cases x)
  with Cons.prems(1) obtain b t1 w1 bs' where 1: "timer_do T c t w = Some (b, t1, w1)"
    and 2: "timer_history T cs t1 = Some (bs', t')" and bs: "bs = b # bs'"
    by (auto simp: bind_eq_Some_conv)
  from Cons.IH [OF 2 timer_do_error [OF 1 Cons.prems(2)]] x bs show ?case by simp
qed

lemma failures_reported:
  assumes "handler t0 = Error_ctor n"
  shows "reports_failures T t0"
  unfolding reports_failures_def
proof (intro allI impI)
  fix cs bs t
  assume "timer_history T cs t0 = Some (bs, t)"
  from timer_history_error [OF this, of None] assms
  show "case pending None (zip (map fst cs) bs) of None \<Rightarrow> \<not> tm_is_error T t \<and> fst (tm_get_error T t) = ''''
      | Some m \<Rightarrow> tm_is_error T t \<and> fst (tm_get_error T t) = m"
    by (auto simp: handler_is_def is_err_handler get_msg split: option.splits)
qed

end

end
