(* ===== verification/Raii_Guards.thy ===== *)
theory Raii_Guards
  imports RT_Prelude
begin

text \<open>
  The scope guards \<^verbatim>\<open>MutexRAII\<close> (\<^verbatim>\<open>includes/mutex_raii.h\<close>, \<^verbatim>\<open>src/utils/mutex_raii.cpp\<close>)
  and \<^verbatim>\<open>AtomicValRAII\<close> (\<^verbatim>\<open>includes/atomic_val_raii.h\<close>). A mutex is the thread that holds it,
  if one does; an operation of a guard maps the guard and the mutex it refers to to both.
\<close>

datatype tid = MainThread | WorkerThread

lemma tid_other [simp]: "x \<noteq> WorkerThread \<longleftrightarrow> x = MainThread" "x \<noteq> MainThread \<longleftrightarrow> x = WorkerThread"
  by (cases x; simp)+

type_synonym mutex = "tid option"

definition PTHREAD_MUTEX_INITIALIZER :: mutex where
  "PTHREAD_MUTEX_INITIALIZER = None"

text \<open>\<open>None\<close>: the caller blocks (for ever, when it is the holder itself).\<close>

definition pthread_mutex_lock :: "tid \<Rightarrow> mutex \<Rightarrow> mutex option" where
  "pthread_mutex_lock me m = (if m = None then Some (Some me) else None)"

definition pthread_mutex_trylock :: "tid \<Rightarrow> mutex \<Rightarrow> int \<times> mutex" where
  "pthread_mutex_trylock me m = (if m = None then (0, Some me) else (16, m))"

definition pthread_mutex_unlock :: "mutex \<Rightarrow> mutex" where
  "pthread_mutex_unlock m = None"

record MutexRAII =
  is_locked :: bool

definition MutexRAII_ctor :: MutexRAII where
  "MutexRAII_ctor = \<lparr>is_locked = False\<rparr>"

definition MutexRAII_lock_block :: "tid \<Rightarrow> MutexRAII \<Rightarrow> mutex \<Rightarrow> (MutexRAII \<times> mutex) option" where
  "MutexRAII_lock_block me g m =
     (let g1 = g\<lparr>is_locked := True\<rparr>
      in case pthread_mutex_lock me m of None \<Rightarrow> None | Some m1 \<Rightarrow> Some (g1, m1))"

definition MutexRAII_lock_non_block :: "tid \<Rightarrow> MutexRAII \<Rightarrow> mutex \<Rightarrow> bool \<times> MutexRAII \<times> mutex" where
  "MutexRAII_lock_non_block me g m =
     (let (r, m1) = pthread_mutex_trylock me m
      in if r = 0 then (True, g\<lparr>is_locked := True\<rparr>, m1) else (False, g, m1))"

definition MutexRAII_unlock :: "MutexRAII \<Rightarrow> mutex \<Rightarrow> bool \<times> MutexRAII \<times> mutex" where
  "MutexRAII_unlock g m =
     (if \<not> is_locked g then (False, g, m)
      else (True, g\<lparr>is_locked := False\<rparr>, pthread_mutex_unlock m))"

definition MutexRAII_dtor :: "MutexRAII \<Rightarrow> mutex \<Rightarrow> MutexRAII \<times> mutex" where
  "MutexRAII_dtor g m = snd (MutexRAII_unlock g m)"

lemmas MutexRAII_ops = MutexRAII_ctor_def MutexRAII_lock_block_def MutexRAII_lock_non_block_def
  MutexRAII_unlock_def MutexRAII_dtor_def pthread_mutex_lock_def pthread_mutex_trylock_def
  pthread_mutex_unlock_def

text \<open>
  The guard of thread \<open>me\<close> agrees with the mutex: it says locked exactly when \<open>me\<close> holds it.
\<close>

definition guard_ok :: "tid \<Rightarrow> MutexRAII \<Rightarrow> mutex \<Rightarrow> bool" where
  [spec_defs]: "guard_ok me g m \<longleftrightarrow> (is_locked g \<longleftrightarrow> m = Some me)"

datatype guard_op = LockBlock | LockNonBlock | Unlock

text \<open>
  A history of calls on one guard by its thread, from construction; \<open>others\<close> is what the other
  threads do to the mutex before the call (they may take it when free and release their own).
\<close>

fun guard_call :: "tid \<Rightarrow> guard_op \<Rightarrow> MutexRAII \<times> mutex \<Rightarrow> (MutexRAII \<times> mutex) option" where
  "guard_call me LockBlock (g, m) = MutexRAII_lock_block me g m"
| "guard_call me LockNonBlock (g, m) = Some (snd (MutexRAII_lock_non_block me g m))"
| "guard_call me Unlock (g, m) = Some (snd (MutexRAII_unlock g m))"

fun guard_history :: "tid \<Rightarrow> (mutex \<times> guard_op) list \<Rightarrow> MutexRAII \<times> mutex \<Rightarrow> (MutexRAII \<times> mutex) option" where
  "guard_history me [] gm = Some gm"
| "guard_history me ((m', c) # cs) (g, m) =
     do { gm \<leftarrow> guard_call me c (g, if m = Some me \<or> m' = Some me then m else m');
          guard_history me cs gm }"

lemma guard_call_ok:
  assumes "guard_ok me g m" and "guard_call me c (g, m) = Some (g', m')"
  shows "guard_ok me g' m'"
  using assms by (cases c) (auto simp: guard_ok_def MutexRAII_ops Let_def split: if_splits)

lemma guard_history_ok:
  "guard_ok me g m \<Longrightarrow> guard_history me cs (g, m) = Some (g', m') \<Longrightarrow> guard_ok me g' m'"
proof (induction cs arbitrary: g m)
  case Nil
  then show ?case by simp
next
  case (Cons mc cs)
  obtain m1 c where mc: "mc = (m1, c)" by (cases mc)
  let ?m = "if m = Some me \<or> m1 = Some me then m else m1"
  have ok: "guard_ok me g ?m" using Cons.prems(1) by (auto simp: guard_ok_def)
  from Cons.prems(2) mc obtain g2 m2 where 1: "guard_call me c (g, ?m) = Some (g2, m2)"
    and 2: "guard_history me cs (g2, m2) = Some (g', m')" by (auto simp: bind_eq_Some_conv)
  from guard_call_ok [OF ok 1] 2 show ?case by (rule Cons.IH)
qed

lemma guard_dtor_releases:
  assumes "guard_ok me g m"
  shows "snd (MutexRAII_dtor g m) \<noteq> Some me"
    and "m \<noteq> Some me \<Longrightarrow> snd (MutexRAII_dtor g m) = m"
    and "MutexRAII_dtor (fst (MutexRAII_dtor g m)) (snd (MutexRAII_dtor g m)) = MutexRAII_dtor g m"
  using assms by (auto simp: guard_ok_def MutexRAII_ops)

section \<open>A guard for an atomic value\<close>

record 'a AtomicValRAII =
  end_value :: 'a

definition AtomicValRAII_ctor :: "'a \<Rightarrow> 'a AtomicValRAII" where
  "AtomicValRAII_ctor v = \<lparr>end_value = v\<rparr>"

text \<open>The destructor: the value the guarded atomic variable has afterwards.\<close>

definition AtomicValRAII_dtor :: "'a AtomicValRAII \<Rightarrow> 'a" where
  "AtomicValRAII_dtor g = end_value g"

lemma AtomicValRAII_end [simp]: "AtomicValRAII_dtor (AtomicValRAII_ctor v) = v"
  by (simp add: AtomicValRAII_ctor_def AtomicValRAII_dtor_def)

end
