(* ===== verification/Sender_Interface.thy ===== *)
theory Sender_Interface
  imports Os_Model Raii_Guards Error_Handler
begin

text \<open>
  What the senders share: the record \<^verbatim>\<open>SenderWorkerData\<close> of the data exchanged between the main
  thread and the worker thread (\<^verbatim>\<open>includes/data_packets.h\<close>), the abstract class \<^verbatim>\<open>Sender\<close>
  (\<^verbatim>\<open>includes/sender.h\<close>) as a record of its virtual methods, and the system calls that move data.
\<close>

section \<open>Shared data\<close>

text \<open>
  \<open>packets_cond\<close> says that a thread is blocked on the condition variable.
\<close>

record SenderWorkerData =
  packets_list :: "ptr option"
  is_done :: bool
  is_error :: bool
  sock_fd :: int
  terminate_thread :: bool
  thread_initialized :: bool
  is_terminated_thread :: bool
  error_code :: uint_fast8
  packets_mutex :: mutex
  packets_cond :: bool

definition PTHREAD_COND_INITIALIZER :: bool where
  "PTHREAD_COND_INITIALIZER = False"

definition SenderWorkerData_default :: SenderWorkerData where
  "SenderWorkerData_default =
     \<lparr>packets_list = None, is_done = True, is_error = False, sock_fd = -1,
      terminate_thread = False, thread_initialized = False, is_terminated_thread = True,
      error_code = 0, packets_mutex = PTHREAD_MUTEX_INITIALIZER,
      packets_cond = PTHREAD_COND_INITIALIZER\<rparr>"

text \<open>
  \<^verbatim>\<open>pthread_cond_wait\<close> releases the mutex and queues the thread in one step;
  \<^verbatim>\<open>pthread_cond_signal\<close> takes the queued thread, if there is one, out of the queue.
\<close>

definition cond_wait_enter :: "SenderWorkerData \<Rightarrow> SenderWorkerData" where
  "cond_wait_enter d = d\<lparr>packets_mutex := None, packets_cond := True\<rparr>"

definition pthread_cond_signal :: "SenderWorkerData \<Rightarrow> SenderWorkerData" where
  "pthread_cond_signal d = d\<lparr>packets_cond := False\<rparr>"

section \<open>The abstract class\<close>

record 's Sender =
  sn_initialize :: "'s \<Rightarrow> os \<Rightarrow> (bool \<times> 's \<times> os) option"
  sn_send :: "ptr \<Rightarrow> 's \<Rightarrow> os \<Rightarrow> (bool \<times> 's \<times> os) option"
  sn_is_send_done :: "'s \<Rightarrow> os \<Rightarrow> bool \<times> 's \<times> os"
  sn_end_sender :: "'s \<Rightarrow> os \<Rightarrow> (bool \<times> 's \<times> os) option"
  sn_get_error :: "'s \<Rightarrow> string \<times> 's"
  sn_is_error :: "'s \<Rightarrow> bool"

section \<open>Moving data\<close>

text \<open>
  \<^verbatim>\<open>send\<close> answers -1 or a number of bytes, at most the length asked for and the limit Linux
  puts on one transfer; that many bytes of the buffer are on the wire then. The answer of the
  oracle is clipped to this documented range.
\<close>

definition MAX_RW_COUNT :: int where
  "MAX_RW_COUNT = 0x7ffff000"

definition mem_bytes :: "os \<Rightarrow> ptr \<Rightarrow> nat \<Rightarrow> byte list" where
  "mem_bytes w p n = map (\<lambda>i. memory w (p + of_nat i)) [0..<n]"

definition send_call :: "int \<Rightarrow> ptr \<Rightarrow> uint_fast64 \<Rightarrow> bool \<Rightarrow> os \<Rightarrow> int \<times> os" where
  "send_call fd buf len zerocopy w =
     (let (a, w1) = syscall (SendCall fd buf len zerocopy) w;
          s = (if a < 0 then -1 else min a (min (uint len) MAX_RW_COUNT))
      in (s, w1\<lparr>wire := wire w1 @ mem_bytes w1 buf (nat s)\<rparr>))"

text \<open>
  \<^verbatim>\<open>sendfile\<close> reads from \<open>offset\<close> and moves it; it answers 0 at the end of the file, and a
  negative offset is refused.
\<close>

definition file_slice :: "os \<Rightarrow> int \<Rightarrow> int \<Rightarrow> nat \<Rightarrow> byte list" where
  "file_slice w fd off n = take n (drop (nat off) (file_bytes w fd))"

definition sendfile_call :: "int \<Rightarrow> int \<Rightarrow> int \<Rightarrow> uint_fast64 \<Rightarrow> os \<Rightarrow> int \<times> int \<times> os" where
  "sendfile_call out_fd in_fd offset count w =
     (let (a, w1) = syscall (SendfileCall out_fd in_fd offset count) w;
          available = max 0 (int (length (file_bytes w1 in_fd)) - offset);
          s = (if a < 0 \<or> offset < 0 then -1 else min a (min (min (uint count) MAX_RW_COUNT) available))
      in (s, if s < 0 then offset else offset + s,
          w1\<lparr>wire := wire w1 @ file_slice w1 in_fd offset (nat s)\<rparr>))"

lemma send_call_eq:
  "send_call fd buf len zc w =
     (let a = answer w (length (log w)); s = (if a < 0 then -1 else min a (min (uint len) MAX_RW_COUNT))
      in (s, w\<lparr>log := log w @ [SendCall fd buf len zc], wire := wire w @ mem_bytes w buf (nat s)\<rparr>))"
  by (simp only: send_call_def syscall_def mem_bytes_def Let_def prod.case os_log_simps)

lemma send_call_range:
  assumes "send_call fd buf len zc w = (s, w')" and "0 \<le> s"
  shows "s \<le> uint len" and "wire w' = wire w @ mem_bytes w buf (nat s)"
    and "w' = w\<lparr>log := log w', wire := wire w'\<rparr>"
proof -
  let ?a = "answer w (length (log w))"
  have s: "s = (if ?a < 0 then -1 else min ?a (min (uint len) MAX_RW_COUNT))"
    and w: "w' = w\<lparr>log := log w @ [SendCall fd buf len zc], wire := wire w @ mem_bytes w buf (nat s)\<rparr>"
    using arg_cong [OF assms(1), of fst] arg_cong [OF assms(1), of snd]
    by (simp_all only: send_call_eq Let_def fst_conv snd_conv)
  show "s \<le> uint len" using s assms(2) by (cases "?a < 0") simp_all
  show "wire w' = wire w @ mem_bytes w buf (nat s)" "w' = w\<lparr>log := log w', wire := wire w'\<rparr>"
    unfolding w by simp_all
qed

lemma send_call_fail: "send_call fd buf len zc w = (s, w') \<Longrightarrow> s < 0 \<Longrightarrow> wire w' = wire w"
  by (auto simp: send_call_eq Let_def mem_bytes_def)

lemma sendfile_call_eq:
  "sendfile_call out fd off n w =
     (let a = answer w (length (log w));
          s = (if a < 0 \<or> off < 0 then -1
               else min a (min (min (uint n) MAX_RW_COUNT) (max 0 (int (length (file_bytes w fd)) - off))))
      in (s, if s < 0 then off else off + s,
          w\<lparr>log := log w @ [SendfileCall out fd off n], wire := wire w @ file_slice w fd off (nat s)\<rparr>))"
  by (simp only: sendfile_call_def syscall_def file_slice_def Let_def prod.case os_log_simps)

lemma sendfile_call_range:
  assumes "sendfile_call out fd off n w = (s, off', w')" and "0 \<le> s"
  shows "s \<le> uint n" and "off' = off + s" and "0 \<le> off"
    and "s = 0 \<or> off + s \<le> int (length (file_bytes w fd))"
    and "wire w' = wire w @ file_slice w fd off (nat s)"
    and "w' = w\<lparr>log := log w', wire := wire w'\<rparr>"
proof -
  let ?a = "answer w (length (log w))" and ?av = "max 0 (int (length (file_bytes w fd)) - off)"
  have s: "s = (if ?a < 0 \<or> off < 0 then -1 else min ?a (min (min (uint n) MAX_RW_COUNT) ?av))"
    and o: "off' = (if s < 0 then off else off + s)"
    and w: "w' = w\<lparr>log := log w @ [SendfileCall out fd off n], wire := wire w @ file_slice w fd off (nat s)\<rparr>"
    using arg_cong [OF assms(1), of fst] arg_cong [OF assms(1), of "\<lambda>r. fst (snd r)"]
      arg_cong [OF assms(1), of "\<lambda>r. snd (snd r)"]
    by (simp_all only: sendfile_call_eq Let_def fst_conv snd_conv)
  have c: "\<not> (?a < 0 \<or> off < 0)" using s assms(2) by (cases "?a < 0 \<or> off < 0") simp_all
  then show "0 \<le> off" by simp
  have "s = min ?a (min (min (uint n) MAX_RW_COUNT) ?av)" using s unfolding if_not_P [OF c] .
  then have le: "s \<le> uint n" "s \<le> ?av" by (simp_all add: min_le_iff_disj)
  then show "s \<le> uint n" "s = 0 \<or> off + s \<le> int (length (file_bytes w fd))"
    using assms(2) by (simp_all add: max_def split: if_splits)
  show "off' = off + s" using o assms(2) by simp
  show "wire w' = wire w @ file_slice w fd off (nat s)" "w' = w\<lparr>log := log w', wire := wire w'\<rparr>"
    unfolding w by simp_all
qed

lemma sendfile_call_fail: "sendfile_call out fd off n w = (s, off', w') \<Longrightarrow> s < 0 \<Longrightarrow> wire w' = wire w"
  by (auto simp: sendfile_call_eq Let_def file_slice_def)

end
