(* ===== verification/Sender_Worker.thy ===== *)
theory Sender_Worker
  imports Sender_Interface "HOL-Library.Sublist"
begin

text \<open>
  What the worker threads of the two senders have in common: \<^verbatim>\<open>tcp_worker_function\<close> of
  \<^verbatim>\<open>src/senders/tcp_sender.cpp\<close> and its copy in \<^verbatim>\<open>tcp_sender_zc.cpp\<close> are the same text
  but for the flag of \<^verbatim>\<open>send\<close> and the wait for the zero-copy notifications. A program counter
  names each place where the thread touches shared data or calls the kernel; one step runs from
  one such place to the next, so every interleaving with the main thread is a choice of when the
  steps happen. The invariants of a thread and the contract \<open>worker_thread\<close> that both threads
  keep are stated here.
\<close>

section \<open>State\<close>

text \<open>
  The places, in the order of the function; \<open>'e\<close> are the error codes of the sender. The three
  \<open>W_Zc\<close> places belong to the zero-copy worker only. \<open>W_Exit\<close> and the places after it are the
  macro \<^verbatim>\<open>END_THREAD_ERROR\<close>; at \<open>W_Unwind\<close> \<^verbatim>\<open>pthread_exit\<close> unwinds the stack, which runs the
  destructors of both guards a second time.
\<close>

datatype 'e wpc =
    W_Alive
  | W_Initialized
  | W_Affinity
  | W_Timeout
  | W_SndBuf
  | W_RcvBuf
  | W_Loop
  | W_Lock
  | W_Check
  | W_CheckTerm
  | W_Wait
  | W_Blocked
  | W_Relock
  | W_Copy
  | W_Unlock
  | W_Packets
  | W_Send
  | W_SendTerm int
  | W_Sendfile
  | W_SendfileTerm int
  | W_ZcLoop
  | W_ZcPoll
  | W_ZcRecv
  | W_Done
  | W_Exit bool 'e
  | W_ExitCode 'e
  | W_ExitUnlock
  | W_ExitFlag
  | W_Unwind
  | W_Exited

text \<open>
  The locals of the thread: the guards \<^verbatim>\<open>prot_lock\<close> and \<^verbatim>\<open>prot_term_flag\<close>, the copied list
  with the index of the current packet, and the progress within the packet.
\<close>

record 'e Worker =
  w_pc :: "'e wpc"
  w_prot_lock :: MutexRAII
  w_prot_term_flag :: "bool AtomicValRAII"
  w_data :: "DataPacket list"
  w_i :: nat
  w_data_sent :: uint_fast32
  w_remaining :: uint_fast32
  w_offset :: int

type_synonym ('e, 'm) wstate = "SenderWorkerData \<times> ('e, 'm) Worker_scheme \<times> os"

abbreviation goto :: "'e wpc \<Rightarrow> ('e, 'm) Worker_scheme \<Rightarrow> ('e, 'm) Worker_scheme" where
  "goto p t \<equiv> t\<lparr>w_pc := p\<rparr>"

section \<open>The steps\<close>

text \<open>
  A set-up call of the worker: on failure the thread ends with the given error, otherwise it goes
  on. \<^verbatim>\<open>pthread_setaffinity_np\<close> fails with any answer but 0, \<^verbatim>\<open>setsockopt\<close> with a negative one.
\<close>

definition setup_step :: "event \<Rightarrow> (int \<Rightarrow> bool) \<Rightarrow> 'e \<Rightarrow> 'e wpc \<Rightarrow> ('e, 'm) wstate \<Rightarrow> ('e, 'm) wstate" where
  "setup_step e failed err next_pc = (\<lambda>(d, t, w).
     let (r, w1) = syscall e w in
     if failed r then (d, goto (W_Exit True err) t, w1) else (d, goto next_pc t, w1))"

text \<open>Taking the mutex: the thread stays where it is until the mutex is free.\<close>

definition lock_step :: "'e wpc \<Rightarrow> ('e, 'm) wstate \<Rightarrow> ('e, 'm) wstate" where
  "lock_step next_pc = (\<lambda>(d, t, w).
     case MutexRAII_lock_block WorkerThread (w_prot_lock t) (packets_mutex d) of
       None \<Rightarrow> (d, t, w)
     | Some (g, m) \<Rightarrow> (d\<lparr>packets_mutex := m\<rparr>, goto next_pc (t\<lparr>w_prot_lock := g\<rparr>), w))"

text \<open>
  The head of the loop over the packets: the loop ends and the thread goes on at \<open>end_pc\<close>, or
  the packet's type decides.
\<close>

definition packets_step ::
  "'e \<Rightarrow> 'e wpc \<Rightarrow> ('e, 'm) Worker_scheme \<Rightarrow> ('e, 'm) Worker_scheme" where
  "packets_step not_supported end_pc t =
     (if w_i t < length (w_data t) then
        (let current_packet = w_data t ! w_i t in
         case data_ptr_type current_packet of
           DATA_PTR_MEMORY_LOCATION \<Rightarrow>
             goto W_Send (t\<lparr>w_data_sent := data_offset current_packet,
                            w_remaining := data_size current_packet\<rparr>)
         | DATA_PTR_FILE_DESCRIPTOR \<Rightarrow>
             goto W_Sendfile (t\<lparr>w_remaining := data_size current_packet,
                                w_offset := sint (data_offset current_packet)\<rparr>)
         | DATA_PTR_OTHER _ \<Rightarrow> goto (W_Exit True not_supported) t)
      else goto end_pc t)"

text \<open>
  One round of the loop that sends a packet from memory, up to the check of the answer;
  \<open>zerocopy\<close> is the flag \<^verbatim>\<open>MSG_ZEROCOPY\<close>.
\<close>

definition send_step :: "bool \<Rightarrow> 'e \<Rightarrow> ('e, 'm) wstate \<Rightarrow> ('e, 'm) wstate" where
  "send_step zerocopy sending_error = (\<lambda>(d, t, w).
     if w_remaining t \<noteq> 0 then
       (let (s, w1) = send_call (sock_fd d) (data_ptr (w_data t ! w_i t) + w_data_sent t)
                        (w_remaining t) zerocopy w
        in if s < 0 then (d, goto (W_Exit True sending_error) t, w1)
           else (d, goto (W_SendTerm s) t, w1))
     else (d, goto W_Packets (t\<lparr>w_i := Suc (w_i t)\<rparr>), w))"

definition sendfile_step :: "'e \<Rightarrow> ('e, 'm) wstate \<Rightarrow> ('e, 'm) wstate" where
  "sendfile_step sending_error = (\<lambda>(d, t, w).
     if w_remaining t \<noteq> 0 then
       (let (s, offset, w1) = sendfile_call (sock_fd d) (int_at w (data_ptr (w_data t ! w_i t)))
                                (w_offset t) (w_remaining t) w
        in if s < 0 then (d, goto (W_Exit True sending_error) (t\<lparr>w_offset := offset\<rparr>), w1)
           else (d, goto (W_SendfileTerm s) (t\<lparr>w_offset := offset\<rparr>), w1))
     else (d, goto W_Packets (t\<lparr>w_i := Suc (w_i t)\<rparr>), w))"

section \<open>Classes of places\<close>

text \<open>Between taking and releasing the mutex, and between taking a list and reporting it done.\<close>

fun critical :: "'e wpc \<Rightarrow> bool" where
  "critical W_Check = True"
| "critical W_CheckTerm = True"
| "critical W_Wait = True"
| "critical W_Copy = True"
| "critical W_Unlock = True"
| "critical _ = False"

fun blocked :: "'e wpc \<Rightarrow> bool" where
  "blocked W_Blocked = True"
| "blocked W_Relock = True"
| "blocked _ = False"

fun exiting :: "'e wpc \<Rightarrow> bool" where
  "exiting (W_Exit _ _) = True"
| "exiting (W_ExitCode _) = True"
| "exiting W_ExitUnlock = True"
| "exiting _ = False"

fun dead :: "'e wpc \<Rightarrow> bool" where
  "dead W_ExitFlag = True"
| "dead W_Unwind = True"
| "dead W_Exited = True"
| "dead _ = False"

fun sending :: "'e wpc \<Rightarrow> bool" where
  "sending W_Unlock = True"
| "sending W_Packets = True"
| "sending W_Send = True"
| "sending (W_SendTerm _) = True"
| "sending W_Sendfile = True"
| "sending (W_SendfileTerm _) = True"
| "sending _ = False"

fun all_sent :: "'e wpc \<Rightarrow> bool" where
  "all_sent W_ZcLoop = True"
| "all_sent W_ZcPoll = True"
| "all_sent W_ZcRecv = True"
| "all_sent W_Done = True"
| "all_sent _ = False"

definition busy :: "'e wpc \<Rightarrow> bool" where
  "busy p \<longleftrightarrow> p = W_Copy \<or> sending p \<or> all_sent p"

section \<open>Invariants\<close>

text \<open>
  The mutex: held by the worker in its critical section, and the guard knows it, except that a
  thread waiting on the condition variable has a guard that says locked while the mutex is free.
\<close>

definition lock_inv :: "SenderWorkerData \<Rightarrow> ('e, 'm) Worker_scheme \<Rightarrow> bool" where
  [spec_defs]: "lock_inv d t \<longleftrightarrow>
     (is_locked (w_prot_lock t) \<longleftrightarrow> packets_mutex d = Some WorkerThread \<or> blocked (w_pc t)) \<and>
     (critical (w_pc t) \<longrightarrow> packets_mutex d = Some WorkerThread) \<and>
     (packets_mutex d = Some WorkerThread \<longrightarrow> critical (w_pc t) \<or> exiting (w_pc t)) \<and>
     (packets_cond d \<longrightarrow> w_pc t = W_Blocked)"

text \<open>The life-cycle flags say where the thread is.\<close>

definition life_inv :: "SenderWorkerData \<Rightarrow> ('e, 'm) Worker_scheme \<Rightarrow> bool" where
  [spec_defs]: "life_inv d t \<longleftrightarrow>
     end_value (w_prot_term_flag t) \<and>
     (is_terminated_thread d \<longleftrightarrow> w_pc t = W_Alive \<or> w_pc t = W_Unwind \<or> w_pc t = W_Exited) \<and>
     (thread_initialized d \<longleftrightarrow> w_pc t \<noteq> W_Alive \<and> w_pc t \<noteq> W_Initialized)"

text \<open>Inside the copied list and inside the current packet.\<close>

definition packet_inv :: "SenderWorkerData \<Rightarrow> ('e, 'm) Worker_scheme \<Rightarrow> bool" where
  [spec_defs]: "packet_inv d t \<longleftrightarrow>
     (w_pc t = W_Copy \<longrightarrow> packets_list d \<noteq> None) \<and>
     (case w_pc t of
        W_Send \<Rightarrow> w_i t < length (w_data t)
      | W_SendTerm s \<Rightarrow> w_i t < length (w_data t) \<and> 0 \<le> s \<and> s \<le> uint (w_remaining t)
      | W_Sendfile \<Rightarrow> w_i t < length (w_data t)
      | W_SendfileTerm s \<Rightarrow> w_i t < length (w_data t) \<and> 0 \<le> s \<and> s \<le> uint (w_remaining t)
      | _ \<Rightarrow> True)"

text \<open>
  The hand-over: while the thread works on a list none is waiting, and when the flag says done no
  list is waiting and the thread works on none.
\<close>

definition handover_inv :: "SenderWorkerData \<Rightarrow> ('e, 'm) Worker_scheme \<Rightarrow> bool" where
  [spec_defs]: "handover_inv d t \<longleftrightarrow>
     (is_done d \<longrightarrow> packets_list d = None \<and> \<not> busy (w_pc t)) \<and>
     (sending (w_pc t) \<or> all_sent (w_pc t) \<longrightarrow> packets_list d = None)"

text \<open>
  The way a thread ended: the two arguments of \<^verbatim>\<open>END_THREAD_ERROR\<close> agree, and when the thread
  has written them the flag says whether the code is one of an error.
\<close>

definition exit_inv ::
  "('e \<Rightarrow> uint_fast8) \<Rightarrow> 'e \<Rightarrow> SenderWorkerData \<Rightarrow> ('e, 'm) Worker_scheme \<Rightarrow> bool" where
  [spec_defs]: "exit_inv code no_error d t \<longleftrightarrow>
     (case w_pc t of
        W_Exit flag c \<Rightarrow> (flag \<longleftrightarrow> c \<noteq> no_error)
      | W_ExitCode c \<Rightarrow> (is_error d \<longleftrightarrow> c \<noteq> no_error)
      | p \<Rightarrow> (p = W_ExitUnlock \<or> dead p \<longrightarrow>
               (if is_error d then error_code d \<in> code ` (- {no_error})
                else error_code d = code no_error)))"

definition worker_inv :: "SenderWorkerData \<Rightarrow> ('e, 'm) Worker_scheme \<Rightarrow> bool" where
  [spec_defs]: "worker_inv d t \<longleftrightarrow> lock_inv d t \<and> life_inv d t \<and> packet_inv d t"

text \<open>
  The way out: once the termination flag is set and the queue is emptied and signalled, the
  thread cannot wait again.
\<close>

definition ending :: "SenderWorkerData \<Rightarrow> ('e, 'm) Worker_scheme \<Rightarrow> bool" where
  [spec_defs]: "ending d t \<longleftrightarrow>
     terminate_thread d \<and> packets_list d = None \<and> \<not> packets_cond d \<and>
     packets_mutex d \<noteq> Some MainThread \<and> w_pc t \<noteq> W_Wait"

text \<open>
  How many steps a thread that was told to end has left at most: \<open>n\<close> is the number of zero-copy
  notifications it still waits for (none, for the plain worker), \<open>k\<close> the number of packets left; a
  list that waits to be copied counts with its packets.
\<close>

fun steps_left :: "nat \<Rightarrow> nat \<Rightarrow> 'e wpc \<Rightarrow> nat" where
  "steps_left n k W_Alive = 12"
| "steps_left n k W_Initialized = 11"
| "steps_left n k W_Affinity = 10"
| "steps_left n k W_Timeout = 9"
| "steps_left n k W_SndBuf = 8"
| "steps_left n k W_RcvBuf = 7"
| "steps_left n k W_Loop = 6"
| "steps_left n k W_Lock = 8"
| "steps_left n k W_Check = 7"
| "steps_left n k W_CheckTerm = 6"
| "steps_left n k W_Wait = 10"
| "steps_left n k W_Blocked = 9"
| "steps_left n k W_Relock = 8"
| "steps_left n k W_Copy = 6"
| "steps_left n k W_Unlock = 11 + 3 * n + 3 * k"
| "steps_left n k W_Packets = 10 + 3 * n + 3 * k"
| "steps_left n k W_Send = 9 + 3 * n + 3 * k"
| "steps_left n k (W_SendTerm _) = 6"
| "steps_left n k W_Sendfile = 9 + 3 * n + 3 * k"
| "steps_left n k (W_SendfileTerm _) = 6"
| "steps_left n k W_ZcLoop = 9 + 3 * n"
| "steps_left n k W_ZcPoll = 8 + 3 * n"
| "steps_left n k W_ZcRecv = 7 + 3 * n"
| "steps_left n k W_Done = 7"
| "steps_left n k (W_Exit _ _) = 5"
| "steps_left n k (W_ExitCode _) = 4"
| "steps_left n k W_ExitUnlock = 3"
| "steps_left n k W_ExitFlag = 2"
| "steps_left n k W_Unwind = 1"
| "steps_left n k W_Exited = 0"

definition worker_rank :: "nat \<Rightarrow> SenderWorkerData \<Rightarrow> ('e, 'm) Worker_scheme \<Rightarrow> os \<Rightarrow> nat" where
  "worker_rank n d t w =
     (case packets_list d of None \<Rightarrow> 0 | Some a \<Rightarrow> 6 + 3 * n + 3 * length (lists w a)) +
     steps_left n (if w_pc t = W_Unlock then length (w_data t) else length (w_data t) - w_i t) (w_pc t)"

section \<open>The bytes of a packet\<close>

definition packet_bytes :: "os \<Rightarrow> DataPacket \<Rightarrow> byte list" where
  [spec_defs]: "packet_bytes w p =
     (case data_ptr_type p of
        DATA_PTR_MEMORY_LOCATION \<Rightarrow> mem_bytes w (data_ptr p + data_offset p) (unat (data_size p))
      | DATA_PTR_FILE_DESCRIPTOR \<Rightarrow>
          file_slice w (int_at w (data_ptr p)) (sint (data_offset p)) (unat (data_size p))
      | DATA_PTR_OTHER _ \<Rightarrow> [])"

definition payload :: "os \<Rightarrow> DataPacket list \<Rightarrow> byte list" where
  [spec_defs]: "payload w ps = concat (map (packet_bytes w) ps)"

text \<open>
  How much of the list \<open>ps\<close> is on the wire after \<open>base\<close>, at each place of the thread.
  \<open>n\<close> bytes of the current packet are out when \<open>w_remaining\<close> is \<open>n\<close> below the packet's size.
\<close>

definition sent_of :: "DataPacket \<Rightarrow> uint_fast32 \<Rightarrow> nat" where
  "sent_of p remaining = unat (data_size p) - unat remaining"

definition mem_progress :: "os \<Rightarrow> DataPacket \<Rightarrow> ('e, 'm) Worker_scheme \<Rightarrow> int \<Rightarrow> byte list option" where
  "mem_progress w p t s =
     (let n = sent_of p (w_remaining t) in
      if data_ptr_type p = DATA_PTR_MEMORY_LOCATION \<and> w_remaining t \<le> data_size p \<and>
         w_data_sent t = data_offset p + of_nat n
      then Some (mem_bytes w (data_ptr p + data_offset p) (n + nat s)) else None)"

definition file_progress :: "os \<Rightarrow> DataPacket \<Rightarrow> ('e, 'm) Worker_scheme \<Rightarrow> int \<Rightarrow> byte list option" where
  "file_progress w p t s =
     (let n = sent_of p (w_remaining t); f = int_at w (data_ptr p) in
      if data_ptr_type p = DATA_PTR_FILE_DESCRIPTOR \<and> w_remaining t \<le> data_size p \<and>
         w_offset t = sint (data_offset p) + int n + s \<and>
         (n + nat s = 0 \<or> 0 \<le> sint (data_offset p) \<and> w_offset t \<le> int (length (file_bytes w f)))
      then Some (file_slice w f (sint (data_offset p)) (n + nat s)) else None)"

definition on_wire ::
  "byte list \<Rightarrow> DataPacket list \<Rightarrow> ('e, 'm) Worker_scheme \<Rightarrow> os \<Rightarrow> bool" where
  "on_wire base ps t w \<longleftrightarrow>
     w_data t = ps \<and>
     (let p = w_data t ! w_i t; before = base @ payload w (take (w_i t) ps) in
      case w_pc t of
        W_Unlock \<Rightarrow> wire w = base
      | W_Packets \<Rightarrow> w_i t \<le> length ps \<and> wire w = before
      | W_Send \<Rightarrow> map_option ((@) before) (mem_progress w p t 0) = Some (wire w)
      | W_SendTerm s \<Rightarrow> map_option ((@) before) (mem_progress w p t s) = Some (wire w)
      | W_Sendfile \<Rightarrow> map_option ((@) before) (file_progress w p t 0) = Some (wire w)
      | W_SendfileTerm s \<Rightarrow> map_option ((@) before) (file_progress w p t s) = Some (wire w)
      | _ \<Rightarrow> wire w = base @ payload w ps)"

text \<open>
  The fate of an accepted list \<open>ps\<close> whose object stands at \<open>a\<close>: waiting, on its way, delivered
  and not yet reported, delivered and reported, or given up by a thread that ends; in the last case a
  part of it, from its beginning, is on the wire.
\<close>

definition partly :: "byte list \<Rightarrow> DataPacket list \<Rightarrow> os \<Rightarrow> bool" where
  [spec_defs]: "partly base ps w \<longleftrightarrow> prefix base (wire w) \<and> prefix (wire w) (base @ payload w ps)"

definition delivery ::
  "byte list \<Rightarrow> DataPacket list \<Rightarrow> ptr \<Rightarrow> SenderWorkerData \<Rightarrow> ('e, 'm) Worker_scheme \<Rightarrow> os \<Rightarrow> bool" where
  [spec_defs]: "delivery base ps a d t w \<longleftrightarrow>
     (if is_done d then packets_list d = None \<and> \<not> busy (w_pc t) \<and> wire w = base @ payload w ps
      else if sending (w_pc t) \<or> all_sent (w_pc t) then packets_list d = None \<and> on_wire base ps t w
      else if exiting (w_pc t) \<or> dead (w_pc t) then partly base ps w
      else packets_list d = Some a \<and> lists w a = ps \<and> wire w = base)"


section \<open>Facts about the bytes\<close>

lemma mem_bytes_simps [simp]: "mem_bytes w p 0 = []" "length (mem_bytes w p n) = n"
  by (simp_all add: mem_bytes_def)

lemma mem_bytes_add: "mem_bytes w p (n + m) = mem_bytes w p n @ mem_bytes w (p + of_nat n) m"
proof -
  have "[0..<n + m] = [0..<n] @ map (\<lambda>i. i + n) [0..<m]"
    by (simp only: map_add_upt upt_add_eq_append [of 0 n m, OF le0] add.commute [of m n])
  then show ?thesis by (simp add: mem_bytes_def comp_def algebra_simps)
qed

lemma file_slice_simps [simp]: "file_slice w f off 0 = []"
  by (simp add: file_slice_def)

lemma file_slice_add:
  assumes "0 \<le> off"
  shows "file_slice w f off (n + m) = file_slice w f off n @ file_slice w f (off + int n) m"
proof -
  have "nat (off + int n) = n + nat off" using assms by simp
  then show ?thesis by (simp only: file_slice_def take_add drop_drop)
qed

lemma bytes_frame:
  assumes "w' = w\<lparr>log := l, wire := x\<rparr> \<or> w' = w\<lparr>log := l, wire := x, waits := n\<rparr>"
  shows "mem_bytes w' = mem_bytes w" "file_slice w' = file_slice w" "int_at w' = int_at w"
    "file_bytes w' = file_bytes w" "packet_bytes w' = packet_bytes w" "payload w' = payload w"
    "lists w' = lists w"
proof -
  have 0: "memory w' = memory w" "int_at w' = int_at w" "file_bytes w' = file_bytes w" "lists w' = lists w"
    using assms by (elim disjE; simp)+
  then show 1: "mem_bytes w' = mem_bytes w" "file_slice w' = file_slice w" "int_at w' = int_at w"
    "file_bytes w' = file_bytes w" "lists w' = lists w"
    by (simp_all add: mem_bytes_def file_slice_def fun_eq_iff)
  show 2: "packet_bytes w' = packet_bytes w" by (rule ext) (simp only: packet_bytes_def 1)
  show "payload w' = payload w" by (rule ext) (simp only: payload_def 2)
qed

lemma payload_frame [simp]:
  "payload (w\<lparr>log := l\<rparr>) = payload w" "payload (w\<lparr>waits := n\<rparr>) = payload w"
proof -
  have "w\<lparr>log := l\<rparr> = w\<lparr>log := l, wire := wire w\<rparr>" "w\<lparr>waits := n\<rparr> = w\<lparr>log := log w, wire := wire w, waits := n\<rparr>"
    by simp_all
  then show "payload (w\<lparr>log := l\<rparr>) = payload w" "payload (w\<lparr>waits := n\<rparr>) = payload w"
    by (blast intro: bytes_frame(6))+
qed

lemma on_wire_all_sent:
  "all_sent (w_pc t) \<Longrightarrow> on_wire base ps t w \<longleftrightarrow> w_data t = ps \<and> wire w = base @ payload w ps"
  by (cases "w_pc t") (simp_all add: on_wire_def Let_def)

lemma on_wire_unlock:
  "w_pc t = W_Unlock \<Longrightarrow> on_wire base ps t w \<longleftrightarrow> w_data t = ps \<and> wire w = base"
  by (simp add: on_wire_def Let_def)

lemma payload_take_Suc:
  "i < length ps \<Longrightarrow> payload w (take (Suc i) ps) = payload w (take i ps) @ packet_bytes w (ps ! i)"
  by (simp add: payload_def take_Suc_conv_app_nth)

lemma sent_of_full [simp]: "sent_of p (data_size p) = 0"
  by (simp add: sent_of_def)

lemma sent_of_step:
  assumes "0 \<le> s" and "s \<le> uint r" and "r \<le> data_size p"
  shows "sent_of p (r - word_of_int s) = sent_of p r + nat s" and "r - word_of_int s \<le> data_size p"
proof -
  have "uint r < 2 ^ 64" using uint_lt2p [of r] by simp
  with assms(1,2) have s: "unat (word_of_int s :: 64 word) = nat s"
    by (simp add: unat_eq_nat_uint uint_word_of_int_small)
  with assms(1,2) have le: "word_of_int s \<le> r"
    by (simp add: word_le_nat_alt nat_le_iff uint_eq_int_unat del: uint_nat)
  then have u: "unat (r - word_of_int s) = unat r - nat s" by (simp add: unat_sub_no_wrap s)
  have "nat s \<le> unat r" using le s by (simp add: word_le_nat_alt)
  moreover have "unat r \<le> unat (data_size p)" using assms(3) by (simp add: word_le_nat_alt)
  ultimately show "sent_of p (r - word_of_int s) = sent_of p r + nat s"
    "r - word_of_int s \<le> data_size p"
    by (simp_all add: sent_of_def u word_le_nat_alt)
qed


text \<open>At every place of the sending part, the wire holds the beginning of the list.\<close>

lemma mem_bytes_prefix: "n \<le> m \<Longrightarrow> prefix (mem_bytes w p n) (mem_bytes w p m)"
  using mem_bytes_add [of w p n "m - n"] by simp

lemma file_slice_prefix: "n \<le> m \<Longrightarrow> prefix (file_slice w f off n) (file_slice w f off m)"
  unfolding file_slice_def by (metis min.absorb1 take_is_prefix take_take)

lemma payload_prefix:
  assumes "i < length ps" and "prefix x (packet_bytes w (ps ! i))"
  shows "prefix (base @ payload w (take i ps) @ x) (base @ payload w ps)"
proof -
  have "payload w ps = payload w (take (Suc i) ps) @ payload w (drop (Suc i) ps)"
    by (simp only: payload_def concat_append [symmetric] map_append [symmetric] append_take_drop_id)
  with assms payload_take_Suc [OF assms(1)] show ?thesis by (auto simp: prefix_def)
qed

lemma payload_take_prefix: "prefix (base @ payload w (take i ps)) (base @ payload w ps)"
proof -
  have "payload w ps = payload w (take i ps) @ payload w (drop i ps)"
    by (simp only: payload_def concat_append [symmetric] map_append [symmetric] append_take_drop_id)
  then show ?thesis by simp
qed

lemma sent_of_le:
  assumes "0 \<le> s" and "s \<le> uint r" and "r \<le> data_size p"
  shows "sent_of p r + nat s \<le> unat (data_size p)"
proof -
  have "nat s \<le> unat r" using assms(1,2) by (simp add: nat_le_iff uint_eq_int_unat del: uint_nat)
  with assms(3) show ?thesis by (simp add: sent_of_def word_le_nat_alt)
qed

lemma on_wire_partly:
  assumes "on_wire base ps t w" and "packet_inv d t" and "sending (w_pc t) \<or> all_sent (w_pc t)"
  shows "partly base ps w"
proof -
  let ?p = "w_data t ! w_i t" and ?b = "base @ payload w (take (w_i t) ps)"
  have mem: "partly base ps w" if "map_option ((@) ?b) (mem_progress w ?p t s) = Some (wire w)"
    and "w_i t < length ps" "w_data t = ps" and s: "0 \<le> s" "s \<le> uint (w_remaining t)" for s
  proof -
    from that(1) have x: "data_ptr_type ?p = DATA_PTR_MEMORY_LOCATION" "w_remaining t \<le> data_size ?p"
      "wire w = ?b @ mem_bytes w (data_ptr ?p + data_offset ?p) (sent_of ?p (w_remaining t) + nat s)"
      by (auto simp: mem_progress_def Let_def split: if_splits)
    then have "prefix (mem_bytes w (data_ptr ?p + data_offset ?p) (sent_of ?p (w_remaining t) + nat s)) (packet_bytes w ?p)"
      by (simp add: packet_bytes_def mem_bytes_prefix [OF sent_of_le [OF s]])
    from payload_prefix [of "w_i t" ps, OF that(2)] this that(3) x(3) show ?thesis by (simp add: partly_def)
  qed
  have fil: "partly base ps w" if "map_option ((@) ?b) (file_progress w ?p t s) = Some (wire w)"
    and "w_i t < length ps" "w_data t = ps" and s: "0 \<le> s" "s \<le> uint (w_remaining t)" for s
  proof -
    let ?f = "int_at w (data_ptr ?p)"
    from that(1) have x: "data_ptr_type ?p = DATA_PTR_FILE_DESCRIPTOR" "w_remaining t \<le> data_size ?p"
      "wire w = ?b @ file_slice w ?f (sint (data_offset ?p)) (sent_of ?p (w_remaining t) + nat s)"
      by (auto simp: file_progress_def Let_def split: if_splits)
    then have "prefix (file_slice w ?f (sint (data_offset ?p)) (sent_of ?p (w_remaining t) + nat s)) (packet_bytes w ?p)"
      by (simp add: packet_bytes_def file_slice_prefix [OF sent_of_le [OF s]])
    from payload_prefix [of "w_i t" ps, OF that(2)] this that(3) x(3) show ?thesis by (simp add: partly_def)
  qed
  show ?thesis
  proof (cases "w_pc t")
    case W_Send
    with assms mem [of 0] show ?thesis by (auto simp: on_wire_def packet_inv_def Let_def)
  next
    case (W_SendTerm s)
    with assms mem [of s] show ?thesis by (auto simp: on_wire_def packet_inv_def Let_def)
  next
    case W_Sendfile
    with assms fil [of 0] show ?thesis by (auto simp: on_wire_def packet_inv_def Let_def)
  next
    case (W_SendfileTerm s)
    with assms fil [of s] show ?thesis by (auto simp: on_wire_def packet_inv_def Let_def)
  next
    case W_Packets
    with assms payload_take_prefix show ?thesis by (auto simp: on_wire_def partly_def Let_def)
  qed (use assms in \<open>auto simp: on_wire_def partly_def Let_def\<close>)
qed

lemma on_wire_exit: "w_pc t = W_Exit b c \<Longrightarrow> on_wire base ps t w \<Longrightarrow> partly base ps w"
  by (simp add: on_wire_def partly_def Let_def)

section \<open>What the sending steps put on the wire\<close>

text \<open>
  The steps of the sending part keep \<open>on_wire\<close> or leave for the exit; they are the same for both
  workers, so they are proved once.
\<close>

lemma packets_step_on_wire:
  assumes "on_wire base ps t w" and "w_pc t = W_Packets" and "t' = packets_step err end_pc t"
    and "all_sent end_pc"
  shows "(\<exists>c. w_pc t' = W_Exit True c) \<or> on_wire base ps t' w"
proof (cases "w_i t < length ps")
  case True
  with assms show ?thesis
    by (auto simp: on_wire_def packets_step_def mem_progress_def file_progress_def Let_def
        split: DATA_PTR_TYPE.splits)
next
  case False
  with assms have "take (w_i t) ps = ps" "w_data t = ps" "wire w = base @ payload w (take (w_i t) ps)"
    by (simp_all add: on_wire_def Let_def)
  with False assms(3,4) show ?thesis
    by (cases end_pc) (simp_all add: on_wire_def packets_step_def Let_def)
qed

lemma send_step_on_wire:
  assumes "on_wire base ps t w" and "w_pc t = W_Send" and "w_i t < length (w_data t)"
    and "send_step zc err (d, t, w) = (d', t', w')"
  shows "d' = d \<and> ((\<exists>c. w_pc t' = W_Exit True c) \<and> wire w' = wire w \<or> on_wire base ps t' w')"
proof -
  let ?p = "w_data t ! w_i t" and ?b = "base @ payload w (take (w_i t) ps)"
  let ?n = "sent_of ?p (w_remaining t)"
  from assms(1,2) have ps: "w_data t = ps" and ty: "data_ptr_type ?p = DATA_PTR_MEMORY_LOCATION"
    and le: "w_remaining t \<le> data_size ?p" and ds: "w_data_sent t = data_offset ?p + of_nat ?n"
    and wire: "wire w = ?b @ mem_bytes w (data_ptr ?p + data_offset ?p) ?n"
    by (auto simp: on_wire_def mem_progress_def Let_def split: if_splits)
  show ?thesis
  proof (cases "w_remaining t = 0")
    case True
    then have "?n = unat (data_size ?p)" by (simp add: sent_of_def)
    with wire ty have "wire w = ?b @ packet_bytes w ?p" by (simp add: packet_bytes_def)
    with True assms ps show ?thesis
      by (auto simp: send_step_def on_wire_def Let_def payload_take_Suc)
  next
    case False
    obtain s w1 where c: "send_call (sock_fd d) (data_ptr ?p + w_data_sent t) (w_remaining t) zc w = (s, w1)"
      by (cases "send_call (sock_fd d) (data_ptr ?p + w_data_sent t) (w_remaining t) zc w")
    show ?thesis
    proof (cases "s < 0")
      case True
      with send_call_fail [OF c] False c assms(4) show ?thesis by (auto simp: send_step_def)
    next
      case s: False
      with False c assms(4) have t': "d' = d" "t' = goto (W_SendTerm s) t" "w' = w1"
        by (auto simp: send_step_def)
      note r = send_call_range [OF c]
      from r(3) s have "w1 = w\<lparr>log := log w1, wire := wire w1\<rparr>" by simp
      note fr = bytes_frame [OF disjI1, OF this]
      have "wire w1 = ?b @ mem_bytes w (data_ptr ?p + data_offset ?p) (?n + nat s)"
        using r(2) s wire ds by (simp add: mem_bytes_add add.assoc)
      with t' ps ty le ds show ?thesis
        by (simp add: on_wire_def mem_progress_def Let_def fr)
    qed
  qed
qed

lemma send_term_on_wire:
  assumes "on_wire base ps t w" and "w_pc t = W_SendTerm s" and "0 \<le> s" and "s \<le> uint (w_remaining t)"
  shows "on_wire base ps (goto W_Send (t\<lparr>w_data_sent := w_data_sent t + word_of_int s,
    w_remaining := w_remaining t - word_of_int s\<rparr>)) w"
proof -
  let ?p = "w_data t ! w_i t"
  have le: "w_remaining t \<le> data_size ?p"
    using assms(1,2) by (auto simp: on_wire_def mem_progress_def Let_def split: if_splits)
  note st = sent_of_step [OF assms(3,4) le]
  have "(of_nat (nat s) :: 64 word) = word_of_int s" using assms(3) by simp
  with assms(1,2) st show ?thesis
    by (auto simp: on_wire_def mem_progress_def Let_def split: if_splits)
qed

lemma sendfile_step_on_wire:
  assumes "on_wire base ps t w" and "w_pc t = W_Sendfile" and "w_i t < length (w_data t)"
    and "sendfile_step err (d, t, w) = (d', t', w')"
  shows "d' = d \<and> ((\<exists>c. w_pc t' = W_Exit True c) \<and> wire w' = wire w \<or> on_wire base ps t' w')"
proof -
  let ?p = "w_data t ! w_i t" and ?b = "base @ payload w (take (w_i t) ps)"
  let ?n = "sent_of ?p (w_remaining t)" and ?f = "int_at w (data_ptr (w_data t ! w_i t))"
  let ?o = "sint (data_offset ?p)"
  from assms(1,2) have ps: "w_data t = ps" and ty: "data_ptr_type ?p = DATA_PTR_FILE_DESCRIPTOR"
    and le: "w_remaining t \<le> data_size ?p" and off: "w_offset t = ?o + int ?n"
    and wire: "wire w = ?b @ file_slice w ?f ?o ?n"
    by (auto simp: on_wire_def file_progress_def Let_def split: if_splits)
  show ?thesis
  proof (cases "w_remaining t = 0")
    case True
    then have "?n = unat (data_size ?p)" by (simp add: sent_of_def)
    with wire ty have "wire w = ?b @ packet_bytes w ?p" by (simp add: packet_bytes_def)
    with True assms ps show ?thesis
      by (auto simp: sendfile_step_def on_wire_def Let_def payload_take_Suc)
  next
    case False
    obtain s off' w1 where c: "sendfile_call (sock_fd d) ?f (w_offset t) (w_remaining t) w = (s, off', w1)"
      by (cases "sendfile_call (sock_fd d) ?f (w_offset t) (w_remaining t) w")
    show ?thesis
    proof (cases "s < 0")
      case True
      with sendfile_call_fail [OF c] False c assms(4) show ?thesis by (auto simp: sendfile_step_def)
    next
      case s: False
      then have s0: "0 \<le> s" by simp
      from s False c assms(4) have t': "d' = d" "t' = goto (W_SendfileTerm s) (t\<lparr>w_offset := off'\<rparr>)" "w' = w1"
        by (auto simp: sendfile_step_def)
      note r = sendfile_call_range [OF c s0]
      note fr = bytes_frame [OF disjI1, OF r(6)]
      have "file_slice w ?f ?o (?n + nat s) = file_slice w ?f ?o ?n @ file_slice w ?f (w_offset t) (nat s)"
      proof (cases "?n = 0")
        case True
        with off show ?thesis by simp
      next
        case False
        with assms(1,2) have "0 \<le> ?o"
          by (auto simp: on_wire_def file_progress_def Let_def split: if_splits)
        with off show ?thesis by (simp add: file_slice_add)
      qed
      then have "wire w1 = ?b @ file_slice w ?f ?o (?n + nat s)" using r(5) wire by simp
      moreover have "?n + nat s = 0 \<or> 0 \<le> ?o \<and> off' \<le> int (length (file_bytes w ?f))"
      proof (cases "?n = 0")
        case True
        with off r(2,3,4) s0 show ?thesis by auto
      next
        case False
        with assms(1,2) have "0 \<le> ?o" "w_offset t \<le> int (length (file_bytes w ?f))"
          by (auto simp: on_wire_def file_progress_def Let_def split: if_splits)
        with r(2,4) show ?thesis by auto
      qed
      ultimately show ?thesis
        using t' ps ty le off r(2) by (simp add: on_wire_def file_progress_def Let_def fr)
    qed
  qed
qed

lemma sendfile_term_on_wire:
  assumes "on_wire base ps t w" and "w_pc t = W_SendfileTerm s" and "0 \<le> s" and "s \<le> uint (w_remaining t)"
  shows "on_wire base ps (goto W_Sendfile (t\<lparr>w_remaining := w_remaining t - word_of_int s\<rparr>)) w"
proof -
  let ?p = "w_data t ! w_i t"
  have le: "w_remaining t \<le> data_size ?p"
    using assms(1,2) by (auto simp: on_wire_def file_progress_def Let_def split: if_splits)
  note st = sent_of_step [OF assms(3,4) le]
  with assms show ?thesis
    by (auto simp: on_wire_def file_progress_def Let_def split: if_splits)
qed


section \<open>The contract of a worker thread\<close>

text \<open>
  What the main thread's code relies on. \<open>own\<close> is the invariant of the thread's own variables,
  \<open>extra\<close> counts the notifications an ending thread still waits for.
\<close>

locale worker_thread =
  fixes step :: "('e, 'm) wstate \<Rightarrow> ('e, 'm) wstate"
    and code :: "'e \<Rightarrow> uint_fast8"
    and no_error :: 'e
    and own :: "SenderWorkerData \<Rightarrow> ('e, 'm) Worker_scheme \<Rightarrow> bool"
    and extra :: "('e, 'm) Worker_scheme \<Rightarrow> nat"
  assumes frame_os: "step (d, t, w) = (d', t', w') \<Longrightarrow>
      w' = w\<lparr>log := log w', wire := wire w', waits := waits w'\<rparr>"
    and no_user_call: "step (d, t, w) = (d', t', w') \<Longrightarrow> user_calls w' = user_calls w"
    and frame_flags: "step (d, t, w) = (d', t', w') \<Longrightarrow>
      terminate_thread d' = terminate_thread d \<and> sock_fd d' = sock_fd d"
    and keeps_worker_inv: "step (d, t, w) = (d', t', w') \<Longrightarrow> worker_inv d t \<Longrightarrow> worker_inv d' t'"
    and keeps_own: "step (d, t, w) = (d', t', w') \<Longrightarrow> (is_done d \<longrightarrow> \<not> busy (w_pc t)) \<Longrightarrow>
      own d t \<Longrightarrow> own d' t'"
    and own_shared: "own d t \<Longrightarrow> (is_done d' \<longrightarrow> is_done d) \<Longrightarrow> own d' t"
    and keeps_handover: "step (d, t, w) = (d', t', w') \<Longrightarrow> worker_inv d t \<Longrightarrow>
      handover_inv d t \<Longrightarrow> handover_inv d' t'"
    and keeps_exit: "step (d, t, w) = (d', t', w') \<Longrightarrow> exit_inv code no_error d t \<Longrightarrow>
      exit_inv code no_error d' t'"
    and delivers: "step (d, t, w) = (d', t', w') \<Longrightarrow> worker_inv d t \<Longrightarrow>
      delivery base ps a d t w \<Longrightarrow> delivery base ps a d' t' w'"
    and done_stays: "step (d, t, w) = (d', t', w') \<Longrightarrow> is_done d \<Longrightarrow> is_done d'"
    and idle_wire: "step (d, t, w) = (d', t', w') \<Longrightarrow> \<not> busy (w_pc t) \<Longrightarrow> wire w' = wire w"
    and stays_idle: "step (d, t, w) = (d', t', w') \<Longrightarrow> \<not> busy (w_pc t) \<Longrightarrow> packets_list d = None \<Longrightarrow>
      \<not> busy (w_pc t') \<and> packets_list d' = None"
    and locked_out: "step (d, t, w) = (d', t', w') \<Longrightarrow> worker_inv d t \<Longrightarrow>
      packets_mutex d = Some MainThread \<Longrightarrow>
      packets_mutex d' = Some MainThread \<and> packets_list d' = packets_list d \<and>
      (packets_cond d' \<longrightarrow> packets_cond d) \<and>
      (\<not> busy (w_pc t) \<longrightarrow> \<not> busy (w_pc t') \<and> is_done d' = is_done d)"
    and never_main: "step (d, t, w) = (d', t', w') \<Longrightarrow> packets_mutex d \<noteq> Some MainThread \<Longrightarrow>
      packets_mutex d' \<noteq> Some MainThread"
    and starts: "step (d, t, w) = (d', t', w') \<Longrightarrow> w_pc t = W_Alive \<Longrightarrow> w_pc t' = W_Initialized"
    and initializes: "step (d, t, w) = (d', t', w') \<Longrightarrow> worker_inv d t \<Longrightarrow>
      thread_initialized d \<or> w_pc t = W_Initialized \<Longrightarrow> thread_initialized d'"
    and dead_stays: "step (d, t, w) = (d', t', w') \<Longrightarrow> dead (w_pc t) \<Longrightarrow>
      dead (w_pc t') \<and> (w_pc t \<noteq> W_ExitFlag \<longrightarrow> w_pc t' = W_Exited) \<and>
      is_error d' = is_error d \<and> error_code d' = error_code d"
    and keeps_ending: "step (d, t, w) = (d', t', w') \<Longrightarrow> worker_inv d t \<Longrightarrow> ending d t \<Longrightarrow> ending d' t'"
    and steps_down: "step (d, t, w) = (d', t', w') \<Longrightarrow> worker_inv d t \<Longrightarrow> own d t \<Longrightarrow>
      terminate_thread d \<Longrightarrow>
      worker_rank (extra t') d' t' w' < worker_rank (extra t) d t w \<or>
      worker_rank (extra t') d' t' w' \<le> worker_rank (extra t) d t w \<and> w_pc t' = w_pc t \<and>
      (w_pc t = W_Exited \<or> w_pc t = W_Blocked \<and> packets_cond d \<or> packets_mutex d = Some MainThread)"

end
