(* ===== verification/Sender_Object.thy ===== *)
theory Sender_Object
  imports Sender_Worker Timers_Utils
begin

text \<open>
  The main thread's side of a sender: the classes \<^verbatim>\<open>TCPSender\<close> and \<^verbatim>\<open>TCPSenderZC\<close>
  (\<^verbatim>\<open>src/senders/tcp_sender.cpp\<close>, \<^verbatim>\<open>src/senders/tcp_sender_zc.cpp\<close>) have the same methods but
  for the name of the owner of the errors, one more socket option and one more case of the error
  switch; these and the worker thread are the record \<open>sender_class\<close>. Before each access of the main
  thread to the shared data the worker makes as many steps as the schedule says, so every
  interleaving of the two threads is one schedule.
\<close>

section \<open>State\<close>

record ('e, 'm) SenderObj =
  s_port :: uint_fast16
  s_server_sock_fd :: int
  s_client_sock_fd :: int
  s_worker_thread :: "('e, 'm) Worker_scheme option"
  s_shared_data :: SenderWorkerData
  s_error_handler :: Error
  s_initialized :: bool

record ('e, 'm) sender_class =
  k_step :: "('e, 'm) wstate \<Rightarrow> ('e, 'm) wstate"
  k_start :: "('e, 'm) Worker_scheme"
  k_owner :: string
  k_error_message :: "uint_fast8 \<Rightarrow> string"
  k_zerocopy :: bool

type_synonym ('e, 'm) sstate = "('e, 'm) SenderObj \<times> os"

section \<open>Accesses to shared data\<close>

definition run_worker :: "('e, 'm) sender_class \<Rightarrow> nat \<Rightarrow> ('e, 'm) sstate \<Rightarrow> ('e, 'm) sstate" where
  "run_worker k n = (\<lambda>(s, w).
     case s_worker_thread s of
       None \<Rightarrow> (s, w)
     | Some t \<Rightarrow>
         (let (d, t', w') = (k_step k ^^ n) (s_shared_data s, t, w)
          in (s\<lparr>s_shared_data := d, s_worker_thread := Some t'\<rparr>, w')))"

definition interfere :: "('e, 'm) sender_class \<Rightarrow> ('e, 'm) sstate \<Rightarrow> ('e, 'm) sstate" where
  "interfere k = (\<lambda>(s, w). run_worker k (schedule w (turns w)) (s, w\<lparr>turns := Suc (turns w)\<rparr>))"

definition shared_read ::
  "('e, 'm) sender_class \<Rightarrow> (SenderWorkerData \<Rightarrow> 'a) \<Rightarrow> ('e, 'm) sstate \<Rightarrow> 'a \<times> ('e, 'm) sstate" where
  "shared_read k f sw = (let (s, w) = interfere k sw in (f (s_shared_data s), s, w))"

definition shared_write ::
  "('e, 'm) sender_class \<Rightarrow> (SenderWorkerData \<Rightarrow> SenderWorkerData) \<Rightarrow> ('e, 'm) sstate \<Rightarrow> ('e, 'm) sstate" where
  "shared_write k g sw =
     (let (s, w) = interfere k sw in (s\<lparr>s_shared_data := g (s_shared_data s)\<rparr>, w))"

text \<open>
  \<^verbatim>\<open>prot_lock.lock_block()\<close> of the main thread: it waits until the worker has released the
  mutex; \<open>None\<close> when that never happens.
\<close>

partial_function (option) main_lock ::
  "('e, 'm) sender_class \<Rightarrow> MutexRAII \<Rightarrow> ('e, 'm) sstate \<Rightarrow> (MutexRAII \<times> ('e, 'm) sstate) option" where [code]:
  "main_lock k g sw =
     (let (s, w) = interfere k sw in
      case MutexRAII_lock_block MainThread g (packets_mutex (s_shared_data s)) of
        None \<Rightarrow> main_lock k g (s, w)
      | Some (g1, m) \<Rightarrow>
          Some (g1, s\<lparr>s_shared_data := (s_shared_data s)\<lparr>packets_mutex := m\<rparr>\<rparr>, w))"

definition main_unlock ::
  "('e, 'm) sender_class \<Rightarrow> MutexRAII \<Rightarrow> ('e, 'm) sstate \<Rightarrow> MutexRAII \<times> ('e, 'm) sstate" where
  "main_unlock k g sw =
     (let (s, w) = interfere k sw; (_, g1, m) = MutexRAII_unlock g (packets_mutex (s_shared_data s))
      in (g1, s\<lparr>s_shared_data := (s_shared_data s)\<lparr>packets_mutex := m\<rparr>\<rparr>, w))"

text \<open>The end of the guard's scope.\<close>

definition main_guard_dtor :: "MutexRAII \<Rightarrow> ('e, 'm) sstate \<Rightarrow> ('e, 'm) sstate" where
  "main_guard_dtor g = (\<lambda>(s, w).
     let (_, m) = MutexRAII_dtor g (packets_mutex (s_shared_data s))
     in (s\<lparr>s_shared_data := (s_shared_data s)\<lparr>packets_mutex := m\<rparr>\<rparr>, w))"

text \<open>The loops \<^verbatim>\<open>while(!shared_data_.flag) milliseconds_sleep(ms)\<close>.\<close>

partial_function (option) await ::
  "('e, 'm) sender_class \<Rightarrow> (SenderWorkerData \<Rightarrow> bool) \<Rightarrow> uint_fast32 \<Rightarrow> ('e, 'm) sstate \<Rightarrow>
   ('e, 'm) sstate option" where [code]:
  "await k flag ms sw =
     (let (b, s, w) = shared_read k flag sw in
      if b then Some (s, w)
      else do { w1 \<leftarrow> milliseconds_sleep ms w; await k flag ms (s, w1) })"

definition set_error :: "string \<Rightarrow> ('e, 'm) SenderObj \<Rightarrow> ('e, 'm) SenderObj" where
  "set_error msg s = s\<lparr>s_error_handler := Error_set_error msg (s_error_handler s)\<rparr>"

section \<open>Methods\<close>

definition Sender_ctor :: "('e, 'm) sender_class \<Rightarrow> uint_fast16 \<Rightarrow> ('e, 'm) SenderObj" where
  "Sender_ctor k port =
     \<lparr>s_port = port, s_server_sock_fd = -1, s_client_sock_fd = -1, s_worker_thread = None,
      s_shared_data = SenderWorkerData_default\<lparr>is_terminated_thread := True\<rparr>,
      s_error_handler = Error_ctor (k_owner k), s_initialized = False\<rparr>"

text \<open>The loop over the addresses: bound, given up with an error, or no address left.\<close>

datatype bind_result = Bound | Given_Up | No_Address

fun bind_first ::
  "('e, 'm) sender_class \<Rightarrow> addrinfo list \<Rightarrow> ('e, 'm) sstate \<Rightarrow> bind_result \<times> ('e, 'm) sstate" where
  "bind_first k [] (s, w) = (No_Address, s, w)"
| "bind_first k (p # ps) (s, w) =
     (let (fd, w1) = syscall (SocketCall p) w; s1 = s\<lparr>s_server_sock_fd := fd\<rparr> in
      if fd = -1 then bind_first k ps (s1, w1)
      else
        (let (r, w2) = syscall (Setsockopt fd (SO_REUSEADDR 1)) w1 in
         if r = -1 then
           (Given_Up, set_error ''error in setsockopt while setting SO_REUSEADDR flag'' s1, w2)
         else
           (let (z, w3) = (if k_zerocopy k then syscall (Setsockopt fd (SO_ZEROCOPY 1)) w2 else (0, w2)) in
            if z = -1 then
              (Given_Up, set_error ''error in setsockopt while setting SO_ZEROCOPY flag'' s1, w3)
            else
              (let (b, w4) = syscall (BindCall fd p) w3 in
               if b = -1 then
                 (let (_, w5) = syscall (CloseCall fd) w4 in bind_first k ps (s1, w5))
               else (Bound, s1, w4)))))"

definition create_server :: "('e, 'm) sender_class \<Rightarrow> ('e, 'm) sstate \<Rightarrow> bool \<times> ('e, 'm) sstate" where
  "create_server k = (\<lambda>(s, w).
     let (rv, w1) = syscall (Getaddrinfo (dec_nat (unat (s_port s)))) w in
     if rv \<noteq> 0 then (False, set_error (''getaddrinfo: '' @ gai_strerror w1 rv) s, w1)
     else
       (let (r, s2, w2) = bind_first k (addrinfos w1) (s, w1) in
        if r = Given_Up then (False, s2, w2)
        else
          (let (_, w3) = syscall Freeaddrinfo w2 in
           if r = No_Address then (False, set_error ''server: failed to bind'' s2, w3)
           else
             (let (l, w4) = syscall (ListenCall (s_server_sock_fd s2) 1) w3 in
              if l = -1 then (False, set_error ''error in listen to the port'' s2, w4)
              else (let (_, w5) = syscall IgnoreSigpipe w4 in (True, s2, w5))))))"

definition get_client :: "('e, 'm) sstate \<Rightarrow> bool \<times> ('e, 'm) sstate" where
  "get_client = (\<lambda>(s, w).
     let (fd, w1) = syscall (AcceptCall (s_server_sock_fd s)) w;
         s1 = s\<lparr>s_client_sock_fd := fd\<rparr>
     in if fd = -1 then (False, set_error ''error in accepting the client'' s1, w1)
        else (True, s1, w1))"

text \<open>
  \<^verbatim>\<open>end_sender\<close>: the thread is told to end, woken, and waited for; then the sockets are shut
  down and closed.
\<close>

definition set_terminate_thread :: "SenderWorkerData \<Rightarrow> SenderWorkerData" where
  "set_terminate_thread d = d\<lparr>terminate_thread := True\<rparr>"

definition set_packets_list :: "ptr option \<Rightarrow> SenderWorkerData \<Rightarrow> SenderWorkerData" where
  "set_packets_list l d = d\<lparr>packets_list := l\<rparr>"

definition clear_is_done :: "SenderWorkerData \<Rightarrow> SenderWorkerData" where
  "clear_is_done d = d\<lparr>is_done := False\<rparr>"

definition hand_over :: "('e, 'm) sender_class \<Rightarrow> ptr option \<Rightarrow> ('e, 'm) sstate \<Rightarrow>
    (MutexRAII \<times> ('e, 'm) sstate) option" where
  "hand_over k l sw =
     do { (g, sw1) \<leftarrow> main_lock k MutexRAII_ctor sw;
          Some (main_unlock k g (shared_write k pthread_cond_signal
            (shared_write k clear_is_done (shared_write k (set_packets_list l) sw1)))) }"

definition end_thread :: "('e, 'm) sender_class \<Rightarrow> ('e, 'm) sstate \<Rightarrow> ('e, 'm) sstate option" where
  "end_thread k sw =
     do { (g, sw1) \<leftarrow> hand_over k None (shared_write k set_terminate_thread sw);
          sw2 \<leftarrow> await k is_terminated_thread 50 sw1;
          Some (main_guard_dtor g sw2) }"

definition shutdown_close :: "int \<Rightarrow> os \<Rightarrow> os" where
  "shutdown_close fd w = snd (syscall (CloseCall fd) (snd (syscall (ShutdownCall fd) w)))"

definition close_server :: "('e, 'm) sstate \<Rightarrow> ('e, 'm) sstate" where
  "close_server = (\<lambda>(s, w).
     if s_server_sock_fd s \<noteq> -1
     then (s\<lparr>s_server_sock_fd := -1\<rparr>, shutdown_close (s_server_sock_fd s) w) else (s, w))"

definition close_client :: "('e, 'm) sstate \<Rightarrow> ('e, 'm) sstate" where
  "close_client = (\<lambda>(s, w).
     if s_client_sock_fd s \<noteq> -1
     then (s\<lparr>s_client_sock_fd := -1\<rparr>, shutdown_close (s_client_sock_fd s) w) else (s, w))"

definition end_sender ::
  "('e, 'm) sender_class \<Rightarrow> ('e, 'm) sstate \<Rightarrow> (bool \<times> ('e, 'm) sstate) option" where
  "end_sender k = (\<lambda>(s, w).
     let (terminated, sw1) = shared_read k is_terminated_thread (s\<lparr>s_initialized := False\<rparr>, w) in
     do { sw2 \<leftarrow> (if \<not> terminated then end_thread k sw1 else Some sw1);
          Some (True, close_client (close_server sw2)) })"

text \<open>
  \<^verbatim>\<open>initialize\<close>: what is left of an earlier run is ended and the shared data is reset. A thread
  that has ended is taken to be gone by then.
\<close>

definition reset_shared_data :: "('e, 'm) SenderObj \<Rightarrow> ('e, 'm) SenderObj" where
  "reset_shared_data s =
     s\<lparr>s_worker_thread := None,
       s_shared_data := (s_shared_data s)\<lparr>packets_list := None, is_done := True, is_error := False,
         sock_fd := -1, terminate_thread := False, thread_initialized := False, error_code := 0,
         packets_mutex := PTHREAD_MUTEX_INITIALIZER, packets_cond := PTHREAD_COND_INITIALIZER\<rparr>\<rparr>"

definition accepted :: "('e, 'm) sstate \<Rightarrow> ('e, 'm) sstate" where
  "accepted = (\<lambda>(s, w).
     (s\<lparr>s_server_sock_fd := -1,
        s_shared_data := (s_shared_data s)\<lparr>sock_fd := s_client_sock_fd s\<rparr>\<rparr>,
      shutdown_close (s_server_sock_fd s) w))"

text \<open>The \<^verbatim>\<open>pthread_attr\<close> calls, each with the message of its failure.\<close>

definition attr_calls :: "(event \<times> string) list" where
  "attr_calls =
     [(AttrInit, ''init pthread attributes failed''),
      (AttrSetstacksize, ''pthread setstacksize failed''),
      (AttrSetschedpolicy, ''pthread setschedpolicy failed''),
      (AttrSetschedparam 98, ''pthread setschedparam failed''),
      (AttrSetinheritsched, ''pthread setinheritsched failed'')]"

fun set_attributes :: "(event \<times> string) list \<Rightarrow> ('e, 'm) sstate \<Rightarrow> bool \<times> ('e, 'm) sstate" where
  "set_attributes [] (s, w) = (True, s, w)"
| "set_attributes ((e, msg) # calls) (s, w) =
     (let (r, w1) = syscall e w in
      if r \<noteq> 0 then (False, set_error msg s, w1) else set_attributes calls (s, w1))"

definition create_thread :: "('e, 'm) sender_class \<Rightarrow> ('e, 'm) sstate \<Rightarrow> bool \<times> ('e, 'm) sstate" where
  "create_thread k = (\<lambda>(s, w).
     let (th_st, w1) = syscall PthreadCreate w in
     if th_st \<noteq> 0 then (False, set_error (''pthread_create() return code: '' @ dec_int th_st) s, w1)
     else (True, s\<lparr>s_worker_thread := Some (k_start k)\<rparr>, w1))"

definition initialize ::
  "('e, 'm) sender_class \<Rightarrow> ('e, 'm) sstate \<Rightarrow> (bool \<times> ('e, 'm) sstate) option" where
  "initialize k sw =
     do { (_, s1, w1) \<leftarrow> end_sender k sw;
          let (ok1, sw2) = create_server k (reset_shared_data s1, w1) in
          if \<not> ok1 then Some (False, sw2) else
          let (ok2, sw3) = get_client sw2 in
          if \<not> ok2 then Some (False, sw3) else
          let (ok3, sw4) = set_attributes attr_calls (accepted sw3) in
          if \<not> ok3 then Some (False, sw4) else
          let (ok4, sw5) = create_thread k sw4 in
          if \<not> ok4 then Some (False, sw5) else
          do { (s6, w6) \<leftarrow> await k thread_initialized 5 sw5;
               Some (True, s6\<lparr>s_initialized := True\<rparr>, w6) } }"

definition send ::
  "('e, 'm) sender_class \<Rightarrow> ptr \<Rightarrow> ('e, 'm) sstate \<Rightarrow> (bool \<times> ('e, 'm) sstate) option" where
  "send k list = (\<lambda>(s, w).
     if \<not> s_initialized s then
       Some (False, set_error ''You must initialize the sender object first'' s, w)
     else
       (let (terminated, sw1) = shared_read k is_terminated_thread (s, w) in
        if terminated then
          (let (err, s2, w2) = shared_read k is_error sw1 in
           if \<not> err then
             Some (False, set_error ''No Thread Available to execute the send operation'' s2, w2)
           else
             (let (code, s3, w3) = shared_read k error_code (s2, w2)
              in Some (False, set_error (k_error_message k code) s3, w3)))
        else
          (let (finished, s2, w2) = shared_read k is_done sw1 in
           if \<not> finished then
             Some (False, set_error ''system called send(DataPacketsList*) while on going send operation.'' s2, w2)
           else
             do { (g, sw3) \<leftarrow> hand_over k (Some list) (s2, w2);
                  Some (True, main_guard_dtor g sw3) })))"

definition is_send_done :: "('e, 'm) sender_class \<Rightarrow> ('e, 'm) sstate \<Rightarrow> bool \<times> ('e, 'm) sstate" where
  "is_send_done k sw = shared_read k is_done sw"

definition get_error :: "('e, 'm) SenderObj \<Rightarrow> string \<times> ('e, 'm) SenderObj" where
  "get_error s =
     (Error_get_error (s_error_handler s),
      s\<lparr>s_error_handler := Error_clear_error (s_error_handler s)\<rparr>)"

definition is_error_pending :: "('e, 'm) SenderObj \<Rightarrow> bool" where
  "is_error_pending s = Error_is_error (s_error_handler s)"

definition Sender_dtor :: "('e, 'm) sender_class \<Rightarrow> ('e, 'm) sstate \<Rightarrow> ('e, 'm) sstate option" where
  "Sender_dtor k sw = map_option snd (end_sender k sw)"

definition Sender_vtable :: "('e, 'm) sender_class \<Rightarrow> ('e, 'm) SenderObj Sender" where
  "Sender_vtable k =
     \<lparr>sn_initialize = (\<lambda>s w. initialize k (s, w)), sn_send = (\<lambda>l s w. send k l (s, w)),
      sn_is_send_done = (\<lambda>s w. is_send_done k (s, w)), sn_end_sender = (\<lambda>s w. end_sender k (s, w)),
      sn_get_error = get_error, sn_is_error = is_error_pending\<rparr>"

text \<open>
  A caller that asks whether the list is sent and sleeps for the given milliseconds between two
  questions, as \<^verbatim>\<open>RealTimeSystem\<close> does.
\<close>

fun poll_done :: "('e, 'm) sender_class \<Rightarrow> uint_fast32 list \<Rightarrow> ('e, 'm) sstate \<Rightarrow>
    (bool \<times> ('e, 'm) sstate) option" where
  "poll_done k [] sw = Some (is_send_done k sw)"
| "poll_done k (ms # naps) sw =
     (let (b, s, w) = is_send_done k sw in
      if b then Some (True, s, w) else do { w1 \<leftarrow> milliseconds_sleep ms w; poll_done k naps (s, w1) })"

end
