(* ===== verification/Sender_Invariants.thy ===== *)
theory Sender_Invariants
  imports Sender_Object
begin

text \<open>
  The sender object keeps its invariant at every point of every interleaving. What holds between
  two accesses of the main thread has to survive any number of steps of the worker (\<open>stable\<close>); the
  lemmas on the lock, the hand-over of a list and the waiting loops are stated for such
  predicates, inside the contract of the worker thread.
\<close>

section \<open>Predicates the worker keeps\<close>

definition stable :: "('e, 'm) sender_class \<Rightarrow> (('e, 'm) SenderObj \<Rightarrow> os \<Rightarrow> bool) \<Rightarrow> bool" where
  [spec_defs]: "stable k Q \<longleftrightarrow> (\<forall>s w s' w'. Q s w \<longrightarrow> interfere k (s, w) = (s', w') \<longrightarrow> Q s' w')"

text \<open>The object \<open>s0\<close> with a worker, where \<open>P\<close> holds of the shared data, the worker and the machine.\<close>

definition threaded ::
  "('e, 'm) SenderObj \<Rightarrow> (SenderWorkerData \<Rightarrow> ('e, 'm) Worker_scheme \<Rightarrow> os \<Rightarrow> bool) \<Rightarrow>
   ('e, 'm) SenderObj \<Rightarrow> os \<Rightarrow> bool" where
  "threaded s0 P s w \<longleftrightarrow> (\<exists>d t. s = s0\<lparr>s_worker_thread := Some t, s_shared_data := d\<rparr> \<and> P d t w)"

lemma threadedI [intro]:
  assumes "P d t w"
  shows "threaded s0 P (s0\<lparr>s_worker_thread := Some t, s_shared_data := d\<rparr>) w"
    and "threaded s0 P (s0\<lparr>s_shared_data := d, s_worker_thread := Some t\<rparr>) w"
proof -
  show 1: "threaded s0 P (s0\<lparr>s_worker_thread := Some t, s_shared_data := d\<rparr>) w"
    unfolding threaded_def using assms by blast
  have "s0\<lparr>s_shared_data := d, s_worker_thread := Some t\<rparr> = s0\<lparr>s_worker_thread := Some t, s_shared_data := d\<rparr>"
    by simp
  with 1 show "threaded s0 P (s0\<lparr>s_shared_data := d, s_worker_thread := Some t\<rparr>) w" by (simp only:)
qed

lemma threadedE [elim!]:
  assumes "threaded s0 P s w"
  obtains d t where "s = s0\<lparr>s_worker_thread := Some t, s_shared_data := d\<rparr>" and "P d t w"
  using assms by (auto simp: threaded_def)

text \<open>
  What the worker and the bookkeeping of turns change of the machine; the user function is not
  called.
\<close>

definition thread_frame :: "os \<Rightarrow> os \<Rightarrow> bool" where
  [spec_defs]: "thread_frame w w' \<longleftrightarrow> reads w \<le> reads w' \<and> user_calls w' = user_calls w \<and>
     w' = w\<lparr>reads := reads w', log := log w', wire := wire w', turns := turns w', waits := waits w'\<rparr>"

lemma thread_frame_refl [simp]: "thread_frame w w"
  by (simp add: thread_frame_def)

lemma thread_frameD:
  assumes "thread_frame w w'"
  shows "clock w' = clock w" "answer w' = answer w" "lists w' = lists w" "memory w' = memory w"
    "schedule w' = schedule w" "spurious w' = spurious w" "payload w' = payload w"
    "addrinfos w' = addrinfos w" "gai_strerror w' = gai_strerror w" "reads w \<le> reads w'"
    "user_calls w' = user_calls w"
proof -
  from assms show "reads w \<le> reads w'" "user_calls w' = user_calls w" unfolding thread_frame_def by blast+
  from assms have w: "w' = w\<lparr>reads := reads w', log := log w', wire := wire w', turns := turns w', waits := waits w'\<rparr>"
    by (simp add: thread_frame_def)
  show 1: "clock w' = clock w" "answer w' = answer w" "lists w' = lists w" "memory w' = memory w"
    "schedule w' = schedule w" "spurious w' = spurious w" "addrinfos w' = addrinfos w"
    "gai_strerror w' = gai_strerror w"
    by (subst w, simp)+
  have 2: "int_at w' = int_at w" "file_bytes w' = file_bytes w" by (subst w, simp)+
  have "packet_bytes w' = packet_bytes w"
    by (rule ext) (simp add: packet_bytes_def mem_bytes_def file_slice_def 1 2 split: DATA_PTR_TYPE.split)
  then show "payload w' = payload w" by (intro ext) (simp only: payload_def)
qed

lemma thread_frame_trans:
  assumes "thread_frame w w1" and "thread_frame w1 w2"
  shows "thread_frame w w2"
proof -
  from assms have "user_calls w2 = user_calls w" by (simp add: thread_frame_def)
  with assms show ?thesis by (cases w; cases w1; cases w2) (simp add: thread_frame_def)
qed

lemma thread_frame_slept: "slept w naps w' \<Longrightarrow> thread_frame w w'"
  using slept_user_calls [of w naps w'] by (cases w; cases w') (simp add: thread_frame_def slept_def)

lemma thread_frame_simps [simp]:
  "thread_frame w (w'\<lparr>turns := n\<rparr>) = thread_frame w w'"
  "filter is_user_call l = user_calls w' \<Longrightarrow> thread_frame w (w'\<lparr>log := l\<rparr>) = thread_frame w w'"
  "filter is_user_call l = user_calls w \<Longrightarrow> thread_frame (w\<lparr>log := l\<rparr>) w' = thread_frame w w'"
  by (cases w; cases w'; simp add: thread_frame_def user_calls_def del: filter_user_calls)+

text \<open>The two loops of the main thread, for any predicate the worker keeps.\<close>

lemma main_lock_result:
  assumes "main_lock k g sw = Some r" and "stable k Q" and "Q (fst sw) (snd sw)"
  shows "is_locked (fst r) \<and> (\<exists>s1. Q s1 (snd (snd r)) \<and> packets_mutex (s_shared_data s1) = None \<and>
     fst (snd r) = s1\<lparr>s_shared_data := (s_shared_data s1)\<lparr>packets_mutex := Some MainThread\<rparr>\<rparr>)"
  using assms(2,3)
proof (induct rule: main_lock.raw_induct [OF _ assms(1), consumes 0, case_names step])
  case (step f k g sw r)
  obtain s w where i: "interfere k sw = (s, w)" by (cases "interfere k sw")
  with step(3,4) have q: "Q s w" by (cases sw) (auto simp: stable_def)
  show ?case
  proof (cases "packets_mutex (s_shared_data s)")
    case None
    with step(2) i q show ?thesis by (auto simp: MutexRAII_ops intro!: exI [of _ s])
  next
    case (Some x)
    with step(2) i have "f k g (s, w) = Some r" by (simp add: MutexRAII_ops)
    from step(1) [OF this step(3)] q show ?thesis by simp
  qed
qed

lemma await_result:
  assumes "await k flag ms sw = Some r" and "stable k Q" and "Q (fst sw) (snd sw)"
    and "\<And>s w w'. Q s w \<Longrightarrow> milliseconds_sleep ms w = Some w' \<Longrightarrow> Q s w'"
  shows "Q (fst r) (snd r) \<and> flag (s_shared_data (fst r))"
  using assms(2-4)
proof (induct rule: await.raw_induct [OF _ assms(1), consumes 0, case_names step])
  case (step f k flag ms sw r)
  obtain s w where i: "interfere k sw = (s, w)" by (cases "interfere k sw")
  with step(3,4) have q: "Q s w" by (cases sw) (auto simp: stable_def)
  show ?case
  proof (cases "flag (s_shared_data s)")
    case True
    with step(2) i q show ?thesis by (auto simp: shared_read_def)
  next
    case False
    with step(2) i obtain w1 where w1: "milliseconds_sleep ms w = Some w1" and "f k flag ms (s, w1) = Some r"
      by (auto simp: shared_read_def bind_eq_Some_conv)
    from step(1) [OF this(2) step(3) _ step(5)] step(5) [OF q w1] show ?thesis by simp
  qed
qed

context worker_thread
begin

lemma steps_keep:
  assumes "(step ^^ n) (d, t, w) = (d', t', w')" and "P d t w"
    and "\<And>d t w d' t' w'. step (d, t, w) = (d', t', w') \<Longrightarrow> P d t w \<Longrightarrow> P d' t' w'"
  shows "P d' t' w'"
  using assms(1)
proof (induction n arbitrary: d' t' w')
  case 0
  with assms(2) show ?case by simp
next
  case (Suc n)
  obtain d1 t1 w1 where 1: "(step ^^ n) (d, t, w) = (d1, t1, w1)" by (cases "(step ^^ n) (d, t, w)")
  with Suc.prems have "step (d1, t1, w1) = (d', t', w')" by simp
  from assms(3) [OF this Suc.IH [OF 1]] show ?case .
qed

lemma step_frame: "step (d, t, w) = (d', t', w') \<Longrightarrow> thread_frame v w \<Longrightarrow> thread_frame v w'"
  using frame_os [of d t w d' t' w'] no_user_call [of d t w d' t' w']
  by (cases v; cases w; cases w') (simp add: thread_frame_def)


end

section \<open>The phases of the hand-over\<close>

definition thread_wf ::
  "(SenderWorkerData \<Rightarrow> ('e, 'm) Worker_scheme \<Rightarrow> bool) \<Rightarrow> ('e \<Rightarrow> uint_fast8) \<Rightarrow> 'e \<Rightarrow>
   SenderWorkerData \<Rightarrow> ('e, 'm) Worker_scheme \<Rightarrow> bool" where
  "thread_wf own code no_error d t \<longleftrightarrow> worker_inv d t \<and> own d t \<and> exit_inv code no_error d t"

text \<open>
  The invariant of the sender object between two calls: without a thread the flag says terminated;
  with one, thread and shared data agree, the main thread does not hold the mutex, the thread has
  started, and it was not told to end as long as the object is initialised, and it has ended when
  it is not.
\<close>

definition sender_inv ::
  "(SenderWorkerData \<Rightarrow> ('e, 'm) Worker_scheme \<Rightarrow> bool) \<Rightarrow> ('e \<Rightarrow> uint_fast8) \<Rightarrow> 'e \<Rightarrow> ('e, 'm) SenderObj \<Rightarrow> bool" where
  "sender_inv own code no_error s \<longleftrightarrow>
     (let d = s_shared_data s in
      case s_worker_thread s of
        None \<Rightarrow> is_terminated_thread d \<and> packets_mutex d = None \<and> \<not> s_initialized s
      | Some t \<Rightarrow>
          thread_wf own code no_error d t \<and> handover_inv d t \<and> packets_mutex d \<noteq> Some MainThread \<and>
          thread_initialized d \<and> (s_initialized s \<longrightarrow> \<not> terminate_thread d) \<and>
          (\<not> s_initialized s \<longrightarrow> is_terminated_thread d))"

text \<open>
  The flags the worker leaves alone or only raises, and the machine but for what the worker
  changes: \<open>e\<close> says whether the thread was told to end, \<open>i\<close> whether it had started.
\<close>

definition around :: "bool \<Rightarrow> bool \<Rightarrow> os \<Rightarrow> SenderWorkerData \<Rightarrow> os \<Rightarrow> bool" where
  "around e i v d w \<longleftrightarrow> terminate_thread d = e \<and> (i \<longrightarrow> thread_initialized d) \<and> thread_frame v w"

lemma around_turns [simp]: "around e i v d (w\<lparr>turns := n\<rparr>) = around e i v d w"
  by (simp add: around_def)

lemma around_update [simp]:
  "around e i v (d\<lparr>packets_mutex := m\<rparr>) w = around e i v d w"
  "around e i v (d\<lparr>packets_list := l\<rparr>) w = around e i v d w"
  "around e i v (d\<lparr>is_done := b\<rparr>) w = around e i v d w"
  "around e i v (d\<lparr>packets_cond := b\<rparr>) w = around e i v d w"
  by (simp_all add: around_def)

lemma exit_inv_update [simp]:
  "exit_inv c e (d\<lparr>packets_mutex := m\<rparr>) t = exit_inv c e d t"
  "exit_inv c e (d\<lparr>packets_list := l\<rparr>) t = exit_inv c e d t"
  "exit_inv c e (d\<lparr>is_done := b\<rparr>) t = exit_inv c e d t"
  "exit_inv c e (d\<lparr>packets_cond := b\<rparr>) t = exit_inv c e d t"
  "exit_inv c e (d\<lparr>terminate_thread := b\<rparr>) t = exit_inv c e d t"
  by (cases "w_pc t"; simp add: exit_inv_def)+

lemma packet_inv_update [simp]:
  "packet_inv (d\<lparr>packets_mutex := m\<rparr>) t = packet_inv d t"
  "w_pc t \<noteq> W_Copy \<Longrightarrow> packet_inv (d\<lparr>packets_list := l\<rparr>) t = packet_inv d t"
  "packet_inv (d\<lparr>is_done := b\<rparr>) t = packet_inv d t"
  "packet_inv (d\<lparr>packets_cond := b\<rparr>) t = packet_inv d t"
  "packet_inv (d\<lparr>terminate_thread := b\<rparr>) t = packet_inv d t"
  by (cases "w_pc t"; simp add: packet_inv_def)+

lemma delivery_frame:
  assumes "memory w' = memory w" "int_at w' = int_at w" "file_bytes w' = file_bytes w"
    "lists w' = lists w" "wire w' = wire w"
  shows "delivery base ps a d t w' = delivery base ps a d t w"
proof -
  have 1: "mem_bytes w' = mem_bytes w" "file_slice w' = file_slice w"
    by (simp_all add: mem_bytes_def file_slice_def fun_eq_iff assms)
  have "packet_bytes w' = packet_bytes w"
    by (rule ext) (simp add: packet_bytes_def 1 assms split: DATA_PTR_TYPE.split)
  then have 2: "payload w' = payload w" by (intro ext) (simp only: payload_def)
  have "mem_progress w' p t s = mem_progress w p t s" "file_progress w' p t s = file_progress w p t s" for p s
    by (simp_all only: mem_progress_def file_progress_def 1 assms)
  then have "on_wire base ps t w' = on_wire base ps t w"
    by (cases "w_pc t") (simp_all add: on_wire_def 2 assms Let_def)
  then show ?thesis by (simp add: delivery_def partly_def 2 assms)
qed

lemma delivery_turns [simp]: "delivery base ps a d t (w\<lparr>turns := n\<rparr>) = delivery base ps a d t w"
  by (rule delivery_frame) simp_all

lemma delivery_slept: "slept w naps w' \<Longrightarrow> delivery base ps a d t w' = delivery base ps a d t w"
  by (intro delivery_frame sleptD)

lemma delivery_handover: "delivery base ps a d t w \<Longrightarrow> handover_inv d t"
  by (auto simp: delivery_def handover_inv_def busy_def split: if_splits)

text \<open>The contract of a sender class: its worker thread keeps the contract and starts as it should.\<close>

locale sender_thread =
  worker_thread "k_step k" code no_error own extra
  for k :: "('e, 'm) sender_class" and code :: "'e \<Rightarrow> uint_fast8" and no_error :: 'e
    and own :: "SenderWorkerData \<Rightarrow> ('e, 'm) Worker_scheme \<Rightarrow> bool" and extra :: "('e, 'm) Worker_scheme \<Rightarrow> nat" +
  assumes start_ok: "w_pc (k_start k) = W_Alive" "\<not> is_locked (w_prot_lock (k_start k))"
      "end_value (w_prot_term_flag (k_start k))" "own d (k_start k)"
    and known_codes: "c \<noteq> no_error \<Longrightarrow>
      k_error_message k (code c) \<noteq> ''Unknown error in sender worker thread.''"
begin

lemma stable_threaded:
  assumes "\<And>d t w d' t' w'. k_step k (d, t, w) = (d', t', w') \<Longrightarrow> P d t w \<Longrightarrow> P d' t' w'"
    and "\<And>d t w n. P d t w \<Longrightarrow> P d t (w\<lparr>turns := n\<rparr>)"
  shows "stable k (threaded s0 P)"
proof -
  have "threaded s0 P s' w'" if t: "threaded s0 P s w" and i: "interfere k (s, w) = (s', w')" for s w s' w'
  proof -
    obtain d th where s: "s = s0\<lparr>s_worker_thread := Some th, s_shared_data := d\<rparr>" and p: "P d th w"
      using t by (auto simp: threaded_def)
    let ?w = "w\<lparr>turns := Suc (turns w)\<rparr>"
    obtain d' t' v where st: "(k_step k ^^ schedule w (turns w)) (d, th, ?w) = (d', t', v)"
      by (cases "(k_step k ^^ schedule w (turns w)) (d, th, ?w)")
    have "P d' t' v" using steps_keep [OF st, of P] assms(1,2) p by blast
    with i st s show ?thesis by (auto simp: interfere_def run_worker_def)
  qed
  then show ?thesis by (auto simp: stable_def)
qed

lemma interfere_threaded:
  assumes "stable k (threaded s0 P)" and "threaded s0 P s w"
  obtains d t w' where "interfere k (s, w) = (s0\<lparr>s_worker_thread := Some t, s_shared_data := d\<rparr>, w')"
    and "P d t w'"
proof -
  obtain s' w' where i: "interfere k (s, w) = (s', w')" by (cases "interfere k (s, w)")
  with assms have "threaded s0 P s' w'" by (auto simp: stable_def)
  with i that show thesis by auto
qed

lemma read_threaded:
  assumes "stable k (threaded s0 P)" and "threaded s0 P s w" and "shared_read k f (s, w) = (b, s', w')"
  shows "threaded s0 P s' w'" and "b = f (s_shared_data s')"
  using assms by (auto simp: shared_read_def stable_def split: prod.splits)

lemma write_threaded:
  assumes "stable k (threaded s0 P)" and "threaded s0 P s w" and "shared_write k g (s, w) = (s', w')"
    and "\<And>d t w. P d t w \<Longrightarrow> P' (g d) t w"
  shows "threaded s0 P' s' w'"
proof -
  obtain d t v where "interfere k (s, w) = (s0\<lparr>s_worker_thread := Some t, s_shared_data := d\<rparr>, v)"
    and "P d t v" using assms(1,2) by (rule interfere_threaded)
  with assms(3,4) show ?thesis by (auto simp: shared_write_def)
qed

lemma unlock_threaded:
  assumes "stable k (threaded s0 P)" and "threaded s0 P s w" and "main_unlock k g (s, w) = (g', s', w')"
    and "is_locked g" and "\<And>d t w. P d t w \<Longrightarrow> P' (d\<lparr>packets_mutex := None\<rparr>) t w"
  shows "threaded s0 P' s' w' \<and> \<not> is_locked g'"
proof -
  obtain d t v where "interfere k (s, w) = (s0\<lparr>s_worker_thread := Some t, s_shared_data := d\<rparr>, v)"
    and "P d t v" using assms(1,2) by (rule interfere_threaded)
  with assms(3,4,5) show ?thesis by (auto simp: main_unlock_def MutexRAII_ops)
qed

lemma main_guard_dtor_unlocked [simp]: "\<not> is_locked g \<Longrightarrow> main_guard_dtor g sw = sw"
  by (simp add: main_guard_dtor_def MutexRAII_ops split: prod.splits)

lemma lock_threaded:
  assumes "main_lock k g sw = Some (g', s', w')" and "stable k (threaded s0 P)"
    and "threaded s0 P (fst sw) (snd sw)"
    and "\<And>d t w. P d t w \<Longrightarrow> packets_mutex d = None \<Longrightarrow> P' (d\<lparr>packets_mutex := Some MainThread\<rparr>) t w"
  shows "threaded s0 P' s' w' \<and> is_locked g'"
  using main_lock_result [OF assms(1-3)] assms(4) by (auto intro!: threadedI(1))

lemma await_threaded:
  assumes "await k flag ms sw = Some (s', w')" and "stable k (threaded s0 P)"
    and "threaded s0 P (fst sw) (snd sw)"
    and "\<And>d t w w'. P d t w \<Longrightarrow> milliseconds_sleep ms w = Some w' \<Longrightarrow> P d t w'"
  shows "threaded s0 P s' w' \<and> flag (s_shared_data s')"
proof -
  have "threaded s0 P s v'" if "threaded s0 P s v" "milliseconds_sleep ms v = Some v'" for s v v'
    using that assms(4) by auto
  from await_result [OF assms(1,2,3) this] show ?thesis by simp
qed

lemma step_around:
  assumes "k_step k (d, t, w) = (d', t', w')" and "worker_inv d t" and "around e i v d w"
  shows "around e i v d' w'"
  using assms frame_flags [OF assms(1)] step_frame [OF assms(1)] initializes [OF assms(1,2)]
  by (auto simp: around_def)

lemma step_wf:
  assumes "k_step k (d, t, w) = (d', t', w')" and "thread_wf own code no_error d t"
    and "is_done d \<longrightarrow> \<not> busy (w_pc t)"
  shows "thread_wf own code no_error d' t'"
  using assms keeps_worker_inv [OF assms(1)] keeps_own [OF assms(1)] keeps_exit [OF assms(1)]
  by (auto simp: thread_wf_def)

abbreviation wf :: "SenderWorkerData \<Rightarrow> ('e, 'm) Worker_scheme \<Rightarrow> bool" where
  "wf \<equiv> thread_wf own code no_error"

lemma wf_worker: "wf d t \<Longrightarrow> worker_inv d t"
  by (simp add: thread_wf_def)

text \<open>The thread between two calls, and the same while no list is on its way.\<close>

definition resting :: "bool \<Rightarrow> bool \<Rightarrow> os \<Rightarrow> SenderWorkerData \<Rightarrow> ('e, 'm) Worker_scheme \<Rightarrow> os \<Rightarrow> bool" where
  "resting e i v d t w \<longleftrightarrow>
     wf d t \<and> handover_inv d t \<and> packets_mutex d \<noteq> Some MainThread \<and> around e i v d w"

definition idle :: "bool \<Rightarrow> bool \<Rightarrow> os \<Rightarrow> SenderWorkerData \<Rightarrow> ('e, 'm) Worker_scheme \<Rightarrow> os \<Rightarrow> bool" where
  "idle e i v d t w \<longleftrightarrow> resting e i v d t w \<and> is_done d \<and> wire w = wire v"

text \<open>The main thread holds the mutex: with an idle worker, or with one that is to end.\<close>

definition held :: "bool \<Rightarrow> bool \<Rightarrow> os \<Rightarrow> SenderWorkerData \<Rightarrow> ('e, 'm) Worker_scheme \<Rightarrow> os \<Rightarrow> bool" where
  "held e i v d t w \<longleftrightarrow> wf d t \<and> packets_mutex d = Some MainThread \<and> around e i v d w"

definition held_idle :: "bool \<Rightarrow> bool \<Rightarrow> os \<Rightarrow> ptr option \<Rightarrow> bool \<Rightarrow>
    SenderWorkerData \<Rightarrow> ('e, 'm) Worker_scheme \<Rightarrow> os \<Rightarrow> bool" where
  "held_idle e i v l b d t w \<longleftrightarrow>
     held e i v d t w \<and> \<not> busy (w_pc t) \<and> packets_list d = l \<and> is_done d = b \<and> wire w = wire v"

definition held_ending :: "bool \<Rightarrow> os \<Rightarrow> bool \<Rightarrow> bool \<Rightarrow>
    SenderWorkerData \<Rightarrow> ('e, 'm) Worker_scheme \<Rightarrow> os \<Rightarrow> bool" where
  "held_ending i v n c d t w \<longleftrightarrow>
     held True i v d t w \<and> handover_inv d t \<and> (n \<longrightarrow> packets_list d = None) \<and> (c \<longrightarrow> \<not> packets_cond d)"

text \<open>A list is on its way.\<close>

definition delivering :: "bool \<Rightarrow> bool \<Rightarrow> os \<Rightarrow> ptr \<Rightarrow>
    SenderWorkerData \<Rightarrow> ('e, 'm) Worker_scheme \<Rightarrow> os \<Rightarrow> bool" where
  "delivering e i v a d t w \<longleftrightarrow>
     wf d t \<and> packets_mutex d \<noteq> Some MainThread \<and> around e i v d w \<and>
     delivery (wire v) (lists v a) a d t w"

text \<open>A thread that was told to end and cannot wait again.\<close>

definition leaving :: "bool \<Rightarrow> os \<Rightarrow> SenderWorkerData \<Rightarrow> ('e, 'm) Worker_scheme \<Rightarrow> os \<Rightarrow> bool" where
  "leaving i v d t w \<longleftrightarrow> resting True i v d t w \<and> ending d t"

lemmas phase_defs = resting_def idle_def held_def held_idle_def held_ending_def delivering_def leaving_def

lemma step_resting:
  assumes st: "k_step k (d, t, w) = (d', t', w')" and p: "resting e i v d t w"
  shows "resting e i v d' t' w'"
proof -
  have nb: "is_done d \<longrightarrow> \<not> busy (w_pc t)" using p by (auto simp: phase_defs handover_inv_def delivery_def)
  from p show ?thesis
    unfolding phase_defs using step_wf [OF st _ nb] step_around [OF st] keeps_handover [OF st] never_main [OF st]
      wf_worker by auto
qed

lemma stable_resting: "stable k (threaded s0 (resting e i v))"
  by (rule stable_threaded, fact step_resting) (simp add: phase_defs)

lemma step_idle:
  assumes st: "k_step k (d, t, w) = (d', t', w')" and p: "idle e i v d t w"
  shows "idle e i v d' t' w'"
proof -
  from p have "\<not> busy (w_pc t)" by (simp add: idle_def resting_def handover_inv_def)
  with p idle_wire [OF st] done_stays [OF st] show ?thesis
    unfolding phase_defs using step_wf [OF st] step_around [OF st] keeps_handover [OF st] never_main [OF st]
      wf_worker by auto
qed

lemma stable_idle: "stable k (threaded s0 (idle e i v))"
  by (rule stable_threaded, fact step_idle) (simp add: idle_def resting_def)

lemma step_held_idle:
  assumes st: "k_step k (d, t, w) = (d', t', w')" and p: "held_idle e i v l b d t w"
  shows "held_idle e i v l b d' t' w'"
proof -
  from p have "worker_inv d t" "packets_mutex d = Some MainThread" by (simp_all add: phase_defs wf_worker)
  from locked_out [OF st this] idle_wire [OF st] p show ?thesis
    unfolding phase_defs using step_wf [OF st] step_around [OF st] wf_worker by auto
qed

lemma stable_held_idle: "stable k (threaded s0 (held_idle e i v l b))"
  by (rule stable_threaded, fact step_held_idle) (simp add: phase_defs)

lemma step_held_ending:
  assumes st: "k_step k (d, t, w) = (d', t', w')" and p: "held_ending i v n c d t w"
  shows "held_ending i v n c d' t' w'"
proof -
  have nb: "is_done d \<longrightarrow> \<not> busy (w_pc t)" using p by (auto simp: phase_defs handover_inv_def delivery_def)
  from p have "worker_inv d t" "packets_mutex d = Some MainThread" by (simp_all add: phase_defs wf_worker)
  from locked_out [OF st this] p show ?thesis
    unfolding phase_defs using step_wf [OF st _ nb] step_around [OF st] keeps_handover [OF st] wf_worker by auto
qed

lemma stable_held_ending: "stable k (threaded s0 (held_ending i v n c))"
  by (rule stable_threaded, fact step_held_ending) (simp add: phase_defs)

lemma step_delivering:
  assumes st: "k_step k (d, t, w) = (d', t', w')" and p: "delivering e i v a d t w"
  shows "delivering e i v a d' t' w'"
proof -
  have nb: "is_done d \<longrightarrow> \<not> busy (w_pc t)" using p by (auto simp: phase_defs handover_inv_def delivery_def)
  from p show ?thesis
    unfolding phase_defs using step_wf [OF st _ nb] step_around [OF st] delivers [OF st] never_main [OF st] wf_worker
    by auto
qed

lemma stable_delivering: "stable k (threaded s0 (delivering e i v a))"
  by (rule stable_threaded, fact step_delivering) (simp add: phase_defs)

lemma step_leaving:
  assumes st: "k_step k (d, t, w) = (d', t', w')" and p: "leaving i v d t w"
  shows "leaving i v d' t' w'"
proof -
  have nb: "is_done d \<longrightarrow> \<not> busy (w_pc t)" using p by (auto simp: phase_defs handover_inv_def delivery_def)
  from p show ?thesis
    unfolding phase_defs using step_wf [OF st _ nb] step_around [OF st] keeps_handover [OF st] never_main [OF st]
      keeps_ending [OF st] wf_worker by auto
qed

lemma stable_leaving: "stable k (threaded s0 (leaving i v))"
  by (rule stable_threaded, fact step_leaving) (simp add: phase_defs)

text \<open>
  While the thread is to end, the number of steps it has left never grows, and the clock is not
  read by it.
\<close>

definition ranked :: "nat \<Rightarrow> nat \<Rightarrow> (SenderWorkerData \<Rightarrow> ('e, 'm) Worker_scheme \<Rightarrow> os \<Rightarrow> bool) \<Rightarrow>
    SenderWorkerData \<Rightarrow> ('e, 'm) Worker_scheme \<Rightarrow> os \<Rightarrow> bool" where
  "ranked r n P d t w \<longleftrightarrow> P d t w \<and> worker_rank (extra t) d t w \<le> r \<and> reads w = n"

lemma worker_rank_turns [simp]: "worker_rank x d t (w\<lparr>turns := n\<rparr>) = worker_rank x d t w"
  by (simp add: worker_rank_def split: option.split)

lemma step_reads:
  assumes "k_step k (d, t, w) = (d', t', w')"
  shows "reads w' = reads w" "schedule w' = schedule w" "clock w' = clock w" "lists w' = lists w"
  proof -
  note e = frame_os [OF assms]
  show "reads w' = reads w" "schedule w' = schedule w" "clock w' = clock w" "lists w' = lists w"
    by (subst e, simp)+
qed

lemma stable_ranked:
  assumes "\<And>d t w d' t' w'. k_step k (d, t, w) = (d', t', w') \<Longrightarrow> P d t w \<Longrightarrow> P d' t' w'"
    and "\<And>d t w n. P d t w \<Longrightarrow> P d t (w\<lparr>turns := n\<rparr>)"
    and "\<And>d t w. P d t w \<Longrightarrow> wf d t \<and> terminate_thread d"
  shows "stable k (threaded s0 (ranked r n P))"
proof (rule stable_threaded)
  fix d t w d' t' w'
  assume st: "k_step k (d, t, w) = (d', t', w')" and p: "ranked r n P d t w"
  then have "P d t w" by (simp add: ranked_def)
  from assms(3) [OF this] steps_down [OF st] have "worker_rank (extra t') d' t' w' \<le> worker_rank (extra t) d t w"
    by (auto simp: thread_wf_def)
  with p assms(1) [OF st] step_reads [OF st] show "ranked r n P d' t' w'" by (simp add: ranked_def)
qed (simp add: ranked_def assms(2))

lemma stable_ranked_resting: "stable k (threaded s0 (ranked r n (resting True i v)))"
  by (rule stable_ranked, fact step_resting) (simp_all add: phase_defs around_def)

lemma stable_ranked_held: "stable k (threaded s0 (ranked r n (held_ending i v b c)))"
  by (rule stable_ranked, fact step_held_ending) (simp_all add: phase_defs around_def)

lemma stable_ranked_leaving: "stable k (threaded s0 (ranked r n (leaving i v)))"
  by (rule stable_ranked, fact step_leaving) (simp_all add: phase_defs around_def)

end

end
