(* ===== verification/Real_Time_System.thy ===== *)
theory Real_Time_System
  imports Timer_Interface Sender_Invariants
begin

text \<open>
  The classes \<^verbatim>\<open>RealTimeInfo\<close> and \<^verbatim>\<open>RealTimeSystem\<close> (\<^verbatim>\<open>includes/real_time_system.h\<close>,
  \<^verbatim>\<open>src/systems/real_time_system.cpp\<close>). The timer and the sender are reached through their
  virtual methods only, which are parameters here (\<open>T\<close> and \<open>S\<close>); the system owns neither, but
  as long as it runs it is the only one that calls them, so their states are held in its record.
\<close>

section \<open>What the user function is told\<close>

record RealTimeInfo =
  i_sequence_number :: uint_fast32
  i_skip_next_data :: bool
  i_delayed_ms :: uint_fast16
  i_system_stopped :: bool

definition RealTimeInfo_ctor :: "uint_fast32 \<Rightarrow> bool \<Rightarrow> uint_fast16 \<Rightarrow> bool \<Rightarrow> RealTimeInfo" where
  "RealTimeInfo_ctor sequence_number skip_next_data delayed_ms system_stopped =
     \<lparr>i_sequence_number = sequence_number, i_skip_next_data = skip_next_data,
      i_delayed_ms = delayed_ms, i_system_stopped = system_stopped\<rparr>"

definition get_sequence_number :: "RealTimeInfo \<Rightarrow> uint_fast32" where
  "get_sequence_number i = i_sequence_number i"

definition get_delayed_time_ms :: "RealTimeInfo \<Rightarrow> uint_fast32" where
  "get_delayed_time_ms i = i_delayed_ms i"

definition is_skipped_data :: "RealTimeInfo \<Rightarrow> bool" where
  "is_skipped_data i = i_skip_next_data i"

definition stop_system :: "RealTimeInfo \<Rightarrow> RealTimeInfo" where
  "stop_system i = i\<lparr>i_system_stopped := True\<rparr>"

definition is_system_stopped :: "RealTimeInfo \<Rightarrow> bool" where
  "is_system_stopped i = i_system_stopped i"

text \<open>
  The user function is code of the application, a parameter: it answers a list of packets, may
  call \<^verbatim>\<open>stop_system\<close> (its only way to change the info object), and may write the memory the
  packets point to. The call is logged with what the function was told.
\<close>

type_synonym user_fn = "RealTimeInfo \<Rightarrow> os \<Rightarrow> DataPacket list \<times> bool \<times> (ptr \<Rightarrow> byte)"

definition call_user :: "user_fn \<Rightarrow> ptr \<Rightarrow> RealTimeInfo \<Rightarrow> os \<Rightarrow> RealTimeInfo \<times> os" where
  "call_user f user_packets_list user_info w =
     (let (packets, stop, m) = f user_info w in
      (if stop then stop_system user_info else user_info,
       w\<lparr>log := log w @ [UserFn (get_sequence_number user_info) (is_skipped_data user_info)
                           (get_delayed_time_ms user_info)],
         memory := m, lists := (lists w)(user_packets_list := packets)\<rparr>))"

section \<open>The system\<close>

record ('t, 's) RealTimeSystem =
  r_timer :: "'t option"
  r_sender :: "'s option"
  r_user_app_func :: "user_fn option"
  r_error_handler :: Error
  r_frequency :: uint_fast16
  r_allow_skip_mode :: bool
  r_initialized :: bool
  r_ms_tolerance :: uint_fast16

type_synonym ('t, 's) rstate = "('t, 's) RealTimeSystem \<times> os"

definition r_set_error :: "string \<Rightarrow> ('t, 's) RealTimeSystem \<Rightarrow> ('t, 's) RealTimeSystem" where
  "r_set_error msg r = r\<lparr>r_error_handler := Error_set_error msg (r_error_handler r)\<rparr>"

definition RealTimeSystem_ctor :: "('t, 's) RealTimeSystem" where
  "RealTimeSystem_ctor =
     \<lparr>r_timer = None, r_sender = None, r_user_app_func = None,
      r_error_handler = Error_ctor ''RealTimeSystem'', r_frequency = 0, r_allow_skip_mode = False,
      r_initialized = False, r_ms_tolerance = 0\<rparr>"

definition set_timer :: "'t option \<Rightarrow> ('t, 's) RealTimeSystem \<Rightarrow> bool \<times> ('t, 's) RealTimeSystem" where
  "set_timer timer r =
     (let r1 = r\<lparr>r_initialized := False\<rparr> in
      if timer = None then (False, r_set_error ''Null Timer provided'' r1)
      else (True, r1\<lparr>r_timer := timer\<rparr>))"

definition set_sender :: "'s option \<Rightarrow> ('t, 's) RealTimeSystem \<Rightarrow> bool \<times> ('t, 's) RealTimeSystem" where
  "set_sender sender r =
     (let r1 = r\<lparr>r_initialized := False\<rparr> in
      if sender = None then (False, r_set_error ''Null Sender provided'' r1)
      else (True, r1\<lparr>r_sender := sender\<rparr>))"

definition set_user_data_fn ::
  "user_fn option \<Rightarrow> ('t, 's) RealTimeSystem \<Rightarrow> bool \<times> ('t, 's) RealTimeSystem" where
  "set_user_data_fn f r =
     (let r1 = r\<lparr>r_initialized := False\<rparr> in
      case f of None \<Rightarrow> (False, r_set_error ''Null Function provided'' r1)
      | Some g \<Rightarrow> (True, r1\<lparr>r_user_app_func := Some g\<rparr>))"

definition set_frequency :: "uint_fast16 \<Rightarrow> ('t, 's) RealTimeSystem \<Rightarrow> bool \<times> ('t, 's) RealTimeSystem" where
  "set_frequency frequency r = (True, r\<lparr>r_initialized := False, r_frequency := frequency\<rparr>)"

definition set_ms_tolerance :: "uint_fast16 \<Rightarrow> ('t, 's) RealTimeSystem \<Rightarrow> ('t, 's) RealTimeSystem" where
  "set_ms_tolerance ms_tolerance r = r\<lparr>r_initialized := False, r_ms_tolerance := ms_tolerance\<rparr>"

definition skip_mode :: "bool \<Rightarrow> ('t, 's) RealTimeSystem \<Rightarrow> ('t, 's) RealTimeSystem" where
  "skip_mode allow_skip_mode r = r\<lparr>r_initialized := False, r_allow_skip_mode := allow_skip_mode\<rparr>"

definition convert_rt_thread :: "('t, 's) rstate \<Rightarrow> bool \<times> ('t, 's) rstate" where
  "convert_rt_thread = (\<lambda>(r, w).
     let (m, w1) = syscall Mlockall w in
     if m = -1 then (False, r_set_error ''mlockall failed'' r, w1)
     else
       (let (p, w2) = syscall (SchedSetscheduler 99) w1 in
        if p \<noteq> 0 then
          (False, r_set_error ''Can't set the process scheduler to FIFO / set priority to 99'' r, w2)
        else
          (let (a, w3) = syscall (SchedSetaffinity CPU_CORE_AFFINITY) w2 in
           if a \<noteq> 0 then (False, r_set_error ''Can't stick the process to CPU0'' r, w3)
           else (True, r, w3))))"

text \<open>\<^verbatim>\<open>error_handler_.set_error(x->get_error())\<close> for the timer and for the sender.\<close>

definition take_timer_error :: "'t Timer \<Rightarrow> 't \<Rightarrow> ('t, 's) RealTimeSystem \<Rightarrow> ('t, 's) RealTimeSystem" where
  "take_timer_error T t r =
     (let (msg, t1) = tm_get_error T t in r_set_error msg (r\<lparr>r_timer := Some t1\<rparr>))"

definition take_sender_error :: "'s Sender \<Rightarrow> 's \<Rightarrow> ('t, 's) RealTimeSystem \<Rightarrow> ('t, 's) RealTimeSystem" where
  "take_sender_error S s r =
     (let (msg, s1) = sn_get_error S s in r_set_error msg (r\<lparr>r_sender := Some s1\<rparr>))"

definition adjusted_tolerance :: "uint_fast16 \<Rightarrow> uint_fast16 \<Rightarrow> uint_fast16" where
  "adjusted_tolerance ms_tolerance frequency = min ms_tolerance (1000 div frequency - 5)"

definition RealTimeSystem_initialize ::
  "'t Timer \<Rightarrow> 's Sender \<Rightarrow> ('t, 's) rstate \<Rightarrow> (bool \<times> ('t, 's) rstate) option" where
  "RealTimeSystem_initialize T S = (\<lambda>(r, w).
     if r_user_app_func r = None then Some (False, r_set_error ''Null user Function provided'' r, w)
     else
     case r_timer r of None \<Rightarrow> Some (False, r_set_error ''Null Timer provided'' r, w)
     | Some t \<Rightarrow>
     case r_sender r of None \<Rightarrow> Some (False, r_set_error ''Null Sender provided'' r, w)
     | Some s \<Rightarrow>
     if r_frequency r = 0 then Some (False, r_set_error ''Not provided frequency'' r, w)
     else
     let (converted, r1, w1) = convert_rt_thread (r, w) in
     if \<not> converted then Some (False, r1, w1)
     else
     let (ok, t1) = tm_initialize T t in
     if \<not> ok then Some (False, take_timer_error T t1 r1, w1)
     else
     do { (ok, t2) \<leftarrow> tm_set_frequency T (r_frequency r1) t1;
          if \<not> ok then Some (False, take_timer_error T t2 r1, w1)
          else
          do { (ok, s1, w2) \<leftarrow> sn_initialize S s w1;
               let r2 = r1\<lparr>r_timer := Some t2\<rparr>;
               if \<not> ok then Some (False, take_sender_error S s1 r2, w2)
               else Some (True, r2\<lparr>r_sender := Some s1,
                 r_ms_tolerance := adjusted_tolerance (r_ms_tolerance r2) (r_frequency r2),
                 r_initialized := True\<rparr>, w2) } })"

section \<open>Calling the timer and the sender\<close>

text \<open>The calls through the two pointers; \<open>None\<close> is the call through a null pointer, too.\<close>

definition ask_sender :: "'s Sender \<Rightarrow> ('t, 's) rstate \<Rightarrow> (bool \<times> ('t, 's) rstate) option" where
  "ask_sender S = (\<lambda>(r, w).
     case r_sender r of None \<Rightarrow> None
     | Some s \<Rightarrow> (let (b, s1, w1) = sn_is_send_done S s w in Some (b, r\<lparr>r_sender := Some s1\<rparr>, w1)))"

definition call_send :: "'s Sender \<Rightarrow> ptr \<Rightarrow> ('t, 's) rstate \<Rightarrow> (bool \<times> ('t, 's) rstate) option" where
  "call_send S a = (\<lambda>(r, w).
     do { s \<leftarrow> r_sender r;
          (b, s1, w1) \<leftarrow> sn_send S a s w;
          Some (b, r\<lparr>r_sender := Some s1\<rparr>, w1) })"

definition call_end_sender :: "'s Sender \<Rightarrow> ('t, 's) rstate \<Rightarrow> ('t, 's) rstate option" where
  "call_end_sender S = (\<lambda>(r, w).
     do { s \<leftarrow> r_sender r;
          (_, s1, w1) \<leftarrow> sn_end_sender S s w;
          Some (r\<lparr>r_sender := Some s1\<rparr>, w1) })"

definition call_sleep_to_next_tick :: "'t Timer \<Rightarrow> ('t, 's) rstate \<Rightarrow> (bool \<times> ('t, 's) rstate) option" where
  "call_sleep_to_next_tick T = (\<lambda>(r, w).
     do { t \<leftarrow> r_timer r;
          (b, t1, w1) \<leftarrow> tm_sleep_to_next_tick T t w;
          Some (b, r\<lparr>r_timer := Some t1\<rparr>, w1) })"

section \<open>Sending before the run\<close>

text \<open>
  The loop ``log(n) sleeping'': each round sleeps for half of the time left, plus one
  millisecond. The list is passed by value; \<open>a\<close> is the address of the parameter.
\<close>

function (sequential) halving_wait ::
  "'s Sender \<Rightarrow> uint_fast32 \<Rightarrow> ('t, 's) rstate \<Rightarrow> ('t, 's) rstate option" where
  "halving_wait S time_limit_ms (r, w) =
     (if time_limit_ms \<noteq> 0 then
        let sleeping_time = time_limit_ms div 2 + 1 in
        do { w1 \<leftarrow> milliseconds_sleep sleeping_time w;
             (b, rw2) \<leftarrow> ask_sender S (r, w1);
             if b then Some rw2 else halving_wait S (time_limit_ms - sleeping_time) rw2 }
      else Some (r, w))"
  by pat_completeness auto

lemma halving_time:
  fixes n :: "64 word"
  assumes "n \<noteq> 0"
  shows "unat (n div 2 + 1) = unat n div 2 + 1" and "n div 2 + 1 \<le> n"
    and "unat (n - (n div 2 + 1)) = unat n - (unat n div 2 + 1)"
    and "unat (n - (n div 2 + 1)) < unat n"
proof -
  have pos: "0 < unat n" using assms by (simp add: unat_gt_0)
  have "unat n div 2 + 1 \<le> unat n" using pos by simp
  moreover have "unat n < 2 ^ 64" using unsigned_less [of n] by simp
  ultimately show u: "unat (n div 2 + 1) = unat n div 2 + 1"
    by (subst unat_add_no_wrap) (simp_all add: unat_div)
  show le: "n div 2 + 1 \<le> n" using pos by (simp add: word_le_nat_alt u)
  show "unat (n - (n div 2 + 1)) = unat n - (unat n div 2 + 1)"
    using le by (simp add: unat_sub_no_wrap u)
  with pos show "unat (n - (n div 2 + 1)) < unat n" by simp
qed

termination halving_wait
proof (relation "measure (\<lambda>(_, n, _). unat n)")
  fix S :: "'s Sender" and n :: uint_fast32 and r :: "('t, 's) RealTimeSystem" and w x w1 z b rw2
  assume "n \<noteq> 0" and "x = n div 2 + 1"
  then show "((S, n - x, rw2), S, n, r, w) \<in> measure (\<lambda>(_, n, _). unat n)"
    using halving_time(4) [of n] by simp
qed simp

definition send_before_run ::
  "'s Sender \<Rightarrow> ptr \<Rightarrow> DataPacket list \<Rightarrow> uint_fast32 \<Rightarrow> ('t, 's) rstate \<Rightarrow> (bool \<times> ('t, 's) rstate) option" where
  "send_before_run S a list_of_data time_limit_ms = (\<lambda>(r, w0).
     let w = w0\<lparr>lists := (lists w0)(a := list_of_data)\<rparr> in
     if \<not> r_initialized r then Some (False, r_set_error ''System not initialized yet'' r, w)
     else
       do { (_, rw1) \<leftarrow> call_send S a (r, w);
            rw2 \<leftarrow> halving_wait S time_limit_ms rw1;
            (b, rw3) \<leftarrow> ask_sender S rw2;
            if b then Some (True, rw3)
            else
              do { (r4, w4) \<leftarrow> call_end_sender S rw3;
                   Some (False, (r_set_error ''Sender couldn't send the data in the given time limit'' r4)
                     \<lparr>r_initialized := False\<rparr>, w4) } })"

section \<open>The run\<close>

text \<open>
  The tolerance loop, up to \<open>limit\<close> half milliseconds; it answers how many were used.
\<close>

function (sequential) tolerate ::
  "'s Sender \<Rightarrow> nat \<Rightarrow> nat \<Rightarrow> ('t, 's) rstate \<Rightarrow> (nat \<times> ('t, 's) rstate) option" where
  "tolerate S limit used_tolerated_time (r, w) =
     (if used_tolerated_time < limit then
        do { (b, r1, w1) \<leftarrow> ask_sender S (r, w);
             if b then Some (used_tolerated_time, r1, w1)
             else
               do { w2 \<leftarrow> microseconds_sleep 500 w1;
                    tolerate S limit (used_tolerated_time + 1) (r1, w2) } }
      else Some (used_tolerated_time, r, w))"
  by pat_completeness auto

termination tolerate
  by (relation "measure (\<lambda>(_, limit, used, _). limit - used)") auto

text \<open>How a tick ends: the run returns, or goes on with the two counters.\<close>

datatype tick_result = Return bool | Continue uint_fast32 uint_fast32

definition stop_with_error ::
  "'s Sender \<Rightarrow> string \<Rightarrow> ('t, 's) rstate \<Rightarrow> (tick_result \<times> ('t, 's) rstate) option" where
  "stop_with_error S msg = (\<lambda>(r, w).
     do { rw1 \<leftarrow> call_end_sender S (r_set_error msg r, w); Some (Return False, rw1) })"

definition tick_missed_message :: string where
  "tick_missed_message = ''Failed to return from the sender object in the needed time - this bug related to the sender object not to the size of the payload''"

text \<open>The end of both branches of the loop body.\<close>

definition next_tick ::
  "'t Timer \<Rightarrow> 's Sender \<Rightarrow> uint_fast32 \<Rightarrow> uint_fast32 \<Rightarrow> ('t, 's) rstate \<Rightarrow>
   (tick_result \<times> ('t, 's) rstate) option" where
  "next_tick T S sequence_number skipped_count rw =
     do { (ok, rw1) \<leftarrow> call_sleep_to_next_tick T rw;
          if \<not> ok then stop_with_error S tick_missed_message rw1
          else Some (Continue sequence_number skipped_count, rw1) }"

definition skipped_tick ::
  "'t Timer \<Rightarrow> 's Sender \<Rightarrow> user_fn \<Rightarrow> ptr \<Rightarrow> uint_fast32 \<Rightarrow> uint_fast32 \<Rightarrow> nat \<Rightarrow> ('t, 's) rstate \<Rightarrow>
   (tick_result \<times> ('t, 's) rstate) option" where
  "skipped_tick T S f a sequence_number skipped_count used = (\<lambda>(r, w).
     let user_info = RealTimeInfo_ctor sequence_number True (of_nat (used div 2)) False;
         (user_info, w1) = call_user f a user_info w in
     if is_system_stopped user_info then
       do { rw2 \<leftarrow> call_end_sender S (r, w1); Some (Return True, rw2) }
     else next_tick T S sequence_number (skipped_count + 1) (r, w1))"

definition sending_tick ::
  "'t Timer \<Rightarrow> 's Sender \<Rightarrow> user_fn \<Rightarrow> ptr \<Rightarrow> uint_fast32 \<Rightarrow> nat \<Rightarrow> ('t, 's) rstate \<Rightarrow>
   (tick_result \<times> ('t, 's) rstate) option" where
  "sending_tick T S f a sequence_number used = (\<lambda>(r, w).
     let user_info = RealTimeInfo_ctor sequence_number False (of_nat used) False;
         (user_info, w1) = call_user f a user_info w in
     if is_system_stopped user_info then
       do { rw2 \<leftarrow> call_end_sender S (r, w1); Some (Return True, rw2) }
     else
       do { (sent, r2, w2) \<leftarrow> call_send S a (r, w1);
            if \<not> sent then
              do { s \<leftarrow> r_sender r2;
                   rw3 \<leftarrow> call_end_sender S (take_sender_error S s r2, w2);
                   Some (Return False, rw3) }
            else next_tick T S sequence_number 0 (r2, w2) })"

definition run_tick ::
  "'t Timer \<Rightarrow> 's Sender \<Rightarrow> ptr \<Rightarrow> uint_fast32 \<Rightarrow> uint_fast32 \<Rightarrow> ('t, 's) rstate \<Rightarrow>
   (tick_result \<times> ('t, 's) rstate) option" where
  "run_tick T S a sequence_number0 skipped_count = (\<lambda>(r, w).
     let sequence_number = sequence_number0 + 1 in
     if skipped_count = r_frequency r * 3 then stop_with_error S ''The client disconnected.'' (r, w)
     else
       do { (used, rw1) \<leftarrow> tolerate S (unat (r_ms_tolerance r * 2)) 0 (r, w);
            (done1, rw2) \<leftarrow> ask_sender S rw1;
            if \<not> done1 \<and> \<not> r_allow_skip_mode r then
              stop_with_error S ''Failed to send the data in the required time'' rw2
            else
              do { (done2, rw3) \<leftarrow> ask_sender S rw2;
                   f \<leftarrow> r_user_app_func r;
                   if \<not> done2 \<and> r_allow_skip_mode r then
                     skipped_tick T S f a sequence_number skipped_count used rw3
                   else sending_tick T S f a sequence_number used rw3 } })"

partial_function (option) run_loop ::
  "'t Timer \<Rightarrow> 's Sender \<Rightarrow> ptr \<Rightarrow> uint_fast32 \<Rightarrow> uint_fast32 \<Rightarrow> ('t, 's) rstate \<Rightarrow>
   (bool \<times> ('t, 's) rstate) option" where [code]:
  "run_loop T S a sequence_number skipped_count rw =
     do { (res, rw1) \<leftarrow> run_tick T S a sequence_number skipped_count rw;
          case res of
            Return b \<Rightarrow> Some (b, rw1)
          | Continue sequence_number' skipped_count' \<Rightarrow>
              run_loop T S a sequence_number' skipped_count' rw1 }"

text \<open>\<open>a\<close> is the address of the local \<^verbatim>\<open>user_packets_list\<close>.\<close>

definition run :: "'t Timer \<Rightarrow> 's Sender \<Rightarrow> ptr \<Rightarrow> ('t, 's) rstate \<Rightarrow> (bool \<times> ('t, 's) rstate) option" where
  "run T S a = (\<lambda>(r, w).
     if \<not> r_initialized r then Some (False, r_set_error ''System not initialized yet.'' r, w)
     else
       do { t \<leftarrow> r_timer r;
            let (started, t1, w1) = tm_start_timer T t w;
            let r1 = r\<lparr>r_initialized := False, r_timer := Some t1\<rparr>;
            if \<not> started then Some (False, take_timer_error T t1 r1, w1)
            else run_loop T S a (-1) 0 (r1, w1\<lparr>lists := (lists w1)(a := [])\<rparr>) })"

definition RealTimeSystem_get_error :: "('t, 's) RealTimeSystem \<Rightarrow> string \<times> ('t, 's) RealTimeSystem" where
  "RealTimeSystem_get_error r =
     (Error_get_error (r_error_handler r),
      r\<lparr>r_error_handler := Error_clear_error (r_error_handler r)\<rparr>)"

definition RealTimeSystem_is_error :: "('t, 's) RealTimeSystem \<Rightarrow> bool" where
  "RealTimeSystem_is_error r = Error_is_error (r_error_handler r)"

interpretation rts_errors: error_source r_error_handler RealTimeSystem_get_error RealTimeSystem_is_error
  by unfold_locales (simp_all add: RealTimeSystem_get_error_def RealTimeSystem_is_error_def)

end
