(* ===== verification/Sender_Calls.thy ===== *)
theory Sender_Calls
  imports Sender_Invariants
begin

text \<open>
  The methods of the senders, inside the contract of the worker thread: what each call returns, in
  which phase it leaves the thread, and that the invariant of the object holds again.
\<close>

text \<open>What \<^verbatim>\<open>end_sender\<close> leaves behind.\<close>

definition ended :: "('e, 'm) SenderObj \<Rightarrow> bool" where
  "ended s \<longleftrightarrow> \<not> s_initialized s \<and> is_terminated_thread (s_shared_data s) \<and>
     s_server_sock_fd s = -1 \<and> s_client_sock_fd s = -1 \<and>
     (\<forall>t. s_worker_thread s = Some t \<longrightarrow> w_pc t = W_Unwind \<or> w_pc t = W_Exited)"

context sender_thread
begin

section \<open>The hand-over\<close>

lemma own_update:
  assumes "own d t"
  shows "own (d\<lparr>packets_mutex := m\<rparr>) t" "own (d\<lparr>is_done := False\<rparr>) t" "own (d\<lparr>packets_cond := b\<rparr>) t"
    "own (d\<lparr>packets_list := l\<rparr>) t" "own (d\<lparr>terminate_thread := b\<rparr>) t"
  by (rule own_shared [OF assms]; simp)+

lemma wf_update:
  assumes "wf d t" and "packets_mutex d \<noteq> Some WorkerThread"
  shows "m \<noteq> Some WorkerThread \<Longrightarrow> wf (d\<lparr>packets_mutex := m\<rparr>) t"
    and "wf (d\<lparr>is_done := False\<rparr>) t" and "wf (d\<lparr>packets_cond := False\<rparr>) t"
    and "wf (d\<lparr>packets_list := l\<rparr>) t"
proof -
  have "\<not> critical (w_pc t)" using assms by (auto simp: thread_wf_def worker_inv_def lock_inv_def)
  then have "w_pc t \<noteq> W_Copy" by auto
  then show "m \<noteq> Some WorkerThread \<Longrightarrow> wf (d\<lparr>packets_mutex := m\<rparr>) t"
    "wf (d\<lparr>is_done := False\<rparr>) t" "wf (d\<lparr>packets_cond := False\<rparr>) t" "wf (d\<lparr>packets_list := l\<rparr>) t"
    using assms by (simp_all add: thread_wf_def worker_inv_def lock_inv_def life_inv_def own_update)
qed

lemma wf_terminate: "wf d t \<Longrightarrow> wf (d\<lparr>terminate_thread := True\<rparr>) t"
  by (simp add: thread_wf_def worker_inv_def lock_inv_def life_inv_def own_update)

lemma hand_over_idle:
  assumes "hand_over k (Some a) (s, w) = Some (g, s', w')" and "threaded s0 (idle e i v) s w"
  shows "threaded s0 (delivering e i v a) s' w' \<and> \<not> is_locked g"
proof -
  obtain g1 s1 w1 where l: "main_lock k MutexRAII_ctor (s, w) = Some (g1, s1, w1)"
    and u: "main_unlock k g1 (shared_write k pthread_cond_signal (shared_write k clear_is_done
      (shared_write k (set_packets_list (Some a)) (s1, w1)))) = (g, s', w')"
    using assms(1) by (auto simp: hand_over_def bind_eq_Some_conv)
  obtain s2 w2 where w2: "shared_write k (set_packets_list (Some a)) (s1, w1) = (s2, w2)"
    by (cases "shared_write k (set_packets_list (Some a)) (s1, w1)")
  obtain s3 w3 where w3: "shared_write k clear_is_done (s2, w2) = (s3, w3)"
    by (cases "shared_write k clear_is_done (s2, w2)")
  obtain s4 w4 where w4: "shared_write k pthread_cond_signal (s3, w3) = (s4, w4)"
    by (cases "shared_write k pthread_cond_signal (s3, w3)")
  have 1: "threaded s0 (held_idle e i v None True) s1 w1 \<and> is_locked g1"
    by (rule lock_threaded [OF l stable_idle]) (use assms(2) in \<open>auto simp: phase_defs handover_inv_def intro: wf_update\<close>)
  then have 2: "threaded s0 (held_idle e i v (Some a) True) s2 w2"
    by (intro write_threaded [OF stable_held_idle _ w2])
      (auto simp: phase_defs set_packets_list_def intro: wf_update)
  then have 3: "threaded s0 (held_idle e i v (Some a) False) s3 w3"
    by (intro write_threaded [OF stable_held_idle _ w3])
      (auto simp: phase_defs clear_is_done_def intro: wf_update)
  then have 4: "threaded s0 (held_idle e i v (Some a) False) s4 w4"
    by (intro write_threaded [OF stable_held_idle _ w4])
      (auto simp: phase_defs pthread_cond_signal_def intro: wf_update)
  from u w2 w3 w4 have u': "main_unlock k g1 (s4, w4) = (g, s', w')" by simp
  show ?thesis
    by (rule unlock_threaded [OF stable_held_idle 4 u'])
      (use 1 in \<open>auto simp: phase_defs delivery_def partly_def busy_def around_def thread_frameD intro: wf_update\<close>)
qed

lemma ranked_update:
  assumes "ranked r n P d t w" and "P d t w \<Longrightarrow> P' d' t w"
    and "packets_list d' = None \<or> packets_list d' = packets_list d"
  shows "ranked r n P' d' t w"
  using assms by (auto simp: ranked_def worker_rank_def)

lemma hand_over_ranked:
  assumes "hand_over k None (s, w) = Some (g, s', w')" and "threaded s0 (ranked r n (resting True i v)) s w"
  shows "threaded s0 (ranked r n (leaving i v)) s' w' \<and> \<not> is_locked g"
proof -
  obtain g1 s1 w1 where l: "main_lock k MutexRAII_ctor (s, w) = Some (g1, s1, w1)"
    and u: "main_unlock k g1 (shared_write k pthread_cond_signal (shared_write k clear_is_done
      (shared_write k (set_packets_list None) (s1, w1)))) = (g, s', w')"
    using assms(1) by (auto simp: hand_over_def bind_eq_Some_conv)
  obtain s2 w2 where w2: "shared_write k (set_packets_list None) (s1, w1) = (s2, w2)"
    by (cases "shared_write k (set_packets_list None) (s1, w1)")
  obtain s3 w3 where w3: "shared_write k clear_is_done (s2, w2) = (s3, w3)"
    by (cases "shared_write k clear_is_done (s2, w2)")
  obtain s4 w4 where w4: "shared_write k pthread_cond_signal (s3, w3) = (s4, w4)"
    by (cases "shared_write k pthread_cond_signal (s3, w3)")
  have 1: "threaded s0 (ranked r n (held_ending i v False False)) s1 w1 \<and> is_locked g1"
    by (rule lock_threaded [OF l stable_ranked_resting], use assms(2) in simp, erule ranked_update)
      (auto simp: phase_defs handover_inv_def intro: wf_update)
  then have 2: "threaded s0 (ranked r n (held_ending i v True False)) s2 w2"
    by (elim conjE write_threaded [OF stable_ranked_held _ w2], erule_tac ranked_update)
      (auto simp: phase_defs set_packets_list_def handover_inv_def intro: wf_update)
  then have 3: "threaded s0 (ranked r n (held_ending i v True False)) s3 w3"
    by (elim write_threaded [OF stable_ranked_held _ w3], erule_tac ranked_update)
      (auto simp: phase_defs clear_is_done_def handover_inv_def intro: wf_update)
  then have 4: "threaded s0 (ranked r n (held_ending i v True True)) s4 w4"
    by (elim write_threaded [OF stable_ranked_held _ w4], erule_tac ranked_update)
      (auto simp: phase_defs pthread_cond_signal_def handover_inv_def intro: wf_update)
  from u w2 w3 w4 have u': "main_unlock k g1 (s4, w4) = (g, s', w')" by simp
  have "leaving i v (d\<lparr>packets_mutex := None\<rparr>) t w" if p: "held_ending i v True True d t w" for d t w
  proof -
    have "w_pc t \<noteq> W_Wait" using p by (auto simp: phase_defs thread_wf_def worker_inv_def lock_inv_def)
    with p show ?thesis
      by (auto simp: phase_defs ending_def handover_inv_def around_def intro: wf_update)
  qed
  then have "ranked r n (leaving i v) (d\<lparr>packets_mutex := None\<rparr>) t w"
    if "ranked r n (held_ending i v True True) d t w" for d t w
    using ranked_update [OF that] by simp
  then show ?thesis by (intro unlock_threaded [OF stable_ranked_held 4 u']) (use 1 in simp_all)
qed

lemma threaded_ranked:
  assumes "threaded s0 P s w"
  obtains r where "threaded s0 (ranked r (reads w) P) s w"
proof -
  from assms obtain d t where s: "s = s0\<lparr>s_worker_thread := Some t, s_shared_data := d\<rparr>" and "P d t w"
    by (rule threadedE)
  then have "ranked (worker_rank (extra t) d t w) (reads w) P d t w" by (simp add: ranked_def)
  with s that show thesis by (auto intro!: threadedI(1))
qed

lemma ranked_threaded: "threaded s0 (ranked r n P) s w \<Longrightarrow> threaded s0 P s w"
  by (auto simp: ranked_def intro!: threadedI(1))

lemma hand_over_ending:
  assumes "hand_over k None (s, w) = Some (g, s', w')" and "threaded s0 (resting True i v) s w"
  shows "threaded s0 (leaving i v) s' w' \<and> \<not> is_locked g"
proof -
  from assms(2) obtain r where "threaded s0 (ranked r (reads w) (resting True i v)) s w" by (rule threaded_ranked)
  from hand_over_ranked [OF assms(1) this] show ?thesis using ranked_threaded by blast
qed

section \<open>From the invariant to the phases and back\<close>

abbreviation inv :: "('e, 'm) SenderObj \<Rightarrow> bool" where
  "inv \<equiv> sender_inv own code no_error"

lemma threaded_here:
  assumes "s_worker_thread s = Some t" and "P (s_shared_data s) t w"
  shows "threaded s P s w"
proof -
  have "s = s\<lparr>s_worker_thread := Some t, s_shared_data := s_shared_data s\<rparr>" using assms(1) by simp
  with threadedI(1) [where P = P, OF assms(2)] show ?thesis by metis
qed

lemma inv_resting:
  assumes "inv s" and "s_worker_thread s = Some t0"
  shows "threaded s (resting (terminate_thread (s_shared_data s)) True w) s w"
  using assms by (intro threaded_here) (auto simp: sender_inv_def resting_def around_def Let_def)

lemma threaded_mono:
  assumes "threaded s0 P s w" and "\<And>d t w. P d t w \<Longrightarrow> P' d t w"
  shows "threaded s0 P' s w"
  using assms by (auto intro!: threadedI(1))

lemma threaded_same:
  assumes "threaded s0 P s w"
  shows "s_initialized s = s_initialized s0" "s_server_sock_fd s = s_server_sock_fd s0"
    "s_client_sock_fd s = s_client_sock_fd s0" "s_error_handler s = s_error_handler s0"
    "s_port s = s_port s0" "\<exists>t. s_worker_thread s = Some t \<and> P (s_shared_data s) t w"
  using assms by auto

lemma life_terminated:
  assumes "wf d t" and "thread_initialized d"
  shows "is_terminated_thread d \<longleftrightarrow> w_pc t = W_Unwind \<or> w_pc t = W_Exited"
  using assms by (auto simp: thread_wf_def worker_inv_def life_inv_def)

lemma inv_ended:
  assumes "threaded s0 P s w" and "\<not> s_initialized s0"
    and "\<And>d t w. P d t w \<Longrightarrow> wf d t \<and> handover_inv d t \<and> packets_mutex d \<noteq> Some MainThread \<and>
      thread_initialized d \<and> dead (w_pc t) \<and> w_pc t \<noteq> W_ExitFlag"
  shows "inv s"
proof -
  from assms(1) obtain d t where s: "s = s0\<lparr>s_worker_thread := Some t, s_shared_data := d\<rparr>"
    and p: "P d t w" by (rule threadedE)
  note a = assms(3) [OF p]
  then have "is_terminated_thread d" using life_terminated [of d t] by (cases "w_pc t") auto
  with a s assms(2) show ?thesis by (simp add: sender_inv_def)
qed

lemma sleep_resting: "resting e i v d t w \<Longrightarrow> milliseconds_sleep ms w = Some w' \<Longrightarrow> resting e i v d t w'"
  using nanoseconds_sleep_slept thread_frame_slept thread_frame_trans
  unfolding resting_def around_def milliseconds_sleep_def by blast

lemma sleep_leaving: "leaving i v d t w \<Longrightarrow> milliseconds_sleep ms w = Some w' \<Longrightarrow> leaving i v d t w'"
  using sleep_resting unfolding leaving_def by blast

lemma sleep_idle: "idle e i v d t w \<Longrightarrow> milliseconds_sleep ms w = Some w' \<Longrightarrow> idle e i v d t w'"
  using sleep_resting nanoseconds_sleep_slept [THEN exE [of _ "wire w' = wire w"]] sleptD(6)
  unfolding idle_def milliseconds_sleep_def by metis

section \<open>Ending\<close>

lemma end_thread_result:
  assumes "end_thread k (s, w) = Some (s', w')" and "threaded s0 (resting e i v) s w"
  shows "threaded s0 (leaving i v) s' w' \<and> is_terminated_thread (s_shared_data s')"
proof -
  obtain s1 w1 where w1: "shared_write k set_terminate_thread (s, w) = (s1, w1)"
    by (cases "shared_write k set_terminate_thread (s, w)")
  with assms(1) obtain g s2 w2 s3 w3 where h: "hand_over k None (s1, w1) = Some (g, s2, w2)"
    and a: "await k is_terminated_thread 50 (s2, w2) = Some (s3, w3)"
    and r: "(s', w') = main_guard_dtor g (s3, w3)"
    by (auto simp: end_thread_def bind_eq_Some_conv)
  have "threaded s0 (resting True i v) s1 w1"
    by (rule write_threaded [OF stable_resting assms(2) w1])
      (auto simp: resting_def set_terminate_thread_def handover_inv_def around_def intro: wf_terminate)
  from hand_over_ending [OF h this] have 2: "threaded s0 (leaving i v) s2 w2" and g: "\<not> is_locked g" by auto
  have "threaded s0 (leaving i v) s3 w3 \<and> is_terminated_thread (s_shared_data s3)"
    by (rule await_threaded [OF a stable_leaving]) (use 2 sleep_leaving in auto)
  with r g show ?thesis by simp
qed

lemma close_result:
  "close_client (close_server (s, w)) = (s', w') \<Longrightarrow>
   s' = s\<lparr>s_server_sock_fd := -1, s_client_sock_fd := -1\<rparr> \<and> thread_frame w w' \<and> wire w' = wire w"
  by (auto simp: close_client_def close_server_def shutdown_close_def syscall_def thread_frame_def
      split: if_splits)

lemma interfere_no_thread:
  assumes "s_worker_thread s = None"
  shows "interfere k (s, w) = (s, w\<lparr>turns := Suc (turns w)\<rparr>)"
  using assms by (simp add: interfere_def run_worker_def)

text \<open>
  Up to the closing of the sockets: the object has no running thread, and its invariant holds.
\<close>

lemma end_running_result:
  assumes "inv s" and "shared_read k is_terminated_thread (s\<lparr>s_initialized := False\<rparr>, w) = (b, s1, w1)"
    and "(if \<not> b then end_thread k (s1, w1) else Some (s1, w1)) = Some (s2, w2)"
  shows "\<exists>d th. s2 = s\<lparr>s_initialized := False, s_worker_thread := th, s_shared_data := d\<rparr> \<and>
    inv s2 \<and> is_terminated_thread d \<and> thread_frame w w2 \<and>
    (\<forall>t. th = Some t \<longrightarrow> w_pc t = W_Unwind \<or> w_pc t = W_Exited)"
proof (cases "s_worker_thread s")
  case None
  then have "s_worker_thread (s\<lparr>s_initialized := False\<rparr>) = None" by simp
  note i = interfere_no_thread [OF this, of w]
  from assms(1) None have t: "is_terminated_thread (s_shared_data s)" by (simp add: sender_inv_def Let_def)
  with i assms(2,3) have "s2 = s\<lparr>s_initialized := False\<rparr>" "w2 = w\<lparr>turns := Suc (turns w)\<rparr>"
    by (auto simp: shared_read_def)
  with t assms(1) None show ?thesis
    by (intro exI [of _ "s_shared_data s"] exI [of _ None]) (simp add: sender_inv_def Let_def)
next
  case (Some t)
  let ?s = "s\<lparr>s_initialized := False\<rparr>" and ?e = "terminate_thread (s_shared_data s)"
  have "resting ?e True w (s_shared_data s) t w"
    using assms(1) Some by (simp add: sender_inv_def resting_def around_def Let_def)
  moreover have "?s = ?s\<lparr>s_worker_thread := Some t, s_shared_data := s_shared_data s\<rparr>" using Some by simp
  ultimately have 0: "threaded ?s (resting ?e True w) ?s w" using threadedI(1) by metis
  note r = read_threaded [OF stable_resting 0 assms(2)]
  have "\<exists>e. threaded ?s (resting e True w) s2 w2 \<and> is_terminated_thread (s_shared_data s2)"
  proof (cases b)
    case True
    with r assms(3) show ?thesis by auto
  next
    case False
    with assms(3) have "end_thread k (s1, w1) = Some (s2, w2)" by simp
    from end_thread_result [OF this r(1)] show ?thesis
      using threaded_mono [of ?s "leaving True w" s2 w2 "resting True True w"] by (auto simp: leaving_def)
  qed
  then obtain e d th where p: "s2 = ?s\<lparr>s_worker_thread := Some th, s_shared_data := d\<rparr>"
    "resting e True w d th w2" "is_terminated_thread d" by auto
  then have "thread_initialized d" "wf d th" "thread_frame w w2" by (auto simp: resting_def around_def)
  with p life_terminated [of d th] show ?thesis
    by (auto simp: sender_inv_def resting_def Let_def intro!: exI [of _ d] exI [of _ "Some th"])
qed

lemma end_sender_result:
  assumes "end_sender k (s, w) = Some (r, s', w')" and "inv s"
  shows "r \<and> inv s' \<and> ended s' \<and> s_error_handler s' = s_error_handler s \<and> s_port s' = s_port s \<and>
    thread_frame w w'"
proof -
  obtain b s1 w1 where b: "shared_read k is_terminated_thread (s\<lparr>s_initialized := False\<rparr>, w) = (b, s1, w1)"
    by (cases "shared_read k is_terminated_thread (s\<lparr>s_initialized := False\<rparr>, w)")
  with assms(1) obtain s2 w2 where e: "(if \<not> b then end_thread k (s1, w1) else Some (s1, w1)) = Some (s2, w2)"
    and r: "r" "close_client (close_server (s2, w2)) = (s', w')"
    by (auto simp: end_sender_def bind_eq_Some_conv split: if_splits)
  from end_running_result [OF assms(2) b e] obtain d th
    where s2: "s2 = s\<lparr>s_initialized := False, s_worker_thread := th, s_shared_data := d\<rparr>"
      and p: "inv s2" "is_terminated_thread d" "thread_frame w w2"
        "\<forall>t. th = Some t \<longrightarrow> w_pc t = W_Unwind \<or> w_pc t = W_Exited" by blast
  note c = close_result [OF r(2)]
  have "inv s'" using p(1) c by (auto simp: sender_inv_def Let_def split: option.splits)
  with r(1) c s2 p thread_frame_trans [OF p(3)] show ?thesis by (auto simp: ended_def)
qed

section \<open>Sending\<close>

text \<open>
  The state after a successful \<^verbatim>\<open>send\<close> of the list at \<open>a\<close>: the list is on its way, on top of
  what was on the wire.
\<close>

lemma sent_inv:
  assumes "threaded s0 (delivering False True v a) s w" and "s_initialized s0"
  shows "inv s"
  using assms delivery_handover by (fastforce simp: sender_inv_def delivering_def around_def Let_def)

lemma resting_inv:
  assumes "threaded s0 (resting False True v) s w" and "s_initialized s0"
  shows "inv s"
  using assms by (auto simp: sender_inv_def resting_def around_def Let_def)

lemma set_error_inv [simp]: "inv (set_error m s) = inv s"
  by (auto simp: sender_inv_def set_error_def Let_def split: option.splits)

lemma set_error_simps [simp]:
  "s_initialized (set_error m s) = s_initialized s"
  "Error_get_error (s_error_handler (set_error m s)) = m"
  "Error_is_error (s_error_handler (set_error m s))"
  "s_worker_thread (set_error m s) = s_worker_thread s"
  "s_shared_data (set_error m s) = s_shared_data s" "s_port (set_error m s) = s_port s"
  "s_client_sock_fd (set_error m s) = s_client_sock_fd s" "s_server_sock_fd (set_error m s) = s_server_sock_fd s"
  by (simp_all add: set_error_def)

text \<open>A thread that is gone keeps the error it reported.\<close>

definition gone :: "bool \<Rightarrow> os \<Rightarrow> bool \<Rightarrow> SenderWorkerData \<Rightarrow> ('e, 'm) Worker_scheme \<Rightarrow> os \<Rightarrow> bool" where
  "gone e v x d t w \<longleftrightarrow>
     resting e True v d t w \<and> dead (w_pc t) \<and> w_pc t \<noteq> W_ExitFlag \<and> (x \<longrightarrow> is_error d)"

lemma stable_gone: "stable k (threaded s0 (gone e v x))"
proof (rule stable_threaded)
  fix d t w d' t' w'
  assume st: "k_step k (d, t, w) = (d', t', w')" and p: "gone e v x d t w"
  have nb: "is_done d \<longrightarrow> \<not> busy (w_pc t)" using p by (auto simp: gone_def resting_def handover_inv_def)
  from p dead_stays [OF st] show "gone e v x d' t' w'"
    unfolding gone_def phase_defs using step_wf [OF st _ nb] step_around [OF st] keeps_handover [OF st]
      never_main [OF st] wf_worker by auto
qed (simp add: gone_def phase_defs)

lemma gone_code:
  assumes "threaded s0 (gone False v True) s w"
  shows "k_error_message k (error_code (s_shared_data s)) \<noteq> ''Unknown error in sender worker thread.''"
proof -
  from assms obtain d t where "s = s0\<lparr>s_worker_thread := Some t, s_shared_data := d\<rparr>"
    "gone False v True d t w" by (rule threadedE)
  then have "exit_inv code no_error (s_shared_data s) t" "dead (w_pc t)" "is_error (s_shared_data s)"
    by (simp_all add: gone_def resting_def thread_wf_def)
  then have "error_code (s_shared_data s) \<in> code ` (- {no_error})"
    by (cases "w_pc t") (auto simp: exit_inv_def)
  then show ?thesis using known_codes by auto
qed

lemma resting_frame: "threaded s0 (resting e i v) s w \<Longrightarrow> thread_frame v w"
  by (auto simp: resting_def around_def)

lemma send_result:
  assumes "send k a (s, w) = Some (r, s', w')" and "inv s"
  shows "inv s' \<and> thread_frame w w' \<and> s_initialized s' = s_initialized s \<and>
    (if r then s_initialized s \<and> (\<exists>v. thread_frame w v \<and> (is_done (s_shared_data s) \<longrightarrow> wire v = wire w) \<and>
       threaded s (delivering False True v a) s' w')
     else Error_is_error (s_error_handler s') \<and>
       Error_get_error (s_error_handler s') \<noteq> ''Unknown error in sender worker thread.'')"
proof (cases "s_initialized s")
  case False
  with assms show ?thesis by (auto simp: send_def)
next
  case init: True
  with assms(2) obtain t0 where t0: "s_worker_thread s = Some t0" "\<not> terminate_thread (s_shared_data s)"
    by (auto simp: sender_inv_def Let_def split: option.splits)
  with inv_resting [OF assms(2) t0(1)] have 0: "threaded s (resting False True w) s w" by simp
  obtain b s1 w1 where b: "shared_read k is_terminated_thread (s, w) = (b, s1, w1)"
    by (cases "shared_read k is_terminated_thread (s, w)")
  note r1 = read_threaded [OF stable_resting 0 b]
  show ?thesis
  proof (cases b)
    case b': True
    with r1 have "threaded s (gone False w False) s1 w1"
      by (auto simp: gone_def resting_def around_def life_terminated intro!: threadedI(1))
    note g1 = this
    obtain err s2 w2 where e: "shared_read k is_error (s1, w1) = (err, s2, w2)"
      by (cases "shared_read k is_error (s1, w1)")
    note r2 = read_threaded [OF stable_gone g1 e]
    have fr2: "thread_frame w w2" "inv s2" "s_initialized s2"
      using r2(1) init resting_inv [of s w s2 w2] threaded_mono [OF r2(1), of "resting False True w"]
      by (auto simp: gone_def resting_def around_def)
    show ?thesis
    proof (cases err)
      case False
      with assms(1) init b b' e fr2 show ?thesis by (auto simp: send_def)
    next
      case True
      with r2 have g2: "threaded s (gone False w True) s2 w2" by (auto simp: gone_def intro!: threadedI(1))
      obtain c s3 w3 where c: "shared_read k error_code (s2, w2) = (c, s3, w3)"
        by (cases "shared_read k error_code (s2, w2)")
      note r3 = read_threaded [OF stable_gone g2 c]
      have fr3: "thread_frame w w3" "inv s3" "s_initialized s3"
        using r3(1) init resting_inv [of s w s3 w3] threaded_mono [OF r3(1), of "resting False True w"]
        by (auto simp: gone_def resting_def around_def)
      from assms(1) init b b' e True c fr3 gone_code [OF r3(1)] r3(2) show ?thesis
        by (auto simp: send_def)
    qed
  next
    case b': False
    obtain f s2 w2 where f: "shared_read k is_done (s1, w1) = (f, s2, w2)"
      by (cases "shared_read k is_done (s1, w1)")
    note r2 = read_threaded [OF stable_resting r1(1) f]
    show ?thesis
    proof (cases f)
      case False
      with assms(1) init b b' f resting_frame [OF r2(1)] resting_inv [OF r2(1) init] threaded_same(1) [OF r2(1)]
      show ?thesis by (auto simp: send_def)
    next
      case True
      with assms(1) init b b' f obtain g sw where h: "hand_over k (Some a) (s2, w2) = Some (g, sw)"
        and r: "r" "(s', w') = main_guard_dtor g sw"
        by (auto simp: send_def bind_eq_Some_conv)
      obtain s3 w3 where sw: "sw = (s3, w3)" by (cases sw)
      have fin: "is_done (s_shared_data s2)" using r2(2) True by simp
      have "threaded s (idle False True w2) s2 w2"
        using r2(1) fin by (auto simp: idle_def resting_def around_def intro!: threadedI(1))
      from hand_over_idle [OF h [unfolded sw] this] have d: "threaded s (delivering False True w2 a) s3 w3"
        and g: "\<not> is_locked g" by auto
      from r(2) sw g have eq: "s' = s3" "w' = w3" by simp_all
      have "wire w2 = wire w" if "is_done (s_shared_data s)"
      proof -
        have "threaded s (idle False True w) s w"
          using threaded_same(6) [OF 0] that by (auto simp: idle_def intro!: threaded_here)
        from read_threaded(1) [OF stable_idle this b] have "threaded s (idle False True w) s1 w1" .
        from read_threaded(1) [OF stable_idle this f] show ?thesis by (auto simp: idle_def)
      qed
      moreover have "thread_frame w2 w3" using d by (auto simp: delivering_def around_def)
      ultimately show ?thesis
        using r(1) eq d init sent_inv [OF d init] threaded_same(1) [OF d]
          resting_frame [OF r2(1)] thread_frame_trans by auto
    qed
  qed
qed

section \<open>Asking whether the list is sent\<close>

lemma is_send_done_result:
  assumes "is_send_done k (s, w) = (b, s', w')" and "inv s"
  shows "inv s' \<and> thread_frame w w' \<and> b = is_done (s_shared_data s') \<and>
    (\<exists>th d. s' = s\<lparr>s_worker_thread := th, s_shared_data := d\<rparr>)"
proof (cases "s_worker_thread s")
  case None
  from interfere_no_thread [OF None, of w] assms None show ?thesis
    by (auto simp: is_send_done_def shared_read_def intro!: exI [of _ None] exI [of _ "s_shared_data s"])
next
  case (Some t)
  from assms(1) have r: "shared_read k is_done (s, w) = (b, s', w')" by (simp add: is_send_done_def)
  note t = read_threaded [OF stable_resting inv_resting [OF assms(2) Some] r]
  have "thread_frame w w'" by (rule resting_frame [OF t(1)])
  moreover have "s_initialized s \<Longrightarrow> inv s'"
    using t(1) assms(2) Some by (auto simp: sender_inv_def resting_def around_def Let_def)
  moreover have "inv s'" if n: "\<not> s_initialized s"
  proof -
    let ?e = "terminate_thread (s_shared_data s)"
    have "is_terminated_thread (s_shared_data s)" using assms(2) Some n by (simp add: sender_inv_def Let_def)
    with assms(2) Some have "threaded s (gone ?e w False) s w"
      by (intro threaded_here) (auto simp: sender_inv_def gone_def resting_def around_def Let_def life_terminated)
    from read_threaded(1) [OF stable_gone this r] have "threaded s (gone ?e w False) s' w'" .
    then show ?thesis
      by (rule inv_ended) (use n in \<open>auto simp: gone_def resting_def around_def\<close>)
  qed
  ultimately show ?thesis using t by (auto intro!: exI)
qed

lemma sleep_around: "around e i v d w \<Longrightarrow> milliseconds_sleep ms w = Some w' \<Longrightarrow> around e i v d w'"
  using nanoseconds_sleep_slept thread_frame_slept thread_frame_trans
  unfolding around_def milliseconds_sleep_def by blast

lemma sleep_delivering:
  assumes "delivering e i v a d t w" and "milliseconds_sleep ms w = Some w'"
  shows "delivering e i v a d t w'"
proof -
  obtain naps where "slept w naps w'"
    using assms(2) nanoseconds_sleep_slept unfolding milliseconds_sleep_def by blast
  with assms sleep_around [OF _ assms(2)] show ?thesis by (auto simp: delivering_def delivery_slept)
qed

text \<open>When the flag says done, exactly the bytes of the list are on the wire after what was there.\<close>

lemma delivered_when_done:
  assumes "threaded s0 (delivering e i v a) s w" and "is_send_done k (s, w) = (b, s', w')"
  shows "threaded s0 (delivering e i v a) s' w'"
    and "b \<Longrightarrow> wire w' = wire v @ payload v (lists v a)"
proof -
  from assms(2) have r: "shared_read k is_done (s, w) = (b, s', w')" by (simp add: is_send_done_def)
  note t = read_threaded [OF stable_delivering assms(1) r]
  then show "threaded s0 (delivering e i v a) s' w'" by blast
  assume b
  with t show "wire w' = wire v @ payload v (lists v a)"
    by (auto simp: delivering_def delivery_def around_def thread_frameD)
qed

text \<open>At any time, the beginning of the list is on the wire.\<close>

lemma delivering_partly:
  assumes "threaded s0 (delivering e i v a) s w"
  shows "prefix (wire v) (wire w) \<and> prefix (wire w) (wire v @ payload v (lists v a))"
proof -
  from assms obtain d t where p: "wf d t" "around e i v d w" "delivery (wire v) (lists v a) a d t w"
    by (auto simp: delivering_def)
  have "partly (wire v) (lists v a) w"
  proof (cases "sending (w_pc t) \<or> all_sent (w_pc t)")
    case True
    with p(3) have "on_wire (wire v) (lists v a) t w" by (auto simp: delivery_def busy_def split: if_splits)
    with True p(1) show ?thesis by (auto simp: thread_wf_def worker_inv_def intro: on_wire_partly)
  next
    case False
    with p(3) show ?thesis by (auto simp: delivery_def partly_def split: if_splits)
  qed
  with p(2) show ?thesis using thread_frameD(7) [of v w] by (simp add: partly_def around_def)
qed

lemma poll_done_delivering:
  assumes "threaded s0 (delivering e i v a) s w" and "poll_done k naps (s, w) = Some (b, s', w')"
  shows "threaded s0 (delivering e i v a) s' w' \<and> (b \<longrightarrow> wire w' = wire v @ payload v (lists v a))"
  using assms
proof (induction naps arbitrary: s w)
  case Nil
  then have "is_send_done k (s, w) = (b, s', w')" by simp
  with delivered_when_done [OF Nil.prems(1) this] show ?case by blast
next
  case (Cons ms naps)
  obtain c s1 w1 where r: "is_send_done k (s, w) = (c, s1, w1)" by (cases "is_send_done k (s, w)")
  note d = delivered_when_done [OF Cons.prems(1) r]
  show ?case
  proof (cases c)
    case True
    with Cons.prems(2) r d show ?thesis by simp
  next
    case False
    with Cons.prems(2) r obtain w2 where w2: "milliseconds_sleep ms w1 = Some w2"
      and p: "poll_done k naps (s1, w2) = Some (b, s', w')" by (auto simp: bind_eq_Some_conv)
    have "threaded s0 (delivering e i v a) s1 w2"
      using d(1) sleep_delivering [OF _ w2] by (auto intro!: threadedI(1))
    from Cons.IH [OF this p] show ?thesis .
  qed
qed

section \<open>Initialising\<close>

text \<open>The set-up calls change the sockets and the error only.\<close>

definition set_up :: "('e, 'm) SenderObj \<Rightarrow> os \<Rightarrow> ('e, 'm) SenderObj \<Rightarrow> os \<Rightarrow> bool" where
  "set_up s w s' w' \<longleftrightarrow>
     s_worker_thread s' = s_worker_thread s \<and> s_shared_data s' = s_shared_data s \<and>
     s_initialized s' = s_initialized s \<and> s_port s' = s_port s \<and> thread_frame w w'"

lemma set_up_simps [simp]:
  "set_up (s\<lparr>s_server_sock_fd := fd\<rparr>) w s' w' = set_up s w s' w'"
  "filter is_user_call l = user_calls w \<Longrightarrow> set_up s (w\<lparr>log := l\<rparr>) s' w' = set_up s w s' w'"
  "set_up s w s w"
  "filter is_user_call l = user_calls w \<Longrightarrow> set_up s w s' (w\<lparr>log := l\<rparr>) = set_up s w s' w"
  "set_up s w (set_error m s') w' = set_up s w s' w'"
  "set_up s w (s'\<lparr>s_client_sock_fd := fd\<rparr>) w' = set_up s w s' w'"
  by (simp_all add: set_up_def)

lemma bind_first_result:
  "bind_first k ps (s, w) = (r, s', w') \<Longrightarrow>
   set_up s w s' w' \<and> (r = Given_Up \<longrightarrow> Error_is_error (s_error_handler s'))"
proof (induction ps arbitrary: s w)
  case Nil
  then show ?case by simp
next
  case (Cons p ps)
  let ?fd = "answer w (length (log w))"
  have again: ?case if "bind_first k ps (s\<lparr>s_server_sock_fd := ?fd\<rparr>, w\<lparr>log := l\<rparr>) = (r, s', w')"
      "filter is_user_call l = user_calls w" for l
    using Cons.IH [OF that(1)] that(2) by simp
  show ?case
    using Cons.prems again by (auto simp: syscall_def set_up_def Let_def split: if_splits)
qed

lemma create_server_result:
  assumes "create_server k (s, w) = (r, s', w')"
  shows "set_up s w s' w' \<and> (\<not> r \<longrightarrow> Error_is_error (s_error_handler s'))"
proof -
  let ?w1 = "w\<lparr>log := log w @ [Getaddrinfo (dec_nat (unat (s_port s)))]\<rparr>"
  obtain b s2 w2 where b: "bind_first k (addrinfos w) (s, ?w1) = (b, s2, w2)"
    by (cases "bind_first k (addrinfos w) (s, ?w1)")
  from bind_first_result [OF this] assms b show ?thesis
    by (auto simp: create_server_def syscall_def set_up_def Let_def split: if_splits)
qed

lemma get_client_result:
  assumes "get_client (s, w) = (r, s', w')"
  shows "set_up s w s' w' \<and> (\<not> r \<longrightarrow> Error_is_error (s_error_handler s')) \<and> (r \<longrightarrow> s_client_sock_fd s' \<noteq> -1)"
  using assms by (auto simp: get_client_def syscall_def set_up_def Let_def split: if_splits)

lemma set_attributes_result:
  "set_attributes calls (s, w) = (r, s', w') \<Longrightarrow> \<forall>c \<in> set calls. \<not> is_user_call (fst c) \<Longrightarrow>
   set_up s w s' w' \<and> s_client_sock_fd s' = s_client_sock_fd s \<and>
   (\<not> r \<longrightarrow> Error_is_error (s_error_handler s'))"
proof (induction calls arbitrary: w)
  case Nil
  then show ?case by simp
next
  case (Cons c calls)
  obtain e m where c: "c = (e, m)" by (cases c)
  have again: ?case if "set_attributes calls (s, w\<lparr>log := l\<rparr>) = (r, s', w')"
      "filter is_user_call l = user_calls w" for l
    using Cons.IH [OF that(1)] Cons.prems(2) that(2) by simp
  show ?case using Cons.prems again c
    by (auto simp: syscall_def set_up_def set_error_def Let_def split: if_splits)
qed

text \<open>An object without a thread keeps the invariant through the set-up.\<close>

definition fresh_shared :: "SenderWorkerData \<Rightarrow> bool" where
  "fresh_shared d \<longleftrightarrow> packets_list d = None \<and> is_done d \<and> \<not> is_error d \<and> \<not> terminate_thread d \<and>
     \<not> thread_initialized d \<and> is_terminated_thread d \<and> packets_mutex d = None \<and> \<not> packets_cond d"

definition prepared :: "('e, 'm) SenderObj \<Rightarrow> bool" where
  "prepared s \<longleftrightarrow> s_worker_thread s = None \<and> \<not> s_initialized s \<and> fresh_shared (s_shared_data s)"

lemma prepared_inv: "prepared s \<Longrightarrow> inv s"
  by (simp add: prepared_def fresh_shared_def sender_inv_def)

lemma prepared_set_up: "prepared s \<Longrightarrow> set_up s w s' w' \<Longrightarrow> prepared s' \<and> thread_frame w w'"
  by (simp add: prepared_def set_up_def)

lemma prepared_reset: "ended s \<Longrightarrow> prepared (reset_shared_data s)"
  by (simp add: prepared_def fresh_shared_def ended_def reset_shared_data_def
      PTHREAD_MUTEX_INITIALIZER_def PTHREAD_COND_INITIALIZER_def)

lemma prepared_accepted:
  "prepared s \<Longrightarrow> accepted (s, w) = (s', w') \<Longrightarrow> prepared s' \<and> thread_frame w w'"
  by (auto simp: prepared_def fresh_shared_def accepted_def shutdown_close_def syscall_def)

text \<open>The new thread starts idle, and is waited for.\<close>

lemma start_idle:
  assumes "fresh_shared d"
  shows "idle False False w d (k_start k) w"
  using assms start_ok
  by (simp add: fresh_shared_def idle_def resting_def around_def thread_wf_def worker_inv_def lock_inv_def
      life_inv_def packet_inv_def exit_inv_def handover_inv_def busy_def)

lemma await_started:
  assumes "prepared s" and "await k thread_initialized 5 (s\<lparr>s_worker_thread := Some (k_start k)\<rparr>, w) = Some (s', w')"
  shows "inv (s'\<lparr>s_initialized := True\<rparr>) \<and> is_done (s_shared_data s') \<and> wire w' = wire w \<and> thread_frame w w'"
proof -
  let ?s = "s\<lparr>s_worker_thread := Some (k_start k)\<rparr>"
  have "threaded ?s (idle False False w) ?s w"
    using assms(1) start_idle by (intro threaded_here) (auto simp: prepared_def)
  then have "threaded ?s (idle False False w) s' w' \<and> thread_initialized (s_shared_data s')"
    by (intro await_threaded [OF assms(2) stable_idle]) (auto intro: sleep_idle)
  then show ?thesis by (auto simp: sender_inv_def idle_def resting_def around_def Let_def)
qed

lemma initialize_result:
  assumes "initialize k (s, w) = Some (r, s', w')" and "inv s"
  shows "inv s' \<and> thread_frame w w' \<and> s_initialized s' = r \<and>
    (if r then is_done (s_shared_data s') else Error_is_error (s_error_handler s'))"
proof -
  obtain b s1 w1 where e: "end_sender k (s, w) = Some (b, s1, w1)"
    using assms(1) by (auto simp: initialize_def bind_eq_Some_conv)
  note en = end_sender_result [OF e assms(2)]
  then have p1: "prepared (reset_shared_data s1)" by (simp add: prepared_reset)
  obtain r2 s2 w2 where 2: "create_server k (reset_shared_data s1, w1) = (r2, s2, w2)"
    by (cases "create_server k (reset_shared_data s1, w1)")
  note c2 = create_server_result [OF 2]
  with prepared_set_up [OF p1, of w1 s2 w2] en have p2: "prepared s2" and f2: "thread_frame w w2"
    by (auto intro: thread_frame_trans)
  obtain r3 s3 w3 where 3: "get_client (s2, w2) = (r3, s3, w3)" by (cases "get_client (s2, w2)")
  note c3 = get_client_result [OF 3]
  with prepared_set_up [OF p2, of w2 s3 w3] f2 have p3: "prepared s3" and f3: "thread_frame w w3"
    by (auto intro: thread_frame_trans)
  obtain s4 w4 where 4: "accepted (s3, w3) = (s4, w4)" by (cases "accepted (s3, w3)")
  with prepared_accepted [OF p3] f3 have p4: "prepared s4" and f4: "thread_frame w w4"
    by (auto intro: thread_frame_trans)
  obtain r5 s5 w5 where 5: "set_attributes attr_calls (s4, w4) = (r5, s5, w5)"
    by (cases "set_attributes attr_calls (s4, w4)")
  have "\<forall>c \<in> set attr_calls. \<not> is_user_call (fst c)" by (simp add: attr_calls_def)
  note c5 = set_attributes_result [OF 5 this]
  with prepared_set_up [OF p4, of w4 s5 w5] f4 have p5: "prepared s5" and f5: "thread_frame w w5"
    by (auto intro: thread_frame_trans)
  note prep = p2 p3 p4 p5 f2 f3 f4 f5
  show ?thesis
  proof (cases "r2 \<and> r3 \<and> r5")
    case False
    with assms(1) e 2 3 4 5 have "\<not> r \<and> ((s', w') = (s2, w2) \<and> \<not> r2 \<or> (s', w') = (s3, w3) \<and> \<not> r3 \<or>
        (s', w') = (s5, w5) \<and> \<not> r5)"
      by (auto simp: initialize_def split: if_splits)
    with prep c2 c3 c5 show ?thesis by (auto intro: prepared_inv simp: prepared_def)
  next
    case True
    let ?th = "answer w5 (length (log w5))" and ?w6 = "w5\<lparr>log := log w5 @ [PthreadCreate]\<rparr>"
    show ?thesis
    proof (cases "?th = 0")
      case False
      with True assms(1) e 2 3 4 5 have "\<not> r" "w' = ?w6"
        "s' = set_error (''pthread_create() return code: '' @ dec_int ?th) s5"
        by (auto simp: initialize_def create_thread_def syscall_def)
      with prep show ?thesis by (auto intro: prepared_inv simp: prepared_def)
    next
      case th: True
      with True assms(1) e 2 3 4 5 obtain s6 w6
        where a: "await k thread_initialized 5 (s5\<lparr>s_worker_thread := Some (k_start k)\<rparr>, ?w6) = Some (s6, w6)"
          and r: "r" "s' = s6\<lparr>s_initialized := True\<rparr>" "w' = w6"
        by (auto simp: initialize_def create_thread_def syscall_def bind_eq_Some_conv)
      from await_started [OF p5 a] r f5 show ?thesis by (auto intro: thread_frame_trans)
    qed
  qed
qed

end

end
