(* ===== verification/Sender_Ending.thy ===== *)
theory Sender_Ending
  imports Sender_Calls
begin

text \<open>
  What \<^verbatim>\<open>end_sender\<close> leaves on the wire: ended while a list is on its way, the thread finishes the
  call it is in, and a beginning of the list is on the wire; ended while none is, the wire is as it
  was. \<open>cut\<close> is the phase in which the queue may already have been emptied by the main thread.
\<close>

context sender_thread
begin

definition cut :: "bool \<Rightarrow> bool \<Rightarrow> os \<Rightarrow> DataPacket list \<Rightarrow> ptr \<Rightarrow> SenderWorkerData \<Rightarrow> ('e, 'm) Worker_scheme \<Rightarrow> os \<Rightarrow> bool" where
  "cut h e v ps a d t w \<longleftrightarrow> wf d t \<and> (packets_mutex d = Some MainThread \<longleftrightarrow> h) \<and> around e True v d w \<and>
     (delivery (wire v) ps a d t w \<or>
      \<not> busy (w_pc t) \<and> packets_list d = None \<and> partly (wire v) ps w)"

lemma partly_same:
  assumes "w' = w\<lparr>log := l, wire := wire w, waits := n\<rparr>"
  shows "partly base ps w' = partly base ps w"
proof -
  have "payload w' = payload w" by (rule bytes_frame(6) [OF disjI2, OF assms])
  moreover have "wire w' = wire w" using assms by simp
  ultimately show ?thesis by (simp add: partly_def)
qed

lemma payload_turns [simp]: "payload (w\<lparr>turns := n\<rparr>) = payload w"
  by (rule thread_frameD) (simp add: thread_frame_def)

lemma step_cut:
  assumes st: "k_step k (d, t, w) = (d', t', w')" and p: "cut h e v ps a d t w"
  shows "cut h e v ps a d' t' w'"
proof -
  from p have wf: "wf d t" "worker_inv d t" "around e True v d w" by (auto simp: cut_def wf_worker)
  have nb: "is_done d \<longrightarrow> \<not> busy (w_pc t)" using p by (auto simp: cut_def delivery_def)
  have m: "packets_mutex d' = Some MainThread \<longleftrightarrow> h"
    using p locked_out [OF st wf(2)] never_main [OF st] by (auto simp: cut_def)
  have "delivery (wire v) ps a d' t' w' \<or>
      \<not> busy (w_pc t') \<and> packets_list d' = None \<and> partly (wire v) ps w'"
  proof (cases "delivery (wire v) ps a d t w")
    case True
    with delivers [OF st wf(2)] show ?thesis by blast
  next
    case False
    with p have n: "\<not> busy (w_pc t)" "packets_list d = None" "partly (wire v) ps w" by (simp_all add: cut_def)
    have "w' = w\<lparr>log := log w', wire := wire w, waits := waits w'\<rparr>"
      using frame_os [OF st] idle_wire [OF st n(1)] by simp
    with n stays_idle [OF st n(1,2)] show ?thesis using partly_same by blast
  qed
  with m step_wf [OF st wf(1) nb] step_around [OF st wf(2,3)] show ?thesis by (simp add: cut_def)
qed

lemma stable_cut: "stable k (threaded s0 (cut h e v ps a))"
  by (rule stable_threaded, fact step_cut) (simp add: cut_def partly_def)

lemma delivery_partly:
  assumes "wf d t" and "delivery base ps a d t w"
  shows "partly base ps w"
proof (cases "sending (w_pc t) \<or> all_sent (w_pc t)")
  case True
  with assms(2) have "on_wire base ps t w" by (auto simp: delivery_def busy_def split: if_splits)
  with True assms(1) show ?thesis by (auto simp: thread_wf_def worker_inv_def intro: on_wire_partly)
next
  case False
  with assms(2) show ?thesis by (auto simp: delivery_def partly_def split: if_splits)
qed

lemma cut_partly:
  assumes "threaded s0 (cut h e v ps a) s w"
  shows "prefix (wire v) (wire w) \<and> prefix (wire w) (wire v @ payload v ps)"
proof -
  from assms obtain d t where p: "cut h e v ps a d t w" by auto
  then have "partly (wire v) ps w" using delivery_partly by (auto simp: cut_def)
  with p show ?thesis using thread_frameD(7) [of v w] by (simp add: partly_def cut_def around_def)
qed

text \<open>The three changes of the main thread while it holds the mutex.\<close>

lemma cut_update:
  assumes "cut True e v ps a d t w"
  shows "cut True e v ps a (set_packets_list None d) t w" "cut True e v ps a (clear_is_done d) t w"
    "cut True e v ps a (pthread_cond_signal d) t w" "cut False e v ps a (d\<lparr>packets_mutex := None\<rparr>) t w"
proof -
  from assms have wf: "wf d t" "packets_mutex d \<noteq> Some WorkerThread" by (simp_all add: cut_def)
  then have nc: "w_pc t \<noteq> W_Copy" by (auto simp: thread_wf_def worker_inv_def lock_inv_def)
  note up = wf_update [OF wf] and p = delivery_partly [OF wf(1), of "wire v" ps a w]
  show "cut True e v ps a (set_packets_list None d) t w"
    using assms up p nc by (auto simp: cut_def set_packets_list_def delivery_def busy_def split: if_splits)
  show "cut True e v ps a (clear_is_done d) t w"
    using assms up p nc by (auto simp: cut_def clear_is_done_def delivery_def busy_def split: if_splits)
  show "cut True e v ps a (pthread_cond_signal d) t w"
    using assms up p by (auto simp: cut_def pthread_cond_signal_def delivery_def split: if_splits)
  show "cut False e v ps a (d\<lparr>packets_mutex := None\<rparr>) t w"
    using assms up p by (auto simp: cut_def delivery_def split: if_splits)
qed

lemma hand_over_cut:
  assumes "hand_over k None (s, w) = Some (g, s', w')" and "threaded s0 (cut False e v ps a) s w"
  shows "threaded s0 (cut False e v ps a) s' w' \<and> \<not> is_locked g"
proof -
  obtain g1 s1 w1 where l: "main_lock k MutexRAII_ctor (s, w) = Some (g1, s1, w1)"
    and u: "main_unlock k g1 (shared_write k pthread_cond_signal (shared_write k clear_is_done
      (shared_write k (set_packets_list None) (s1, w1)))) = (g, s', w')"
    using assms(1) by (auto simp: hand_over_def bind_eq_Some_conv)
  obtain s2 w2 where w2: "shared_write k (set_packets_list None) (s1, w1) = (s2, w2)"
    by (cases "shared_write k (set_packets_list None) (s1, w1)")
  obtain s3 w3 where w3: "shared_write k clear_is_done (s2, w2) = (s3, w3)"
    by (cases "shared_write k clear_is_done (s2, w2)")
  obtain s4 w4 where w4: "shared_write k pthread_cond_signal (s3, w3) = (s4, w4)"
    by (cases "shared_write k pthread_cond_signal (s3, w3)")
  have 1: "threaded s0 (cut True e v ps a) s1 w1 \<and> is_locked g1"
    by (rule lock_threaded [OF l stable_cut]) (use assms(2) in \<open>auto simp: cut_def delivery_def intro: wf_update split: if_splits\<close>)
  then have 2: "threaded s0 (cut True e v ps a) s2 w2"
    by (intro write_threaded [OF stable_cut _ w2]) (auto intro: cut_update)
  then have 3: "threaded s0 (cut True e v ps a) s3 w3"
    by (intro write_threaded [OF stable_cut _ w3]) (auto intro: cut_update)
  then have 4: "threaded s0 (cut True e v ps a) s4 w4"
    by (intro write_threaded [OF stable_cut _ w4]) (auto intro: cut_update)
  from u w2 w3 w4 have u': "main_unlock k g1 (s4, w4) = (g, s', w')" by simp
  show ?thesis by (rule unlock_threaded [OF stable_cut 4 u']) (use 1 in \<open>auto intro: cut_update\<close>)
qed

lemma sleep_cut:
  assumes "cut h e v ps a d t w" and "milliseconds_sleep ms w = Some w'"
  shows "cut h e v ps a d t w'"
proof -
  obtain naps where s: "slept w naps w'"
    using assms(2) nanoseconds_sleep_slept unfolding milliseconds_sleep_def by blast
  then have "payload w' = payload w" using sleptD by (intro thread_frameD(7) thread_frame_slept) auto
  with s assms sleep_around [OF _ assms(2)] show ?thesis
    by (auto simp: cut_def delivery_slept partly_def sleptD(6))
qed

lemma threaded_uninitialized:
  "threaded s0 P s w \<Longrightarrow> threaded (s0\<lparr>s_initialized := b\<rparr>) P (s\<lparr>s_initialized := b\<rparr>) w"
proof (elim threadedE)
  fix d t
  assume "s = s0\<lparr>s_worker_thread := Some t, s_shared_data := d\<rparr>" and p: "P d t w"
  then have "s\<lparr>s_initialized := b\<rparr> = s0\<lparr>s_initialized := b, s_worker_thread := Some t, s_shared_data := d\<rparr>" by simp
  with p show ?thesis unfolding threaded_def by blast
qed

lemma end_sender_cut:
  assumes "end_sender k (s, w) = Some (r, s', w')" and "threaded s0 (cut False e v ps a) s w"
  shows "prefix (wire v) (wire w') \<and> prefix (wire w') (wire v @ payload v ps)"
proof -
  let ?s = "s\<lparr>s_initialized := False\<rparr>" and ?u = "s0\<lparr>s_initialized := False\<rparr>"
  obtain b s1 w1 where b: "shared_read k is_terminated_thread (?s, w) = (b, s1, w1)"
    by (cases "shared_read k is_terminated_thread (?s, w)")
  with assms(1) obtain s2 w2 where e: "(if \<not> b then end_thread k (s1, w1) else Some (s1, w1)) = Some (s2, w2)"
    and r: "close_client (close_server (s2, w2)) = (s', w')"
    by (auto simp: end_sender_def bind_eq_Some_conv split: if_splits)
  note 1 = read_threaded(1) [OF stable_cut threaded_uninitialized [OF assms(2)] b]
  have "\<exists>e. threaded ?u (cut False e v ps a) s2 w2"
  proof (cases b)
    case True
    with 1 e show ?thesis by auto
  next
    case False
    obtain s3 w3 where w3: "shared_write k set_terminate_thread (s1, w1) = (s3, w3)"
      by (cases "shared_write k set_terminate_thread (s1, w1)")
    with e False obtain g s4 w4 s5 w5 where h: "hand_over k None (s3, w3) = Some (g, s4, w4)"
      and a: "await k is_terminated_thread 50 (s4, w4) = Some (s5, w5)"
      and r: "(s2, w2) = main_guard_dtor g (s5, w5)"
      by (auto simp: end_thread_def bind_eq_Some_conv)
    have "threaded ?u (cut False True v ps a) s3 w3"
      by (rule write_threaded [OF stable_cut 1 w3])
        (auto simp: cut_def set_terminate_thread_def delivery_def around_def intro: wf_terminate split: if_splits)
    from hand_over_cut [OF h this] have 4: "threaded ?u (cut False True v ps a) s4 w4" and g: "\<not> is_locked g" by auto
    have "threaded ?u (cut False True v ps a) s5 w5 \<and> is_terminated_thread (s_shared_data s5)"
      by (rule await_threaded [OF a stable_cut]) (use 4 sleep_cut in auto)
    with r g show ?thesis by auto
  qed
  with cut_partly close_result [OF r] show ?thesis by metis
qed

lemma end_sender_delivering:
  assumes "end_sender k (s, w) = Some (r, s', w')" and "threaded s0 (delivering e True v a) s w"
  shows "prefix (wire v) (wire w') \<and> prefix (wire w') (wire v @ payload v (lists v a))"
  by (rule end_sender_cut [OF assms(1) threaded_mono [OF assms(2)]]) (auto simp: delivering_def cut_def)

lemma inv_idle:
  assumes "inv s" and "is_done (s_shared_data s)" and "s_worker_thread s = Some t0"
  shows "threaded s (idle (terminate_thread (s_shared_data s)) True w) s w"
  using assms by (intro threaded_here) (auto simp: sender_inv_def phase_defs around_def Let_def)

text \<open>A thread with nothing to do is cut from the empty list.\<close>

lemma end_sender_idle:
  assumes "end_sender k (s, w) = Some (r, s', w')" and "inv s" and "is_done (s_shared_data s)"
  shows "wire w' = wire w"
proof (cases "s_worker_thread s")
  case None
  then have "s_worker_thread (s\<lparr>s_initialized := False\<rparr>) = None" by simp
  from interfere_no_thread [OF this, of w] None assms
  have "close_client (close_server (s\<lparr>s_initialized := False\<rparr>, w\<lparr>turns := Suc (turns w)\<rparr>)) = (s', w')"
    by (auto simp: end_sender_def shared_read_def sender_inv_def Let_def)
  from close_result [OF this] show ?thesis by simp
next
  case (Some t0)
  have "idle e True w d t v \<Longrightarrow> cut False e w [] a d t v" for e d t v a
    by (auto simp: phase_defs cut_def handover_inv_def partly_def payload_def)
  from end_sender_cut [OF assms(1) threaded_mono [OF inv_idle [OF assms(2,3) Some] this]]
  have "prefix (wire w) (wire w') \<and> prefix (wire w') (wire w @ payload w [])" .
  then show ?thesis by (auto simp: payload_def prefix_order.eq_iff)
qed

text \<open>Reading the shared data of an idle thread changes nothing but the turns.\<close>

lemma idle_read:
  assumes "threaded s0 (idle e True v) s w" and "shared_read k f (s, w) = (b, s', w')"
  shows "threaded s0 (idle e True v) s' w' \<and> is_done (s_shared_data s') \<and> wire w' = wire v"
  using read_threaded(1) [OF stable_idle assms] by (auto simp: idle_def)

lemma is_send_done_idle:
  assumes "is_send_done k (s, w) = (b, s', w')" and "inv s" and "is_done (s_shared_data s)"
  shows "b \<and> is_done (s_shared_data s') \<and> wire w' = wire w"
proof (cases "s_worker_thread s")
  case None
  from interfere_no_thread [OF None, of w] assms show ?thesis by (auto simp: is_send_done_def shared_read_def)
next
  case (Some t0)
  from assms(1) have r: "shared_read k is_done (s, w) = (b, s', w')" by (simp add: is_send_done_def)
  note i = inv_idle [OF assms(2,3) Some, of w]
  from idle_read [OF i r] read_threaded(2) [OF stable_idle i r] show ?thesis by simp
qed

lemma send_refused_idle:
  assumes "send k a (s, w) = Some (False, s', w')" and "inv s" and "is_done (s_shared_data s)"
  shows "is_done (s_shared_data s') \<and> wire w' = wire w"
proof (cases "s_initialized s")
  case False
  with assms show ?thesis by (auto simp: send_def)
next
  case True
  with assms(2) obtain t0 where "s_worker_thread s = Some t0" by (auto simp: sender_inv_def Let_def split: option.splits)
  note 0 = inv_idle [OF assms(2,3) this, of w]
  obtain b1 s1 w1 where 1: "shared_read k is_terminated_thread (s, w) = (b1, s1, w1)"
    by (cases "shared_read k is_terminated_thread (s, w)")
  note i1 = conjunct1 [OF idle_read [OF 0 1]]
  show ?thesis
  proof (cases b1)
    case b: True
    obtain b2 s2 w2 where 2: "shared_read k is_error (s1, w1) = (b2, s2, w2)"
      by (cases "shared_read k is_error (s1, w1)")
    obtain b3 s3 w3 where 3: "shared_read k error_code (s2, w2) = (b3, s3, w3)"
      by (cases "shared_read k error_code (s2, w2)")
    note i2 = idle_read [OF i1 2] and i3 = idle_read [OF conjunct1 [OF idle_read [OF i1 2]] 3]
    from assms(1) True b 1 2 3 have "(s', w') \<in> {(set_error m s2, w2) |m. True} \<union> {(set_error m s3, w3) |m. True}"
      by (auto simp: send_def split: if_splits)
    with i2 i3 show ?thesis by auto
  next
    case False
    obtain b2 s2 w2 where 2: "shared_read k is_done (s1, w1) = (b2, s2, w2)"
      by (cases "shared_read k is_done (s1, w1)")
    note i2 = idle_read [OF i1 2]
    with read_threaded(2) [OF stable_idle i1 2] have b2 by simp
    with assms(1) True False 1 2 show ?thesis by (auto simp: send_def bind_eq_Some_conv)
  qed
qed

end

end
