(* ===== verification/Sender_Histories.thy ===== *)
theory Sender_Histories
  imports Sender_Calls
begin

text \<open>
  Histories of calls on a sender. The application calls the methods in any order and changes
  its own memory and its lists between the calls; \<open>do_calls\<close> runs such a history. \<open>send_lists\<close>
  is the use the senders are made for: one list after the other, each handed over when the one
  before is reported as sent.
\<close>

section \<open>Histories\<close>

datatype sender_call =
    Initialize
  | Send ptr
  | Is_Send_Done
  | Get_Error
  | End_Sender
  | Sleep uint_fast32
  | Store "ptr \<Rightarrow> byte" "ptr \<Rightarrow> DataPacket list"

fun do_call :: "('e, 'm) sender_class \<Rightarrow> sender_call \<Rightarrow> ('e, 'm) sstate \<Rightarrow> ('e, 'm) sstate option" where
  "do_call k Initialize sw = map_option snd (initialize k sw)"
| "do_call k (Send a) sw = map_option snd (send k a sw)"
| "do_call k Is_Send_Done sw = Some (snd (is_send_done k sw))"
| "do_call k Get_Error (s, w) = Some (snd (get_error s), w)"
| "do_call k End_Sender sw = map_option snd (end_sender k sw)"
| "do_call k (Sleep ms) (s, w) = map_option (Pair s) (milliseconds_sleep ms w)"
| "do_call k (Store m l) (s, w) = Some (s, w\<lparr>memory := m, lists := l\<rparr>)"

fun do_calls :: "('e, 'm) sender_class \<Rightarrow> sender_call list \<Rightarrow> ('e, 'm) sstate \<Rightarrow> ('e, 'm) sstate option" where
  "do_calls k [] sw = Some sw"
| "do_calls k (c # cs) sw = do { sw1 \<leftarrow> do_call k c sw; do_calls k cs sw1 }"

text \<open>
  A run of lists: each is stored at its address, handed over, and asked for until it is sent, with
  the given pauses between the questions; \<open>None\<close> when a list is refused or not done in time.
\<close>

fun send_lists :: "('e, 'm) sender_class \<Rightarrow> (ptr \<times> DataPacket list \<times> uint_fast32 list) list \<Rightarrow>
    ('e, 'm) sstate \<Rightarrow> ('e, 'm) sstate option" where
  "send_lists k [] sw = Some sw"
| "send_lists k ((a, ps, naps) # xs) (s, w) =
     do { (ok, sw1) \<leftarrow> send k a (s, w\<lparr>lists := (lists w)(a := ps)\<rparr>);
          if \<not> ok then None
          else
            do { (b, sw2) \<leftarrow> poll_done k naps sw1;
                 if b then send_lists k xs sw2 else None } }"

section \<open>Histories keep the invariant, and lists arrive in order\<close>

lemma payload_lists [simp]: "payload (w\<lparr>lists := l\<rparr>) = payload w"
proof -
  have "packet_bytes (w\<lparr>lists := l\<rparr>) = packet_bytes w"
    by (rule ext) (simp add: packet_bytes_def mem_bytes_def file_slice_def split: DATA_PTR_TYPE.split)
  then show ?thesis by (intro ext) (simp only: payload_def)
qed

context sender_thread
begin

lemma ctor_inv: "inv (Sender_ctor k port)"
  by (simp add: Sender_ctor_def sender_inv_def SenderWorkerData_default_def PTHREAD_MUTEX_INITIALIZER_def)

lemma get_error_inv [simp]: "inv (snd (get_error s)) = inv s"
  by (simp add: get_error_def sender_inv_def Let_def split: option.splits)

lemma do_call_inv:
  assumes "do_call k c (s, w) = Some (s', w')" and "inv s"
  shows "inv s'"
proof (cases c)
  case Is_Send_Done
  with assms is_send_done_result [of s w] show ?thesis
    by (cases "is_send_done k (s, w)") auto
next
  case Get_Error
  with assms get_error_inv [of s] show ?thesis by auto
qed (use assms initialize_result send_result end_sender_result in \<open>auto split: if_splits\<close>)

lemma do_calls_inv: "do_calls k cs (s, w) = Some (s', w') \<Longrightarrow> inv s \<Longrightarrow> inv s'"
proof (induction cs arbitrary: s w)
  case Nil
  then show ?case by simp
next
  case (Cons c cs)
  then obtain s1 w1 where 1: "do_call k c (s, w) = Some (s1, w1)"
    and 2: "do_calls k cs (s1, w1) = Some (s', w')" by (auto simp: bind_eq_Some_conv)
  from Cons.IH [OF 2 do_call_inv [OF 1 Cons.prems(2)]] show ?case .
qed

lemma poll_done_flag: "poll_done k naps (s, w) = Some (b, s', w') \<Longrightarrow> inv s \<Longrightarrow> b = is_done (s_shared_data s') \<and> s_initialized s' = s_initialized s"
proof (induction naps arbitrary: s w)
  case Nil
  then show ?case using is_send_done_result [of s w b s' w'] by auto
next
  case (Cons ms naps)
  obtain c s1 w1 where r: "is_send_done k (s, w) = (c, s1, w1)" by (cases "is_send_done k (s, w)")
  note i = is_send_done_result [OF r Cons.prems(2)]
  show ?case
  proof (cases c)
    case True
    with Cons.prems r i show ?thesis by auto
  next
    case False
    with Cons.prems(1) r obtain w2 where "poll_done k naps (s1, w2) = Some (b, s', w')"
      by (auto simp: bind_eq_Some_conv)
    from Cons.IH [OF this] i show ?thesis by auto
  qed
qed

text \<open>One list: handed over when the last one is done, and reported as done.\<close>

lemma send_one:
  assumes "send k a (s, w) = Some (True, s1, w1)" and "poll_done k naps (s1, w1) = Some (True, s', w')"
    and "inv s" and "is_done (s_shared_data s)"
  shows "wire w' = wire w @ payload w (lists w a)" and "inv s'" and "is_done (s_shared_data s')"
    and "thread_frame w w'" and "s_initialized s' = s_initialized s"
proof -
  from send_result [OF assms(1,3)] assms(4) obtain v
    where i: "inv s1" "s_initialized s" and v: "thread_frame w v" "wire v = wire w"
      and d: "threaded s (delivering False True v a) s1 w1" by auto
  from poll_done_delivering [OF d assms(2)]
  have d': "threaded s (delivering False True v a) s' w'" and wire: "wire w' = wire v @ payload v (lists v a)"
    by auto
  from wire v show "wire w' = wire w @ payload w (lists w a)" by (simp add: thread_frameD)
  show "inv s'" by (rule sent_inv [OF d' i(2)])
  show "is_done (s_shared_data s')" using poll_done_flag [OF assms(2) i(1)] by simp
  show "s_initialized s' = s_initialized s"
    using poll_done_flag [OF assms(2) i(1)] send_result [OF assms(1,3)] by simp
  show "thread_frame w w'"
    using d' v(1) thread_frame_trans by (auto simp: delivering_def around_def)
qed

text \<open>One list, asked for any number of times.\<close>

lemma send_poll_prefix:
  assumes "is_send_done k (s0, w0) = (True, s, w)" and "inv s0" and "send k a (s, w) = Some (True, s1, w1)"
    and "poll_done k naps (s1, w1) = Some (b, s', w')"
  shows "prefix (wire w) (wire w') \<and> prefix (wire w') (wire w @ payload w (lists w a)) \<and>
    (b \<longrightarrow> wire w' = wire w @ payload w (lists w a))"
proof -
  have i: "inv s" "is_done (s_shared_data s)" using is_send_done_result [OF assms(1,2)] by auto
  from send_result [OF assms(3) i(1)] i(2) obtain v
    where v: "thread_frame w v" "wire v = wire w" and d: "threaded s (delivering False True v a) s1 w1" by auto
  note p = poll_done_delivering [OF d assms(4)]
  from v have "payload v = payload w" "lists v = lists w" by (simp_all add: thread_frameD)
  with p delivering_partly [of s False True v a s' w'] v(2) show ?thesis by auto
qed

lemma send_lists_result:
  "send_lists k xs (s, w) = Some (s', w') \<Longrightarrow> inv s \<Longrightarrow> is_done (s_shared_data s) \<Longrightarrow>
   wire w' = wire w @ concat (map (\<lambda>(_, ps, _). payload w ps) xs) \<and> inv s' \<and> is_done (s_shared_data s') \<and>
   s_initialized s' = s_initialized s"
proof (induction xs arbitrary: s w)
  case Nil
  then show ?case by simp
next
  case (Cons x xs)
  obtain a ps naps where x: "x = (a, ps, naps)" by (cases x)
  let ?w = "w\<lparr>lists := (lists w)(a := ps)\<rparr>"
  from Cons.prems(1) x obtain s1 w1 s2 w2 where 1: "send k a (s, ?w) = Some (True, s1, w1)"
    and 2: "poll_done k naps (s1, w1) = Some (True, s2, w2)" and 3: "send_lists k xs (s2, w2) = Some (s', w')"
    by (auto simp: bind_eq_Some_conv split: if_splits)
  note o = send_one [OF 1 2 Cons.prems(2,3)]
  from o(4) have "payload w2 = payload w" using thread_frameD(7) by fastforce
  with Cons.IH [OF 3 o(2,3)] o(1,5) x show ?case by simp
qed

text \<open>After \<^verbatim>\<open>end_sender\<close> nothing happens until the next \<^verbatim>\<open>initialize\<close>.\<close>

definition over :: "bool \<Rightarrow> os \<Rightarrow> SenderWorkerData \<Rightarrow> ('e, 'm) Worker_scheme \<Rightarrow> os \<Rightarrow> bool" where
  "over e v d t w \<longleftrightarrow> gone e v False d t w \<and> wire w = wire v"

lemma stable_over: "stable k (threaded s0 (over e v))"
proof (rule stable_threaded)
  fix d t w d' t' w'
  assume st: "k_step k (d, t, w) = (d', t', w')" and p: "over e v d t w"
  then have r: "resting e True v d t w" "dead (w_pc t)" "w_pc t \<noteq> W_ExitFlag" "wire w = wire v"
    by (simp_all add: over_def gone_def)
  then have "\<not> busy (w_pc t)" by (cases "w_pc t") (simp_all add: busy_def)
  with r idle_wire [OF st] dead_stays [OF st] step_resting [OF st r(1)] show "over e v d' t' w'"
    by (auto simp: over_def gone_def)
qed (simp add: over_def gone_def resting_def)

lemma ended_read:
  assumes "shared_read k f (s, w) = (b, s', w')" and "inv s" and "ended s"
  shows "b = f (s_shared_data s') \<and> inv s' \<and> ended s' \<and> wire w' = wire w"
proof (cases "s_worker_thread s")
  case None
  from interfere_no_thread [OF this, of w] assms show ?thesis by (auto simp: shared_read_def)
next
  case (Some t)
  let ?e = "terminate_thread (s_shared_data s)"
  have "threaded s (over ?e w) s w"
    using assms(2,3) Some
    by (intro threaded_here) (auto simp: over_def gone_def resting_def around_def sender_inv_def ended_def Let_def)
  note r = read_threaded [OF stable_over this assms(1)]
  from r(1) obtain d t where s': "s' = s\<lparr>s_worker_thread := Some t, s_shared_data := d\<rparr>"
    and p: "over ?e w d t w'" by (rule threadedE)
  have "inv s'"
    by (rule inv_ended [OF r(1)]) (use assms(3) in \<open>auto simp: ended_def over_def gone_def resting_def around_def\<close>)
  moreover have "w_pc t = W_Unwind \<or> w_pc t = W_Exited" using p by (cases "w_pc t") (auto simp: over_def gone_def)
  moreover have "is_terminated_thread d"
    using p calculation(2) life_terminated [of d t] by (auto simp: over_def gone_def resting_def around_def)
  ultimately show ?thesis using r(2) s' p assms(3) by (auto simp: ended_def over_def)
qed

lemma ended_call:
  assumes "do_call k c (s, w) = Some (s', w')" and "inv s" and "ended s" and "c \<noteq> Initialize"
  shows "inv s' \<and> ended s' \<and> wire w' = wire w"
proof (cases c)
  case (Send a)
  with assms have "s' = set_error ''You must initialize the sender object first'' s" "w' = w"
    by (auto simp: send_def ended_def)
  with assms(2,3) show ?thesis by (simp add: ended_def)
next
  case Is_Send_Done
  obtain b s1 w1 where r: "shared_read k is_done (s, w) = (b, s1, w1)" by (cases "shared_read k is_done (s, w)")
  with ended_read [OF r assms(2,3)] assms(1) Is_Send_Done show ?thesis by (simp add: is_send_done_def)
next
  case End_Sender
  have s: "s\<lparr>s_initialized := False\<rparr> = s" using assms(3) by (simp add: ended_def)
  obtain b s1 w1 where r: "shared_read k is_terminated_thread (s, w) = (b, s1, w1)"
    by (cases "shared_read k is_terminated_thread (s, w)")
  note e = ended_read [OF r assms(2,3)]
  then have "b" "s_server_sock_fd s1 = -1" "s_client_sock_fd s1 = -1" by (simp_all add: ended_def)
  with r s assms(1) End_Sender have "s' = s1" "w' = w1"
    by (auto simp: end_sender_def close_client_def close_server_def)
  with e show ?thesis by simp
next
  case (Sleep ms)
  with assms obtain naps where "s' = s" "slept w naps w'"
    using nanoseconds_sleep_slept [of "MS_TO_NS ms" w w'] by (auto simp: milliseconds_sleep_def)
  with assms(2,3) show ?thesis by (simp add: sleptD(6))
next
  case Get_Error
  with assms(1) have "s' = snd (get_error s)" "w' = w" by simp_all
  moreover have "inv (snd (get_error s))" using assms(2) by simp
  moreover have "ended (snd (get_error s))" using assms(3) by (simp add: ended_def get_error_def)
  ultimately show ?thesis by simp
qed (use assms in auto)

lemma ended_calls:
  "do_calls k cs (s, w) = Some (s', w') \<Longrightarrow> inv s \<Longrightarrow> ended s \<Longrightarrow> Initialize \<notin> set cs \<Longrightarrow>
   inv s' \<and> ended s' \<and> wire w' = wire w"
proof (induction cs arbitrary: s w)
  case Nil
  then show ?case by simp
next
  case (Cons c cs)
  then obtain s1 w1 where 1: "do_call k c (s, w) = Some (s1, w1)"
    and 2: "do_calls k cs (s1, w1) = Some (s', w')" by (auto simp: bind_eq_Some_conv)
  from Cons.prems(4) have "c \<noteq> Initialize" "Initialize \<notin> set cs" by auto
  with ended_call [OF 1 Cons.prems(2,3)] Cons.IH [OF 2] show ?case by auto
qed

end

end
