(* ===== verification/Sender_Contract.thy ===== *)
theory Sender_Contract
  imports Sender_Ending Sender_Histories
begin

text \<open>
  What a client of the abstract class \<^verbatim>\<open>Sender\<close> may rely on: a locale over its virtual methods.
  \<open>ok\<close> is the invariant of the object, \<open>ready\<close> says that it is initialised, \<open>sent\<close> that no list is
  on its way, \<open>over\<close> that it was ended, and \<open>under_way v a\<close> that the list that stood at \<open>a\<close> on the
  machine \<open>v\<close> was accepted there. Every sender with a worker thread gives this contract.
\<close>

locale sender_contract = error_source handler "sn_get_error S" "sn_is_error S"
  for S :: "'s Sender" and handler :: "'s \<Rightarrow> Error" +
  fixes ok ready sent over :: "'s \<Rightarrow> bool" and under_way :: "os \<Rightarrow> ptr \<Rightarrow> 's \<Rightarrow> os \<Rightarrow> bool"
  assumes initialize_law: "sn_initialize S s w = Some (b, s', w') \<Longrightarrow> ok s \<Longrightarrow>
      ok s' \<and> thread_frame w w' \<and> ready s' = b \<and> (if b then sent s' else sn_is_error S s')"
    and done_law: "sn_is_send_done S s w = (b, s', w') \<Longrightarrow> ok s \<Longrightarrow>
      ok s' \<and> ready s' = ready s \<and> handler s' = handler s \<and> thread_frame w w' \<and> b = sent s'"
    and done_idle: "sn_is_send_done S s w = (b, s', w') \<Longrightarrow> ok s \<Longrightarrow> sent s \<Longrightarrow> sent s' \<and> wire w' = wire w"
    and done_under_way: "sn_is_send_done S s w = (b, s', w') \<Longrightarrow> under_way v a s w \<Longrightarrow>
      under_way v a s' w' \<and> (b \<longrightarrow> wire w' = wire v @ payload v (lists v a))"
    and nap_under_way: "slept w naps w' \<Longrightarrow> under_way v a s w \<Longrightarrow> under_way v a s w'"
    and under_way_ok: "under_way v a s w \<Longrightarrow> ok s \<and> ready s \<and> thread_frame v w"
    and send_law: "sn_send S a s w = Some (b, s', w') \<Longrightarrow> ok s \<Longrightarrow>
      ok s' \<and> ready s' = ready s \<and> thread_frame w w' \<and>
      (if b then sent s \<longrightarrow> (\<exists>v. thread_frame w v \<and> wire v = wire w \<and> under_way v a s' w')
       else sn_is_error S s' \<and> (sent s \<longrightarrow> sent s' \<and> wire w' = wire w))"
    and end_law: "sn_end_sender S s w = Some (b, s', w') \<Longrightarrow> ok s \<Longrightarrow>
      b \<and> ok s' \<and> over s' \<and> handler s' = handler s \<and> thread_frame w w' \<and> (sent s \<longrightarrow> wire w' = wire w)"
    and end_under_way: "sn_end_sender S s w = Some (b, s', w') \<Longrightarrow> under_way v a s w \<Longrightarrow>
      prefix (wire v) (wire w') \<and> prefix (wire w') (wire v @ payload v (lists v a))"
    and get_error_law: "ok (snd (sn_get_error S s)) = ok s \<and> sent (snd (sn_get_error S s)) = sent s \<and>
      ready (snd (sn_get_error S s)) = ready s"
    and over_law: "over s \<Longrightarrow> \<not> ready s"

context sender_thread
begin

definition accepted_list :: "os \<Rightarrow> ptr \<Rightarrow> ('e, 'm) SenderObj \<Rightarrow> os \<Rightarrow> bool" where
  "accepted_list v a s w \<longleftrightarrow> s_initialized s \<and> (\<exists>s0. threaded s0 (delivering False True v a) s w)"

lemma accepted_ok: "accepted_list v a s w \<Longrightarrow> inv s \<and> s_initialized s \<and> thread_frame v w"
  using sent_inv threaded_same(1) by (fastforce simp: accepted_list_def delivering_def around_def)

lemma slept_delivering:
  assumes "slept w naps w'" and "delivering e i v a d t w"
  shows "delivering e i v a d t w'"
  using assms thread_frame_trans [OF _ thread_frame_slept [OF assms(1)]]
  by (auto simp: delivering_def around_def delivery_slept)

sublocale contract: sender_contract "Sender_vtable k" s_error_handler inv s_initialized
  "\<lambda>s. is_done (s_shared_data s)" ended accepted_list
proof (unfold_locales, unfold Sender_vtable_def Sender.simps, goal_cases)
  case (4 s w b s' w')
  with initialize_result [OF this(1,2)] show ?case by (auto simp: is_error_pending_def)
next
  case (5 s w b s' w')
  from is_send_done_result [OF this] show ?case by auto
next
  case (6 s w b s' w')
  from is_send_done_idle [OF this] show ?case by blast
next
  case (7 s w b s' w' v a)
  then obtain s0 where "s_initialized s" and d: "threaded s0 (delivering False True v a) s w" by (auto simp: accepted_list_def)
  moreover note delivered_when_done [OF d 7(1)]
  ultimately show ?case using threaded_same(1) unfolding accepted_list_def by metis
next
  case (8 w naps w' v a s)
  then obtain s0 d t where "s_initialized s" and s: "s = s0\<lparr>s_worker_thread := Some t, s_shared_data := d\<rparr>"
    and "delivering False True v a d t w" by (auto simp: accepted_list_def)
  with slept_delivering [OF 8(1)] have "threaded s0 (delivering False True v a) s w'" unfolding threaded_def by blast
  with \<open>s_initialized s\<close> show ?case unfolding accepted_list_def by blast
next
  case (9 v a s w)
  then show ?case by (rule accepted_ok)
next
  case (10 a s w b s' w')
  from send_result [OF this] send_refused_idle [of a s w s' w'] 10 show ?case
    by (cases b) (auto simp: is_error_pending_def accepted_list_def)
next
  case (11 s w b s' w')
  from end_sender_result [OF this] end_sender_idle [OF this] show ?case by blast
next
  case (12 s w b s' w' v a)
  then obtain s0 where "threaded s0 (delivering False True v a) s w" unfolding accepted_list_def by blast
  with end_sender_delivering [OF 12(1)] show ?case by blast
next
  case (13 s)
  have "is_done (s_shared_data (snd (get_error s))) = is_done (s_shared_data s)"
    "s_initialized (snd (get_error s)) = s_initialized s" by (simp_all add: get_error_def)
  then show ?case by simp
qed (simp_all add: get_error_def is_error_pending_def ended_def)

end

end
