(* ===== verification/System_Run.thy ===== *)
theory System_Run
  imports Real_Time_System Sender_Contract
begin

text \<open>
  The run of \<^verbatim>\<open>RealTimeSystem\<close> over any timer and any sender that keep their contracts. \<open>ticks\<close>
  unrolls the loop of \<^verbatim>\<open>run\<close> and collects the payload handed over at each tick; the lemmas say what
  one tick does to the wire, to the counters, and to the deadlines.
\<close>

section \<open>The loop, tick by tick\<close>

fun ticks :: "'t Timer \<Rightarrow> 's Sender \<Rightarrow> ptr \<Rightarrow> nat \<Rightarrow> ('t, 's) rstate \<Rightarrow>
    (byte list list \<times> uint_fast32 \<times> uint_fast32 \<times> ('t, 's) rstate) option" where
  "ticks T S a 0 rw = Some ([], -1, 0, rw)"
| "ticks T S a (Suc n) rw =
     do { (ps, sequence_number, skipped_count, rw1) \<leftarrow> ticks T S a n rw;
          (res, rw2) \<leftarrow> run_tick T S a sequence_number skipped_count rw1;
          case res of
            Return _ \<Rightarrow> None
          | Continue sequence_number' skipped_count' \<Rightarrow>
              Some (ps @ [payload (snd rw2) (lists (snd rw2) a)], sequence_number', skipped_count', rw2) }"

lemma ticks_SucE:
  assumes "ticks T S a (Suc n) rw = Some (qs, seq', skip', rw2)"
  obtains ps seq skip rw1 where "ticks T S a n rw = Some (ps, seq, skip, rw1)"
    and "run_tick T S a seq skip rw1 = Some (Continue seq' skip', rw2)"
    and "qs = ps @ [payload (snd rw2) (lists (snd rw2) a)]"
proof -
  from assms obtain ps seq skip rw1 res rw3 where t: "ticks T S a n rw = Some (ps, seq, skip, rw1)"
    and r: "run_tick T S a seq skip rw1 = Some (res, rw3)"
    and c: "(case res of Return _ \<Rightarrow> None
      | Continue s k \<Rightarrow> Some (ps @ [payload (snd rw3) (lists (snd rw3) a)], s, k, rw3)) = Some (qs, seq', skip', rw2)"
    by (auto simp: bind_eq_Some_conv)
  show thesis
  proof (cases res)
    case (Return b)
    with c show ?thesis by simp
  next
    case (Continue s k)
    with c have "qs = ps @ [payload (snd rw2) (lists (snd rw2) a)]" "s = seq'" "k = skip'" "rw3 = rw2" by auto
    with Continue r that [OF t] show ?thesis by blast
  qed
qed

declare ticks.simps(2) [simp del]

lemma ticks_SucI:
  assumes "ticks T S a n rw = Some (ps, seq, skip, rw1)" and "run_tick T S a seq skip rw1 = Some (Continue seq' skip', rw2)"
  shows "\<exists>qs. ticks T S a (Suc n) rw = Some (qs, seq', skip', rw2)"
  using assms by (simp add: ticks.simps(2))

text \<open>A run that returns has made some whole ticks and returned in the next one.\<close>

lemma run_loop_ticks:
  assumes "run_loop T S a seq skip rw1 = Some (b, rw')" and "ticks T S a n rw = Some (ps, seq, skip, rw1)"
  shows "\<exists>n ps seq skip rw1. ticks T S a n rw = Some (ps, seq, skip, rw1) \<and>
    run_tick T S a seq skip rw1 = Some (Return b, rw')"
proof -
  have "\<exists>n ps seq skip rw1. ticks T S a n rw = Some (ps, seq, skip, rw1) \<and>
    run_tick T S a seq skip rw1 = Some (Return (fst x), snd x)"
    if "run_loop T S a seq skip rw1 = Some x" "ticks T S a n rw = Some (ps, seq, skip, rw1)" for x
    using that(2)
  proof (induct arbitrary: n ps rule: run_loop.raw_induct [OF _ that(1), consumes 0, case_names step])
    case (step f T S a seq skip rw1 x)
    from step(2) obtain res rw2 where t: "run_tick T S a seq skip rw1 = Some (res, rw2)"
      and c: "(case res of Return b \<Rightarrow> Some (b, rw2) | Continue seq' skip' \<Rightarrow> f T S a seq' skip' rw2) = Some x"
      by (auto simp: bind_eq_Some_conv)
    show ?case
    proof (cases res)
      case (Return b)
      with t c have "run_tick T S a seq skip rw1 = Some (Return (fst x), snd x)" by auto
      with step(3) show ?thesis by blast
    next
      case (Continue seq' skip')
      with ticks_SucI [OF step(3)] t obtain qs where "ticks T S a (Suc n) rw = Some (qs, seq', skip', rw2)" by blast
      with Continue c step(1) show ?thesis by auto
    qed
  qed
  from this [OF assms] show ?thesis by simp
qed

section \<open>What a call leaves of the system and of the machine\<close>

text \<open>The settings of the system stay; only the timer, the sender and the error change.\<close>

definition same_settings :: "('t, 's) RealTimeSystem \<Rightarrow> ('t, 's) RealTimeSystem \<Rightarrow> bool" where
  [spec_defs]: "same_settings r r' \<longleftrightarrow>
     r_user_app_func r' = r_user_app_func r \<and> r_frequency r' = r_frequency r \<and>
     r_allow_skip_mode r' = r_allow_skip_mode r \<and> r_initialized r' = r_initialized r \<and>
     r_ms_tolerance r' = r_ms_tolerance r"

lemma same_settings_refl [simp]: "same_settings r r"
  by (simp add: same_settings_def)

lemma same_settings_trans: "same_settings r r1 \<Longrightarrow> same_settings r1 r2 \<Longrightarrow> same_settings r r2"
  by (simp add: same_settings_def)

lemma same_settings_update [simp]:
  "same_settings r (r'\<lparr>r_sender := x\<rparr>) = same_settings r r'" "same_settings r (r'\<lparr>r_timer := y\<rparr>) = same_settings r r'"
  "same_settings r (r_set_error m r') = same_settings r r'"
  by (simp_all add: same_settings_def r_set_error_def)

lemma r_set_error_simps [simp]:
  "r_sender (r_set_error m r) = r_sender r" "r_timer (r_set_error m r) = r_timer r"
  "RealTimeSystem_is_error (r_set_error m r)" "fst (RealTimeSystem_get_error (r_set_error m r)) = m"
  "r_initialized (r_set_error m r) = r_initialized r"
  "r_user_app_func (r_set_error m r) = r_user_app_func r" "r_frequency (r_set_error m r) = r_frequency r"
  by (simp_all add: r_set_error_def RealTimeSystem_is_error_def RealTimeSystem_get_error_def)

text \<open>
  The clock goes on: same readings, none taken back. \<open>thread_frame\<close> gives it, and so does the
  user function.
\<close>

definition clock_goes_on :: "os \<Rightarrow> os \<Rightarrow> bool" where
  [spec_defs]: "clock_goes_on w w' \<longleftrightarrow> clock w' = clock w \<and> reads w \<le> reads w'"

lemma clock_goes_on_refl [simp]: "clock_goes_on w w"
  by (simp add: clock_goes_on_def)

lemma clock_goes_on_trans: "clock_goes_on w w1 \<Longrightarrow> clock_goes_on w1 w2 \<Longrightarrow> clock_goes_on w w2"
  by (simp add: clock_goes_on_def)

lemma clock_goes_on_frame: "thread_frame w w' \<Longrightarrow> clock_goes_on w w'"
  by (simp add: clock_goes_on_def thread_frameD)

lemma call_user_result:
  assumes "call_user f a i w = (i', w')"
  shows "wire w' = wire w" "clock_goes_on w w'" "is_system_stopped i' \<longleftrightarrow> fst (snd (f i w)) \<or> is_system_stopped i"
  using assms
  by (auto simp: call_user_def clock_goes_on_def stop_system_def is_system_stopped_def split: prod.splits if_splits)

text \<open>What a call of the user function leaves in the log.\<close>

definition told :: "RealTimeInfo \<Rightarrow> event" where
  "told i = UserFn (get_sequence_number i) (is_skipped_data i) (get_delayed_time_ms i)"

lemma call_user_calls: "call_user f a i w = (i', w') \<Longrightarrow> user_calls w' = user_calls w @ [told i]"
  by (auto simp: call_user_def told_def split: prod.splits)

lemma RealTimeInfo_ctor_simps [simp]:
  "get_sequence_number (RealTimeInfo_ctor q k d b) = q" "is_skipped_data (RealTimeInfo_ctor q k d b) = k"
  "is_system_stopped (RealTimeInfo_ctor q k d b) = b"
  by (simp_all add: RealTimeInfo_ctor_def get_sequence_number_def is_skipped_data_def is_system_stopped_def)

lemma ticking_goes_on:
  assumes "ticking v w" and "clock_goes_on w w'" and "clock_ok (clock w)"
  shows "ticking v w'"
  using assms clock_mono [OF assms(3), of "reads w" "reads w'"] by (auto simp: ticking_def clock_goes_on_def)

section \<open>The counters\<close>

lemmas tick_defs = run_tick_def skipped_tick_def sending_tick_def next_tick_def stop_with_error_def

text \<open>
  Every tick counts; the count of skipped ticks grows by one or starts again, only in skip mode, and
  no tick goes on when three seconds' worth of ticks were skipped.
\<close>

lemma stop_with_error_result:
  "stop_with_error S m (r, w) = Some (res, rw') \<Longrightarrow> res = Return False \<and> call_end_sender S (r_set_error m r, w) = Some rw'"
  by (auto simp: stop_with_error_def bind_eq_Some_conv)

text \<open>The shapes of the parts of a tick: every end is a call of \<^verbatim>\<open>end_sender\<close>, after an error or on demand.\<close>

lemma next_tickE:
  assumes "next_tick T S q k (r, w) = Some (res, rw')"
  obtains r1 w1 where "call_sleep_to_next_tick T (r, w) = Some (True, r1, w1)" and "res = Continue q k" and "rw' = (r1, w1)"
  | r1 w1 where "call_sleep_to_next_tick T (r, w) = Some (False, r1, w1)" and "res = Return False"
    and "call_end_sender S (r_set_error tick_missed_message r1, w1) = Some rw'"
proof -
  obtain b r1 w1 where c: "call_sleep_to_next_tick T (r, w) = Some (b, r1, w1)"
    using assms by (auto simp: next_tick_def bind_eq_Some_conv)
  show thesis
  proof (cases b)
    case True
    with c assms have "res = Continue q k" "rw' = (r1, w1)" by (auto simp: next_tick_def)
    moreover from True c have "call_sleep_to_next_tick T (r, w) = Some (True, r1, w1)" by simp
    ultimately show ?thesis using that(1) by blast
  next
    case False
    with c assms have "stop_with_error S tick_missed_message (r1, w1) = Some (res, rw')" by (simp add: next_tick_def)
    moreover from False c have "call_sleep_to_next_tick T (r, w) = Some (False, r1, w1)" by simp
    ultimately show ?thesis using stop_with_error_result that(2) by blast
  qed
qed

lemma skipped_tickE:
  assumes "skipped_tick T S f a q k used (r, w) = Some (res, rw')"
  obtains i w1 where "call_user f a (RealTimeInfo_ctor q True (of_nat (used div 2)) False) w = (i, w1)"
    and "is_system_stopped i" and "res = Return True" and "call_end_sender S (r, w1) = Some rw'"
  | i w1 where "call_user f a (RealTimeInfo_ctor q True (of_nat (used div 2)) False) w = (i, w1)"
    and "\<not> is_system_stopped i" and "next_tick T S q (k + 1) (r, w1) = Some (res, rw')"
proof -
  obtain i w1 where c: "call_user f a (RealTimeInfo_ctor q True (of_nat (used div 2)) False) w = (i, w1)"
    by (cases "call_user f a (RealTimeInfo_ctor q True (of_nat (used div 2)) False) w")
  show thesis
    by (cases "is_system_stopped i")
      (use assms c that in \<open>simp_all add: skipped_tick_def bind_eq_Some_conv, blast\<close>)
qed

lemma sending_tickE:
  assumes "sending_tick T S f a q used (r, w) = Some (res, rw')"
  obtains i w1 where "call_user f a (RealTimeInfo_ctor q False (of_nat used) False) w = (i, w1)"
    and "is_system_stopped i" and "res = Return True" and "call_end_sender S (r, w1) = Some rw'"
  | i w1 r2 w2 s where "call_user f a (RealTimeInfo_ctor q False (of_nat used) False) w = (i, w1)"
    and "\<not> is_system_stopped i" and "call_send S a (r, w1) = Some (False, r2, w2)" and "r_sender r2 = Some s"
    and "res = Return False" and "call_end_sender S (take_sender_error S s r2, w2) = Some rw'"
  | i w1 r2 w2 where "call_user f a (RealTimeInfo_ctor q False (of_nat used) False) w = (i, w1)"
    and "\<not> is_system_stopped i" and "call_send S a (r, w1) = Some (True, r2, w2)"
    and "next_tick T S q 0 (r2, w2) = Some (res, rw')"
proof -
  obtain i w1 where c: "call_user f a (RealTimeInfo_ctor q False (of_nat used) False) w = (i, w1)"
    by (cases "call_user f a (RealTimeInfo_ctor q False (of_nat used) False) w")
  show thesis
  proof (cases "is_system_stopped i")
    case True
    with assms c that(1) show ?thesis by (auto simp: sending_tick_def bind_eq_Some_conv)
  next
    case False
    with assms c obtain b r2 w2 where d: "call_send S a (r, w1) = Some (b, r2, w2)"
      by (auto simp: sending_tick_def bind_eq_Some_conv)
    show ?thesis
    proof (cases b)
      case True
      with False assms c d that(3) show ?thesis by (simp add: sending_tick_def)
    next
      case nb: False
      with False assms c d obtain s where "r_sender r2 = Some s" "res = Return False"
        "call_end_sender S (take_sender_error S s r2, w2) = Some rw'"
        by (auto simp: sending_tick_def bind_eq_Some_conv)
      moreover from nb d have "call_send S a (r, w1) = Some (False, r2, w2)" by simp
      ultimately show ?thesis using False c that(2) by blast
    qed
  qed
qed

lemma run_tickE:
  assumes "run_tick T S a seq skip (r, w) = Some (res, rw')"
  obtains "skip = r_frequency r * 3" and "res = Return False"
    and "call_end_sender S (r_set_error ''The client disconnected.'' r, w) = Some rw'"
  | n rw1 r2 w2 where "skip \<noteq> r_frequency r * 3" and "tolerate S (unat (r_ms_tolerance r * 2)) 0 (r, w) = Some (n, rw1)"
    and "ask_sender S rw1 = Some (False, r2, w2)" and "\<not> r_allow_skip_mode r" and "res = Return False"
    and "call_end_sender S (r_set_error ''Failed to send the data in the required time'' r2, w2) = Some rw'"
  | n rw1 b rw2 rw3 f where "skip \<noteq> r_frequency r * 3" and "tolerate S (unat (r_ms_tolerance r * 2)) 0 (r, w) = Some (n, rw1)"
    and "ask_sender S rw1 = Some (b, rw2)" and "ask_sender S rw2 = Some (False, rw3)" and "r_allow_skip_mode r"
    and "r_user_app_func r = Some f" and "skipped_tick T S f a (seq + 1) skip n rw3 = Some (res, rw')"
  | n rw1 b rw2 b' rw3 f where "skip \<noteq> r_frequency r * 3" and "tolerate S (unat (r_ms_tolerance r * 2)) 0 (r, w) = Some (n, rw1)"
    and "ask_sender S rw1 = Some (b, rw2)" and "ask_sender S rw2 = Some (b', rw3)" and "b \<or> r_allow_skip_mode r"
    and "b' \<or> \<not> r_allow_skip_mode r"
    and "r_user_app_func r = Some f" and "sending_tick T S f a (seq + 1) n rw3 = Some (res, rw')"
proof (cases "skip = r_frequency r * 3")
  case True
  with assms have "stop_with_error S ''The client disconnected.'' (r, w) = Some (res, rw')" by (simp add: run_tick_def)
  from stop_with_error_result [OF this] True that(1) show ?thesis by blast
next
  case False
  then have e: "run_tick T S a seq skip (r, w) =
     do { (used, rw1) \<leftarrow> tolerate S (unat (r_ms_tolerance r * 2)) 0 (r, w);
          (done1, rw2) \<leftarrow> ask_sender S rw1;
          if \<not> done1 \<and> \<not> r_allow_skip_mode r then
            stop_with_error S ''Failed to send the data in the required time'' rw2
          else
            do { (done2, rw3) \<leftarrow> ask_sender S rw2;
                 f \<leftarrow> r_user_app_func r;
                 if \<not> done2 \<and> r_allow_skip_mode r then skipped_tick T S f a (seq + 1) skip used rw3
                 else sending_tick T S f a (seq + 1) used rw3 } }"
    by (simp only: run_tick_def Let_def prod.case if_False)
  obtain n rw1 where t: "tolerate S (unat (r_ms_tolerance r * 2)) 0 (r, w) = Some (n, rw1)"
    using assms unfolding e by (cases "tolerate S (unat (r_ms_tolerance r * 2)) 0 (r, w)") auto
  obtain b r2 w2 where a: "ask_sender S rw1 = Some (b, r2, w2)"
    using assms unfolding e t by (cases "ask_sender S rw1") auto
  note e = e [unfolded t a Option.bind.simps prod.case]
  show ?thesis
  proof (cases "\<not> b \<and> \<not> r_allow_skip_mode r")
    case True
    with assms e have "stop_with_error S ''Failed to send the data in the required time'' (r2, w2) = Some (res, rw')" by simp
    moreover from True a have "ask_sender S rw1 = Some (False, r2, w2)" by simp
    ultimately show ?thesis using stop_with_error_result True False t that(2) by blast
  next
    case go: False
    note e = e [unfolded if_not_P [OF go]]
    obtain b' rw3 where a': "ask_sender S (r2, w2) = Some (b', rw3)"
      using assms unfolding e by (cases "ask_sender S (r2, w2)") auto
    obtain f where f: "r_user_app_func r = Some f"
      using assms unfolding e a' by (cases "r_user_app_func r") auto
    note x = assms [unfolded e a' f Option.bind.simps prod.case]
    show ?thesis
    proof (cases "\<not> b' \<and> r_allow_skip_mode r")
      case True
      with x that(3) [OF False t a _ _ f] a' show ?thesis by simp
    next
      case s: False
      then have "sending_tick T S f a (seq + 1) n rw3 = Some (res, rw')" using x by (simp only: if_False)
      with that(4) [OF False t a a' _ _ f] s go show ?thesis by blast
    qed
  qed
qed

lemma next_tick_continue: "next_tick T S q k (r, w) = Some (Continue q' k', rw') \<Longrightarrow> q' = q \<and> k' = k"
  by (erule next_tickE) auto

lemma run_tick_counters:
  assumes "run_tick T S a seq skip (r, w) = Some (Continue seq' skip', rw')"
  shows "seq' = seq + 1 \<and> skip \<noteq> r_frequency r * 3 \<and> (skip' = 0 \<or> skip' = skip + 1 \<and> r_allow_skip_mode r)"
  using assms
proof (cases rule: run_tickE)
  case (3 n rw1 b rw2 rw3 f)
  obtain r3 w3 where "rw3 = (r3, w3)" by (cases rw3)
  with 3(7) obtain v where "next_tick T S (seq + 1) (skip + 1) (r3, v) = Some (Continue seq' skip', rw')"
    by (auto elim: skipped_tickE)
  with next_tick_continue [OF this] 3 show ?thesis by blast
next
  case (4 n rw1 b rw2 b' rw3 f)
  obtain r3 w3 where "rw3 = (r3, w3)" by (cases rw3)
  with 4(8) obtain r2 v where "next_tick T S (seq + 1) 0 (r2, v) = Some (Continue seq' skip', rw')"
    by (auto elim: sending_tickE)
  with next_tick_continue [OF this] 4 show ?thesis by blast
qed simp_all

text \<open>No part of a tick changes the settings.\<close>

lemma ask_same: "ask_sender S (r, w) = Some (b, r', w') \<Longrightarrow> same_settings r r'"
  by (auto simp: ask_sender_def split: option.splits prod.splits)

lemma send_same: "call_send S a (r, w) = Some (b, r', w') \<Longrightarrow> same_settings r r'"
  by (auto simp: call_send_def bind_eq_Some_conv)

lemma end_same: "call_end_sender S (r, w) = Some (r', w') \<Longrightarrow> same_settings r r'"
  by (auto simp: call_end_sender_def bind_eq_Some_conv)

lemma sleep_same: "call_sleep_to_next_tick T (r, w) = Some (b, r', w') \<Longrightarrow> same_settings r r'"
  by (auto simp: call_sleep_to_next_tick_def bind_eq_Some_conv)

lemma tolerate_same: "tolerate S limit used (r, w) = Some (n, r', w') \<Longrightarrow> same_settings r r'"
proof (induction "limit - used" arbitrary: used r w)
  case 0
  then show ?case by simp
next
  case (Suc k)
  then have "used < limit" by simp
  with Suc.prems(1) obtain b r1 w1 where a: "ask_sender S (r, w) = Some (b, r1, w1)"
    and c: "(if b then Some (used, r1, w1) else do { w2 \<leftarrow> microseconds_sleep 500 w1; tolerate S limit (used + 1) (r1, w2) }) = Some (n, r', w')"
    by (auto simp: bind_eq_Some_conv)
  have "same_settings r1 r'"
  proof (cases b)
    case True
    with c show ?thesis by simp
  next
    case False
    with c obtain w2 where "microseconds_sleep 500 w1 = Some w2" and t: "tolerate S limit (used + 1) (r1, w2) = Some (n, r', w')"
      by (cases "microseconds_sleep 500 w1") simp_all
    from Suc.hyps(1) [OF _ t] Suc.hyps(2) show ?thesis by simp
  qed
  with ask_same [OF a] show ?case by (rule same_settings_trans)
qed

lemma next_tick_same: "next_tick T S q k (r, w) = Some (res, r', w') \<Longrightarrow> same_settings r r'"
  by (erule next_tickE) (auto dest!: sleep_same end_same simp: same_settings_def r_set_error_def)

lemma run_tick_same:
  assumes "run_tick T S a seq skip (r, w) = Some (res, r', w')"
  shows "same_settings r r'"
  using assms
proof (cases rule: run_tickE)
  case 1
  from end_same [OF 1(3)] show ?thesis by (simp add: same_settings_def r_set_error_def)
next
  case (2 n rw1 r2 w2)
  obtain r1 w1 where e: "rw1 = (r1, w1)" by (cases rw1)
  have "same_settings r2 r'" using end_same [OF 2(6)] by (simp add: same_settings_def r_set_error_def)
  with tolerate_same [OF 2(2) [unfolded e]] ask_same [OF 2(3) [unfolded e]] show ?thesis by (blast intro: same_settings_trans)
next
  case (3 n rw1 b rw2 rw3 f)
  obtain r1 w1 r2 w2 r3 w3 where e: "rw1 = (r1, w1)" "rw2 = (r2, w2)" "rw3 = (r3, w3)" by (cases rw1; cases rw2; cases rw3)
  from 3(7) [unfolded e] have "same_settings r3 r'" by (rule skipped_tickE) (auto dest: end_same next_tick_same)
  with tolerate_same [OF 3(2) [unfolded e]] ask_same [OF 3(3) [unfolded e]] ask_same [OF 3(4) [unfolded e]]
  show ?thesis by (blast intro: same_settings_trans)
next
  case (4 n rw1 b rw2 b' rw3 f)
  obtain r1 w1 r2 w2 r3 w3 where e: "rw1 = (r1, w1)" "rw2 = (r2, w2)" "rw3 = (r3, w3)" by (cases rw1; cases rw2; cases rw3)
  have "same_settings r3 r'"
    using 4(8) [unfolded e]
  proof (cases rule: sending_tickE)
    case (2 i w1 r2 w2 s)
    have "same_settings r2 (take_sender_error S s r2)" by (simp add: take_sender_error_def split: prod.splits)
    with send_same [OF 2(3)] end_same [OF 2(6)] show ?thesis by (blast intro: same_settings_trans)
  qed (auto dest: end_same next_tick_same send_same intro: same_settings_trans)
  with tolerate_same [OF 4(2) [unfolded e]] ask_same [OF 4(3) [unfolded e]] ask_same [OF 4(4) [unfolded e]]
  show ?thesis by (blast intro: same_settings_trans)
qed

section \<open>Any timer and any sender\<close>

locale rt_system =
  tm: tick_timer T t_handler view + sn: sender_contract S s_handler ok ready sent over under_way
  for T :: "'t Timer" and t_handler view and S :: "'s Sender" and s_handler ok ready sent over under_way
begin

text \<open>
  Since a point with the system \<open>r0\<close> and the machine \<open>w0\<close>, neither the settings nor the timer have
  changed, the clock went on, and \<open>P\<close> holds of the sender and the machine.
\<close>

definition since :: "('t, 's) rstate \<Rightarrow> ('s \<Rightarrow> os \<Rightarrow> bool) \<Rightarrow> ('t, 's) rstate \<Rightarrow> bool" where
  "since rw0 P = (\<lambda>(r, w). same_settings (fst rw0) r \<and> r_timer r = r_timer (fst rw0) \<and>
     clock_goes_on (snd rw0) w \<and> (\<exists>s. r_sender r = Some s \<and> ok s \<and> P s w))"

lemma since_here: "r_sender r = Some s \<Longrightarrow> ok s \<Longrightarrow> P s w \<Longrightarrow> since (r, w) P (r, w)"
  by (simp add: since_def)

lemma since_mono: "since rw0 P rw \<Longrightarrow> (\<And>s w. P s w \<Longrightarrow> ok s \<Longrightarrow> P' s w) \<Longrightarrow> since rw0 P' rw"
  by (auto simp: since_def)

lemma since_set_error [simp]: "since rw0 P (r_set_error m r, w) = since rw0 P (r, w)"
  by (simp add: since_def)

lemma since_step:
  assumes "since rw0 P (r, w)" and "r_sender r = Some s" and "ok s'" and "thread_frame w w'" and "P s w \<Longrightarrow> ok s \<Longrightarrow> P' s' w'"
  shows "since rw0 P' (r\<lparr>r_sender := Some s'\<rparr>, w')"
  using assms clock_goes_on_trans [OF _ clock_goes_on_frame [OF assms(4)]] by (auto simp: since_def)

lemma ask_since:
  assumes "ask_sender S (r, w) = Some (b, rw')" and "since rw0 P (r, w)"
    and "\<And>s w b s' w'. P s w \<Longrightarrow> ok s \<Longrightarrow> sn_is_send_done S s w = (b, s', w') \<Longrightarrow> P' b s' w'"
  shows "since rw0 (P' b) rw'"
proof -
  obtain s where s: "r_sender r = Some s" "ok s" using assms(2) by (auto simp: since_def)
  with assms(1) obtain s' w' where a: "sn_is_send_done S s w = (b, s', w')" and r: "rw' = (r\<lparr>r_sender := Some s'\<rparr>, w')"
    by (auto simp: ask_sender_def split: prod.splits)
  from sn.done_law [OF a s(2)] show ?thesis unfolding r
    by (intro since_step [OF assms(2) s(1)]) (use assms(3) a in auto)
qed

lemma send_since:
  assumes "call_send S a (r, w) = Some (b, rw')" and "since rw0 P (r, w)"
    and "\<And>s w b s' w'. P s w \<Longrightarrow> ok s \<Longrightarrow> sn_send S a s w = Some (b, s', w') \<Longrightarrow> P' b s' w'"
  shows "since rw0 (P' b) rw'"
proof -
  obtain s where s: "r_sender r = Some s" "ok s" using assms(2) by (auto simp: since_def)
  with assms(1) obtain s' w' where a: "sn_send S a s w = Some (b, s', w')" and r: "rw' = (r\<lparr>r_sender := Some s'\<rparr>, w')"
    by (auto simp: call_send_def bind_eq_Some_conv)
  from sn.send_law [OF a s(2)] show ?thesis unfolding r
    by (intro since_step [OF assms(2) s(1)]) (use assms(3) a in auto)
qed

lemma end_since:
  assumes "call_end_sender S (r, w) = Some rw'" and "since rw0 P (r, w)"
    and "\<And>s w b s' w'. P s w \<Longrightarrow> ok s \<Longrightarrow> sn_end_sender S s w = Some (b, s', w') \<Longrightarrow> P' s' w'"
  shows "since rw0 (\<lambda>s w. over s \<and> P' s w) rw'"
proof -
  obtain s where s: "r_sender r = Some s" "ok s" using assms(2) by (auto simp: since_def)
  with assms(1) obtain b s' w' where a: "sn_end_sender S s w = Some (b, s', w')" and r: "rw' = (r\<lparr>r_sender := Some s'\<rparr>, w')"
    by (auto simp: call_end_sender_def bind_eq_Some_conv)
  from sn.end_law [OF a s(2)] show ?thesis unfolding r
    by (intro since_step [OF assms(2) s(1)]) (use assms(3) a in auto)
qed

lemma slept_since:
  assumes "slept w naps w'" and "since rw0 P (r, w)" and "\<And>s. P s w \<Longrightarrow> P' s w'"
  shows "since rw0 P' (r, w')"
  using assms sleptD(1,2) [OF assms(1)] by (auto simp: since_def clock_goes_on_def)

lemma user_since:
  assumes "call_user f a i w = (i', w')" and "since rw0 P (r, w)" and "\<And>s. P s w \<Longrightarrow> wire w' = wire w \<Longrightarrow> P' s w'"
  shows "since rw0 P' (r, w')"
  using assms call_user_result [OF assms(1)] clock_goes_on_trans by (auto simp: since_def)

text \<open>What asking and sleeping keep, the tolerance loop keeps.\<close>

definition kept :: "('s \<Rightarrow> os \<Rightarrow> bool) \<Rightarrow> bool" where
  "kept P \<longleftrightarrow> (\<forall>s w b s' w'. P s w \<longrightarrow> ok s \<longrightarrow> sn_is_send_done S s w = (b, s', w') \<longrightarrow> P s' w') \<and>
     (\<forall>s w naps w'. P s w \<longrightarrow> slept w naps w' \<longrightarrow> P s w')"

lemma ask_kept:
  assumes "ask_sender S (r, w) = Some (b, rw')" and "since rw0 P (r, w)" and "kept P"
  shows "since rw0 P rw'"
  using ask_since [OF assms(1,2), of "\<lambda>_. P"] assms(3) unfolding kept_def by blast

lemma tolerate_since:
  assumes "tolerate S limit used (r, w) = Some (n, rw')" and "since rw0 P (r, w)" and "kept P"
  shows "since rw0 P rw' \<and> (used \<le> limit \<longrightarrow> used \<le> n \<and> n \<le> limit)"
  using assms(1,2)
proof (induction "limit - used" arbitrary: used r w)
  case 0
  then show ?case by simp
next
  case (Suc k)
  then have lt: "used < limit" by simp
  with Suc.prems(1) obtain b r1 w1 where a: "ask_sender S (r, w) = Some (b, r1, w1)"
    and c: "(if b then Some (used, r1, w1) else do { w2 \<leftarrow> microseconds_sleep 500 w1; tolerate S limit (used + 1) (r1, w2) }) = Some (n, rw')"
    by (auto simp: bind_eq_Some_conv)
  note p = ask_kept [OF a Suc.prems(2) assms(3)]
  show ?case
  proof (cases b)
    case True
    with c p lt show ?thesis by simp
  next
    case False
    with c obtain w2 where w2: "microseconds_sleep 500 w1 = Some w2" and t: "tolerate S limit (used + 1) (r1, w2) = Some (n, rw')"
      by (auto simp: bind_eq_Some_conv)
    from w2 have "nanoseconds_sleep (US_TO_NS 500) w1 = Some w2" by (simp add: microseconds_sleep_def)
    from nanoseconds_sleep_slept [OF this] obtain naps where n: "slept w1 naps w2" ..
    have "since rw0 P (r1, w2)" using slept_since [OF n p, of P] assms(3) n unfolding kept_def by blast
    from Suc.hyps(1) [OF _ t this] Suc.hyps(2) have "since rw0 P rw' \<and> (used + 1 \<le> limit \<longrightarrow> used + 1 \<le> n \<and> n \<le> limit)" by simp
    with lt show ?thesis by simp
  qed
qed

subsection \<open>One tick and the wire\<close>

abbreviation has :: "('s \<Rightarrow> os \<Rightarrow> bool) \<Rightarrow> ('t, 's) rstate \<Rightarrow> bool" where
  "has P rw \<equiv> since rw P rw"

lemma has_since: "since rw0 P rw \<Longrightarrow> has P rw"
  by (auto simp: since_def)

text \<open>
  \<open>m\<close> is the skip mode, in which nothing is claimed. \<open>W\<close> is what was on the wire when the run
  began and \<open>ps\<close> are the payloads handed over since: between two ticks the last of them may still be
  on its way, caught up none is, and in the end a part of the last may be missing.
\<close>

definition caught :: "bool \<Rightarrow> byte list \<Rightarrow> 's \<Rightarrow> os \<Rightarrow> bool" where
  "caught m W s w \<longleftrightarrow> m \<or> sent s \<and> wire w = W"

definition handed :: "bool \<Rightarrow> byte list \<Rightarrow> ptr \<Rightarrow> 's \<Rightarrow> os \<Rightarrow> bool" where
  "handed m W a s w \<longleftrightarrow> m \<or> (\<exists>v. under_way v a s w \<and> wire v = W)"

definition between :: "bool \<Rightarrow> byte list \<Rightarrow> byte list list \<Rightarrow> ptr \<Rightarrow> 's \<Rightarrow> os \<Rightarrow> bool" where
  "between m W ps a s w \<longleftrightarrow>
     (if ps = [] then caught m W s w
      else handed m (W @ concat (butlast ps)) a s w \<and> (m \<or> last ps = payload w (lists w a)))"

definition at_end :: "bool \<Rightarrow> byte list \<Rightarrow> byte list list \<Rightarrow> os \<Rightarrow> bool" where
  "at_end m W ps w \<longleftrightarrow>
     m \<or> prefix (W @ concat (butlast ps)) (wire w) \<and> prefix (wire w) (W @ concat ps)"

lemma concat_split: "ps \<noteq> [] \<Longrightarrow> concat ps = concat (butlast ps) @ last ps"
  by (metis append_butlast_last_id concat.simps concat_append append_Nil2)

lemma prefix_butlast: "prefix (concat (butlast ps)) (concat ps)"
  by (cases "ps = []") (simp_all add: concat_split)

lemma slept_same: "slept w naps w' \<Longrightarrow> payload w' (lists w' a) = payload w (lists w a)"
  using thread_frameD(3,7) [OF thread_frame_slept] by metis

lemma under_way_same: "under_way v a s w \<Longrightarrow> payload w (lists w a) = payload v (lists v a)"
  using thread_frameD(3,7) [OF sn.under_way_ok [THEN conjunct2, THEN conjunct2]] by metis

lemma kept_caught: "kept (caught m W)"
  unfolding kept_def caught_def using sn.done_idle sleptD(6) by metis

lemma kept_handed: "kept (handed m W a)"
  unfolding kept_def handed_def using sn.done_under_way sn.nap_under_way by blast

lemma kept_between: "kept (between m W ps a)"
proof (cases "ps = []")
  case True
  then have "between m W ps a = caught m W" by (simp add: between_def fun_eq_iff)
  then show ?thesis by (simp add: kept_caught)
next
  case False
  let ?H = "handed m (W @ concat (butlast ps)) a" and ?l = "\<lambda>w. m \<or> last ps = payload w (lists w a)"
  have b: "between m W ps a s w \<longleftrightarrow> ?H s w \<and> ?l w" for s w using False by (simp add: between_def)
  have "?l w' = ?l w" if "sn_is_send_done S s w = (b, s', w')" "ok s" for s w b s' w'
    using thread_frameD(3,7) [of w w'] sn.done_law [OF that] by simp
  moreover have "?l w' = ?l w" if "slept w naps w'" for w naps w'
    using slept_same [OF that] by simp
  ultimately show ?thesis using kept_handed [of m "W @ concat (butlast ps)" a] unfolding kept_def b by blast
qed

lemma between_done:
  assumes "between m W ps a s w" and "ok s" and "sn_is_send_done S s w = (True, s', w')"
  shows "caught m (W @ concat ps) s' w'"
proof (cases "m \<or> ps = []")
  case True
  with assms sn.done_idle [OF assms(3,2)] show ?thesis by (auto simp: between_def caught_def)
next
  case False
  with assms(1) obtain v where v: "under_way v a s w" "wire v = W @ concat (butlast ps)" "last ps = payload w (lists w a)"
    by (auto simp: between_def handed_def)
  have "wire w' = W @ concat (butlast ps) @ last ps"
    using sn.done_under_way [OF assms(3) v(1)] under_way_same [OF v(1)] v(2,3) by simp
  also have "concat (butlast ps) @ last ps = concat ps" by (rule concat_split [symmetric]) (use False in simp)
  finally show ?thesis using sn.done_law [OF assms(3,2)] by (simp add: caught_def)
qed

lemma end_caught:
  assumes "caught m (W @ concat ps) s w" and "ok s" and "sn_end_sender S s w = Some (b, s', w')"
  shows "at_end m W ps w'"
  using assms sn.end_law [OF assms(3,2)] prefix_butlast by (auto simp: caught_def at_end_def)

lemma end_handed:
  assumes "handed m (W @ concat ps) a s w" and "ok s" and "sn_end_sender S s w = Some (b, s', w')"
  shows "at_end m W (ps @ [payload w' (lists w' a)]) w'"
proof (cases m)
  case False
  with assms(1) obtain v where v: "under_way v a s w" "wire v = W @ concat ps" by (auto simp: handed_def)
  have "thread_frame w w'" using sn.end_law [OF assms(3,2)] by blast
  then have "payload w' (lists w' a) = payload v (lists v a)"
    using under_way_same [OF v(1)] thread_frameD(3,7) by metis
  with sn.end_under_way [OF assms(3) v(1)] v(2) show ?thesis by (simp add: at_end_def)
qed (simp add: at_end_def)

lemma end_between:
  assumes "between m W ps a s w" and "ok s" and "sn_end_sender S s w = Some (b, s', w')"
  shows "at_end m W ps w'"
proof (cases "m \<or> ps = []")
  case True
  with assms end_caught [of m W ps] show ?thesis by (auto simp: between_def at_end_def caught_def)
next
  case False
  with assms(1) have h: "handed m (W @ concat (butlast ps)) a s w" and l: "last ps = payload w (lists w a)"
    by (simp_all add: between_def)
  have "payload w' (lists w' a) = payload w (lists w a)"
    using thread_frameD(3,7) sn.end_law [OF assms(3,2)] by metis
  with l False have "butlast ps @ [payload w' (lists w' a)] = ps" by (metis append_butlast_last_id)
  with end_handed [OF h assms(2,3)] show ?thesis by simp
qed

lemma call_sleep_result:
  assumes "call_sleep_to_next_tick T (r, w) = Some (b, r1, w1)" and "since rw0 P (r, w)"
    and "\<And>s naps. P s w \<Longrightarrow> slept w naps w1 \<Longrightarrow> P s w1"
  shows "has P (r1, w1) \<and> same_settings (fst rw0) r1 \<and>
    (\<exists>t t1 naps. r_timer (fst rw0) = Some t \<and> tm_sleep_to_next_tick T t w = Some (b, t1, w1) \<and>
       r_timer r1 = Some t1 \<and> clock_goes_on (snd rw0) w \<and> slept w naps w1)"
proof -
  from assms(1) obtain t t1 where t: "r_timer r = Some t" "tm_sleep_to_next_tick T t w = Some (b, t1, w1)"
    and r: "r1 = r\<lparr>r_timer := Some t1\<rparr>" by (auto simp: call_sleep_to_next_tick_def bind_eq_Some_conv)
  obtain naps where "slept w naps w1" using tm.sleep_slept [OF t(2)] by blast
  moreover from this assms(2,3) r have "has P (r1, w1)" "same_settings (fst rw0) r1" by (auto simp: since_def)
  moreover from assms(2) t(1) have "r_timer (fst rw0) = Some t" "clock_goes_on (snd rw0) w" by (simp_all add: since_def)
  ultimately show ?thesis using t(2) r by auto
qed

lemma call_end_same: "call_end_sender S (r, w) = Some (r', w') \<Longrightarrow>
    r_error_handler r' = r_error_handler r \<and> same_settings r r'"
  by (auto simp: call_end_sender_def bind_eq_Some_conv)

text \<open>How a run comes to its end, and how a tick hands on to the next.\<close>

definition stopped :: "(os \<Rightarrow> bool) \<Rightarrow> bool \<Rightarrow> ('t, 's) rstate \<Rightarrow> ('t, 's) rstate \<Rightarrow> bool" where
  "stopped E b rw rw' \<longleftrightarrow> has (\<lambda>s w. over s \<and> E w) rw' \<and> same_settings (fst rw) (fst rw') \<and>
     (\<not> b \<longrightarrow> RealTimeSystem_is_error (fst rw'))"

definition went_on :: "('s \<Rightarrow> os \<Rightarrow> bool) \<Rightarrow> ('t, 's) rstate \<Rightarrow> ('t, 's) rstate \<Rightarrow> bool" where
  "went_on P rw rw' \<longleftrightarrow> has P rw' \<and> same_settings (fst rw) (fst rw') \<and>
     (\<exists>t t1 w naps. r_timer (fst rw) = Some t \<and> tm_sleep_to_next_tick T t w = Some (True, t1, snd rw') \<and>
        r_timer (fst rw') = Some t1 \<and> clock_goes_on (snd rw) w \<and> slept w naps (snd rw'))"

lemma stop_error:
  assumes "call_end_sender S (r_set_error m r, w) = Some rw'" and "since rw0 P (r, w)"
    and "\<And>s w s' w' b. P s w \<Longrightarrow> ok s \<Longrightarrow> sn_end_sender S s w = Some (b, s', w') \<Longrightarrow> E w'"
  shows "stopped E False rw0 rw'"
proof -
  obtain r' w' where rw': "rw' = (r', w')" by (cases rw')
  have "since rw0 P (r_set_error m r, w)" using assms(2) by simp
  from end_since [OF assms(1) this assms(3)] have "since rw0 (\<lambda>s w. over s \<and> E w) rw'" .
  with call_end_same [OF assms(1) [unfolded rw']] rw' show ?thesis
    by (auto simp: stopped_def has_since since_def r_set_error_def RealTimeSystem_is_error_def)
qed

lemma stop_asked:
  assumes "call_end_sender S (r, w) = Some rw'" and "since rw0 P (r, w)"
    and "\<And>s w s' w' b. P s w \<Longrightarrow> ok s \<Longrightarrow> sn_end_sender S s w = Some (b, s', w') \<Longrightarrow> E w'"
  shows "stopped E True rw0 rw'"
proof -
  have "since rw0 (\<lambda>s w. over s \<and> E w) rw'" by (rule end_since [OF assms(1,2)]) (rule assms(3))
  then show ?thesis by (auto simp: stopped_def has_since since_def)
qed

lemma next_tick_result:
  assumes "next_tick T S q k (r, w) = Some (res, rw')" and "since rw0 P (r, w)"
    and "\<And>s w naps w'. P s w \<Longrightarrow> slept w naps w' \<Longrightarrow> P s w'"
    and "\<And>s w s' w' b. P s w \<Longrightarrow> ok s \<Longrightarrow> sn_end_sender S s w = Some (b, s', w') \<Longrightarrow> E w'"
  shows "case res of Continue _ _ \<Rightarrow> went_on P rw0 rw' | Return b \<Rightarrow> \<not> b \<and> stopped E b rw0 rw'"
  using assms(1)
proof (cases rule: next_tickE)
  case (1 r1 w1)
  have "has P (r1, w1) \<and> same_settings (fst rw0) r1 \<and>
    (\<exists>t t1 naps. r_timer (fst rw0) = Some t \<and> tm_sleep_to_next_tick T t w = Some (True, t1, w1) \<and>
       r_timer r1 = Some t1 \<and> clock_goes_on (snd rw0) w \<and> slept w naps w1)"
    using call_sleep_result [OF 1(1) assms(2)] assms(3) by blast
  then have "went_on P rw0 (r1, w1)" unfolding went_on_def fst_conv snd_conv by blast
  with 1(2,3) show ?thesis by simp
next
  case (2 r1 w1)
  have c: "has P (r1, w1)" "same_settings (fst rw0) r1"
    using call_sleep_result [OF 2(1) assms(2)] assms(3) by blast+
  have "stopped E False (r1, w1) rw'" by (rule stop_error [OF 2(3) c(1)]) (rule assms(4))
  with c(2) 2(2) show ?thesis by (auto simp: stopped_def intro: same_settings_trans)
qed

lemma went_on_mono:
  "went_on P rw rw' \<Longrightarrow> (\<And>s. P s (snd rw') \<Longrightarrow> P' s (snd rw')) \<Longrightarrow> went_on P' rw rw'"
  by (auto simp: went_on_def since_def)

lemma between_skip [simp]: "between True W ps a s w" "at_end True W ps w"
  by (simp_all add: between_def caught_def handed_def at_end_def)

abbreviation now :: "ptr \<Rightarrow> ('t, 's) rstate \<Rightarrow> byte list" where
  "now a rw \<equiv> payload (snd rw) (lists (snd rw) a)"

lemma skipped_tick_result:
  assumes "skipped_tick T S f a q k used (r, w) = Some (res, rw')" and "since rw0 P (r, w)"
  shows "case res of Continue _ _ \<Rightarrow> went_on (\<lambda>_ _. True) rw0 rw' | Return b \<Rightarrow> stopped (\<lambda>_. True) b rw0 rw'"
  using assms(1)
proof (cases rule: skipped_tickE)
  case (1 i w1)
  have "since rw0 (\<lambda>_ _. True) (r, w1)" by (rule user_since [OF 1(1) assms(2)]) simp
  from stop_asked [OF 1(4) this, of "\<lambda>_. True"] 1(3) show ?thesis by simp
next
  case (2 i w1)
  have "since rw0 (\<lambda>_ _. True) (r, w1)" by (rule user_since [OF 2(1) assms(2)]) simp
  from next_tick_result [OF 2(3) this, of "\<lambda>_. True"] show ?thesis by (auto split: tick_result.splits)
qed

lemma sending_tick_result:
  assumes "sending_tick T S f a q used (r, w) = Some (res, rw')" and "since rw0 (caught m (W @ concat ps)) (r, w)"
  shows "case res of Continue _ _ \<Rightarrow> went_on (handed m (W @ concat ps) a) rw0 rw'
    | Return b \<Rightarrow> \<exists>qs \<in> {ps, ps @ [now a rw']}. stopped (at_end m W qs) b rw0 rw'"
proof -
  let ?C = "caught m (W @ concat ps)" and ?H = "handed m (W @ concat ps) a"
  have u: "since rw0 ?C (r, w1)" if "call_user f a i w = (i', w1)" for i i' w1
    by (rule user_since [OF that assms(2)]) (auto simp: caught_def)
  have sent: "since rw0 (\<lambda>s w. if b then ?H s w else ?C s w) (r2, w2)" if "call_send S a (r, w1) = Some (b, r2, w2)" "since rw0 ?C (r, w1)"
    for b r2 w1 w2
    by (rule send_since [OF that, where P' = "\<lambda>b s w. if b then ?H s w else ?C s w"])
      (use sn.send_law in \<open>fastforce simp: caught_def handed_def\<close>)
  from assms(1) show ?thesis
  proof (cases rule: sending_tickE)
    case (1 i w1)
    from stop_asked [OF 1(4) u [OF 1(1)] end_caught] 1(3) show ?thesis by simp
  next
    case (2 i w1 r2 w2 s)
    from sent [OF 2(3) u [OF 2(1)]] have c: "since rw0 ?C (r2, w2)" by simp
    obtain msg s1 where g: "sn_get_error S s = (msg, s1)" by (cases "sn_get_error S s")
    with sn.get_error_law [of s] have "ok s1 = ok s" "sent s1 = sent s" by simp_all
    with c 2(4) have c': "since rw0 ?C (r2\<lparr>r_sender := Some s1\<rparr>, w2)" by (auto simp: since_def caught_def)
    have e: "call_end_sender S (r_set_error msg (r2\<lparr>r_sender := Some s1\<rparr>), w2) = Some rw'"
      using 2(6) g by (simp add: take_sender_error_def)
    from stop_error [OF e c' end_caught] 2(5) show ?thesis by simp
  next
    case (3 i w1 r2 w2)
    from sent [OF 3(3) u [OF 3(1)]] have h: "since rw0 ?H (r2, w2)" by simp
    have e: "at_end m W (ps @ [payload w' (lists w' a)]) w'"
      if "?H s w" "ok s" "sn_end_sender S s w = Some (b, s', w')" for s w b s' w'
      using end_handed [OF that] .
    have k: "?H s w'" if "?H s w" "slept w naps w'" for s w naps w'
      using kept_handed that unfolding kept_def by blast
    let ?E = "\<lambda>w'. at_end m W (ps @ [payload w' (lists w' a)]) w'"
    have "case res of Continue _ _ \<Rightarrow> went_on ?H rw0 rw' | Return b \<Rightarrow> \<not> b \<and> stopped ?E b rw0 rw'"
      using next_tick_result [OF 3(4) h, of ?E] k e by blast
    moreover have "stopped (at_end m W (ps @ [now a rw'])) b rw0 rw'"
      if "stopped (\<lambda>w'. at_end m W (ps @ [payload w' (lists w' a)]) w') b rw0 rw'" for b
      using that by (auto simp: stopped_def since_def)
    ultimately show ?thesis by (auto split: tick_result.splits)
  qed
qed

lemma run_tick_result:
  assumes "run_tick T S a seq skip (r, w) = Some (res, rw')" and "has (between m W ps a) (r, w)"
    and "r_allow_skip_mode r \<Longrightarrow> m"
  shows "case res of Continue _ _ \<Rightarrow> went_on (between m W (ps @ [now a rw']) a) (r, w) rw'
    | Return b \<Rightarrow> \<exists>qs \<in> {ps, ps @ [now a rw']}. stopped (at_end m W qs) b (r, w) rw'"
  using assms(1)
proof (cases rule: run_tickE)
  case 1
  from stop_error [OF 1(3) assms(2) end_between] 1(2) show ?thesis by simp
next
  case (2 n rw1 r2 w2)
  obtain r1 w1 where rw1: "rw1 = (r1, w1)" by (cases rw1)
  from tolerate_since [OF 2(2) assms(2) kept_between] rw1 have "since (r, w) (between m W ps a) (r1, w1)" by simp
  from ask_kept [OF 2(3) [unfolded rw1] this kept_between] have "since (r, w) (between m W ps a) (r2, w2)" .
  from stop_error [OF 2(6) this end_between] 2(5) show ?thesis by simp
next
  case (3 n rw1 b rw2 rw3 f)
  obtain r1 w1 r2 w2 r3 w3 where e: "rw1 = (r1, w1)" "rw2 = (r2, w2)" "rw3 = (r3, w3)" by (cases rw1; cases rw2; cases rw3)
  from tolerate_since [OF 3(2) assms(2) kept_between] e have p: "since (r, w) (between m W ps a) (r1, w1)" by simp
  from ask_kept [OF 3(3) [unfolded e] p kept_between] e have "since (r, w) (between m W ps a) (r2, w2)" by simp
  from ask_kept [OF 3(4) [unfolded e] this kept_between] have "since (r, w) (between m W ps a) (r3, w3)" .
  from skipped_tick_result [OF 3(7) [unfolded e] this] 3(5) assms(3)
  show ?thesis by (auto split: tick_result.splits elim: went_on_mono simp: stopped_def)
next
  case (4 n rw1 b rw2 b' rw3 f)
  obtain r1 w1 r2 w2 r3 w3 where e: "rw1 = (r1, w1)" "rw2 = (r2, w2)" "rw3 = (r3, w3)" by (cases rw1; cases rw2; cases rw3)
  from tolerate_since [OF 4(2) assms(2) kept_between] e have p: "since (r, w) (between m W ps a) (r1, w1)" by simp
  have "since (r, w) (if b then caught m (W @ concat ps) else (\<lambda>_ _. True)) (r2, w2)"
    by (rule ask_since [OF 4(3) [unfolded e] p, where P' = "\<lambda>b. if b then caught m (W @ concat ps) else (\<lambda>_ _. True)"])
      (auto dest: between_done)
  moreover have "\<not> b \<Longrightarrow> m" using 4(5) assms(3) by simp
  ultimately have "since (r, w) (caught m (W @ concat ps)) (r2, w2)"
    by (cases b) (auto elim: since_mono simp: caught_def)
  from ask_kept [OF 4(4) [unfolded e] this kept_caught] have "since (r, w) (caught m (W @ concat ps)) (r3, w3)" .
  from sending_tick_result [OF 4(8) [unfolded e] this]
  show ?thesis by (auto split: tick_result.splits elim!: went_on_mono simp: between_def)
qed

subsection \<open>One tick and the user function\<close>

text \<open>
  \<open>called U\<close>: the calls of the user function so far are \<open>U\<close>. Asking, sleeping, sending and ending do
  not call it.
\<close>

definition called :: "event list \<Rightarrow> 's \<Rightarrow> os \<Rightarrow> bool" where
  "called U s w \<longleftrightarrow> user_calls w = U"

lemma kept_called: "kept (called U)"
  unfolding kept_def called_def using sn.done_law slept_user_calls thread_frameD(11) by metis

lemma end_called:
  assumes "call_end_sender S (r, w) = Some rw'" and "since rw0 (called U) (r, w)"
  shows "has (called U) rw'"
proof -
  have "since rw0 (\<lambda>s w. over s \<and> called U s w) rw'"
    by (rule end_since [OF assms]) (use sn.end_law thread_frameD(11) in \<open>auto simp: called_def\<close>)
  then show ?thesis by (auto elim: since_mono intro: has_since)
qed

lemma next_tick_called:
  assumes "next_tick T S q k (r, w) = Some (res, rw')" and "since rw0 (called U) (r, w)"
  shows "has (called U) rw' \<and> (res = Continue q k \<or> res = Return False)"
proof -
  have nap: "called U s w'" if "called U s w" "slept w naps w'" for s w naps w'
    using that slept_user_calls by (simp add: called_def)
  from assms(1) show ?thesis
  proof (cases rule: next_tickE)
    case (1 r1 w1)
    with call_sleep_result [OF 1(1) assms(2)] nap show ?thesis by simp
  next
    case (2 r1 w1)
    have "since (r1, w1) (called U) (r_set_error tick_missed_message r1, w1)"
      using call_sleep_result [OF 2(1) assms(2)] nap by simp
    from end_called [OF 2(3) this] 2(2) show ?thesis by simp
  qed
qed

text \<open>The end of a tick in which the user function was told \<open>i\<close>.\<close>

definition tick_called :: "user_fn \<Rightarrow> event list \<Rightarrow> RealTimeInfo \<Rightarrow> uint_fast32 \<Rightarrow> tick_result \<Rightarrow> ('t, 's) rstate \<Rightarrow> bool" where
  "tick_called f U i k res rw' \<longleftrightarrow> has (called (U @ [told i])) rw' \<and>
     (res = Continue (get_sequence_number i) (if is_skipped_data i then k + 1 else 0) \<or> res = Return False \<or>
      res = Return True \<and> (\<exists>v. user_calls v = U \<and> fst (snd (f i v))))"

lemma user_called:
  assumes "call_user f a i w = (i', w')" and "since rw0 (called U) (r, w)" and "\<not> is_system_stopped i"
  shows "since rw0 (called (U @ [told i])) (r, w')"
    and "is_system_stopped i' \<Longrightarrow> user_calls w = U \<and> fst (snd (f i w))"
proof -
  have u: "user_calls w = U" using assms(2) by (auto simp: since_def called_def)
  show "since rw0 (called (U @ [told i])) (r, w')"
    by (rule user_since [OF assms(1,2)]) (use call_user_calls [OF assms(1)] u in \<open>simp add: called_def\<close>)
  show "is_system_stopped i' \<Longrightarrow> user_calls w = U \<and> fst (snd (f i w))"
    using call_user_result(3) [OF assms(1)] assms(3) u by simp
qed

lemma skipped_tick_called:
  assumes "skipped_tick T S f a q k used (r, w) = Some (res, rw')" and "since rw0 (called U) (r, w)"
  shows "\<exists>i. get_sequence_number i = q \<and> is_skipped_data i \<and> tick_called f U i k res rw'"
proof (intro exI conjI)
  let ?i = "RealTimeInfo_ctor q True (of_nat (used div 2)) False"
  show "get_sequence_number ?i = q" "is_skipped_data ?i" by simp_all
  from assms(1) show "tick_called f U ?i k res rw'"
  proof (cases rule: skipped_tickE)
    case (1 i w1)
    note u = user_called [OF 1(1) assms(2)]
    from end_called [OF 1(4) u(1)] u(2) 1(2,3) show ?thesis by (auto simp: tick_called_def)
  next
    case (2 i w1)
    from next_tick_called [OF 2(3) user_called(1) [OF 2(1) assms(2)]] show ?thesis by (auto simp: tick_called_def)
  qed
qed

lemma sending_tick_called:
  assumes "sending_tick T S f a q used (r, w) = Some (res, rw')" and "since rw0 (called U) (r, w)"
  shows "\<exists>i. get_sequence_number i = q \<and> \<not> is_skipped_data i \<and> tick_called f U i k res rw'"
proof (intro exI conjI)
  let ?i = "RealTimeInfo_ctor q False (of_nat used) False"
  show "get_sequence_number ?i = q" "\<not> is_skipped_data ?i" by simp_all
  have sent: "since rw0 (called U') (r2, w2)" if "call_send S a (r, w1) = Some (b, r2, w2)" "since rw0 (called U') (r, w1)"
    for b r2 w1 w2 U'
    by (rule send_since [OF that, of "\<lambda>_. called U'"]) (use sn.send_law thread_frameD(11) in \<open>auto simp: called_def\<close>)
  from assms(1) show "tick_called f U ?i k res rw'"
  proof (cases rule: sending_tickE)
    case (1 i w1)
    note u = user_called [OF 1(1) assms(2)]
    from end_called [OF 1(4) u(1)] u(2) 1(2,3) show ?thesis by (auto simp: tick_called_def)
  next
    case (2 i w1 r2 w2 s)
    have "since rw0 (called (U @ [told ?i])) (r2, w2)"
      using sent [OF 2(3) user_called(1) [OF 2(1) assms(2)]] by simp
    then have "since rw0 (called (U @ [told ?i])) (take_sender_error S s r2, w2)"
      using 2(4) sn.get_error_law [of s] by (auto simp: since_def called_def take_sender_error_def split: prod.splits)
    from end_called [OF 2(6) this] 2(5) show ?thesis by (simp add: tick_called_def)
  next
    case (3 i w1 r2 w2)
    from next_tick_called [OF 3(4) sent [OF 3(3) user_called(1) [OF 3(1) assms(2)]]]
    show ?thesis by (auto simp: tick_called_def)
  qed
qed

text \<open>
  A tick gives up without calling the user function, or calls it once, with the next number, and
  counts the skipped ticks.
\<close>

lemma run_tick_called:
  assumes "run_tick T S a seq skip (r, w) = Some (res, rw')" and "has (called U) (r, w)"
  shows "has (called U) rw' \<and> res = Return False \<and>
      (skip = r_frequency r * 3 \<longrightarrow> fst (RealTimeSystem_get_error (fst rw')) = ''The client disconnected.'') \<or>
    skip \<noteq> r_frequency r * 3 \<and>
    (\<exists>f i. r_user_app_func r = Some f \<and> get_sequence_number i = seq + 1 \<and> (is_skipped_data i \<longrightarrow> r_allow_skip_mode r) \<and>
       tick_called f U i skip res rw')"
  using assms(1)
proof (cases rule: run_tickE)
  case 1
  obtain r' w' where e: "rw' = (r', w')" by (cases rw')
  have "since (r, w) (called U) (r_set_error ''The client disconnected.'' r, w)" using assms(2) by simp
  moreover have "fst (RealTimeSystem_get_error r') = ''The client disconnected.''"
    using call_end_same [OF 1(3) [unfolded e]] by (simp add: RealTimeSystem_get_error_def r_set_error_def)
  ultimately show ?thesis using end_called [OF 1(3)] 1(2) e by simp
next
  case (2 n rw1 r2 w2)
  obtain r1 w1 where rw1: "rw1 = (r1, w1)" by (cases rw1)
  from tolerate_since [OF 2(2) assms(2) kept_called] rw1 have "since (r, w) (called U) (r1, w1)" by simp
  from ask_kept [OF 2(3) [unfolded rw1] this kept_called]
  have "since (r, w) (called U) (r_set_error ''Failed to send the data in the required time'' r2, w2)" by simp
  from end_called [OF 2(6) this] 2(1,5) show ?thesis by simp
next
  case (3 n rw1 b rw2 rw3 f)
  obtain r1 w1 r2 w2 r3 w3 where e: "rw1 = (r1, w1)" "rw2 = (r2, w2)" "rw3 = (r3, w3)" by (cases rw1; cases rw2; cases rw3)
  from tolerate_since [OF 3(2) assms(2) kept_called] e have p: "since (r, w) (called U) (r1, w1)" by simp
  from ask_kept [OF 3(3) [unfolded e] p kept_called] e have "since (r, w) (called U) (r2, w2)" by simp
  from ask_kept [OF 3(4) [unfolded e] this kept_called] have "since (r, w) (called U) (r3, w3)" .
  from skipped_tick_called [OF 3(7) [unfolded e] this] 3(1,5,6) show ?thesis by blast
next
  case (4 n rw1 b rw2 b' rw3 f)
  obtain r1 w1 r2 w2 r3 w3 where e: "rw1 = (r1, w1)" "rw2 = (r2, w2)" "rw3 = (r3, w3)" by (cases rw1; cases rw2; cases rw3)
  from tolerate_since [OF 4(2) assms(2) kept_called] e have p: "since (r, w) (called U) (r1, w1)" by simp
  from ask_kept [OF 4(3) [unfolded e] p kept_called] e have "since (r, w) (called U) (r2, w2)" by simp
  from ask_kept [OF 4(4) [unfolded e] this kept_called] have "since (r, w) (called U) (r3, w3)" .
  from sending_tick_called [OF 4(8) [unfolded e] this, of skip] 4(1,7) show ?thesis by blast
qed

end

end
