(* ===== verification/System_Contract.thy ===== *)
theory System_Contract
  imports System_Run
begin

text \<open>
  What \<^verbatim>\<open>RealTimeSystem\<close> promises its user, as specifications over its calls, and the proof that
  the system keeps them over any timer and any sender that keep their contracts.
\<close>

section \<open>Specifications\<close>

text \<open>Entering the loop of \<^verbatim>\<open>run\<close>: the timer is started, the flag is reset, the list is empty.\<close>

definition begin_run :: "'t Timer \<Rightarrow> ptr \<Rightarrow> ('t, 's) rstate \<Rightarrow> bool \<times> ('t, 's) rstate" where
  "begin_run T a = (\<lambda>(r, w).
     let (started, t1, w1) = tm_start_timer T (the (r_timer r)) w
     in (started, r\<lparr>r_initialized := False, r_timer := Some t1\<rparr>, w1\<lparr>lists := (lists w1)(a := [])\<rparr>))"

text \<open>
  In-order delivery: when a run without skip mode comes to its end, it has made some ticks, each of
  which handed over the payload of one list, and the wire holds what was there before and these
  payloads in order, up to a part of the last one that may be missing.
\<close>

definition delivers_in_order :: "'t Timer \<Rightarrow> 's Sender \<Rightarrow> ('s \<Rightarrow> bool) \<Rightarrow> bool" where
  [spec_defs]: "delivers_in_order T S fresh \<longleftrightarrow>
     (\<forall>a r w s b r' w'.
        run T S a (r, w) = Some (b, r', w') \<and> r_initialized r \<and> \<not> r_allow_skip_mode r \<and>
        r_sender r = Some s \<and> fresh s \<and> fst (begin_run T a (r, w)) \<longrightarrow>
        (\<exists>n ps seq skip rw1 qs.
           ticks T S a n (snd (begin_run T a (r, w))) = Some (ps, seq, skip, rw1) \<and>
           run_tick T S a seq skip rw1 = Some (Return b, r', w') \<and>
           (qs = ps \<or> qs = ps @ [payload w' (lists w' a)]) \<and>
           prefix (wire w @ concat (butlast qs)) (wire w') \<and> prefix (wire w') (wire w @ concat qs)))"

text \<open>
  A clean end, with or without skip mode: the system is not initialised any more; the sender was
  ended if the system had been initialised and the timer started, and otherwise the answer is false
  and the sender was not touched; the answer false comes with an error to be fetched, and the
  answer true only when the last call of the user function in this run asked to stop: \<open>v\<close> is the
  machine at that call, \<open>i\<close> what the function was told.
\<close>

definition ends_cleanly :: "'t Timer \<Rightarrow> 's Sender \<Rightarrow> ('s \<Rightarrow> bool) \<Rightarrow> ('s \<Rightarrow> bool) \<Rightarrow> bool" where
  [spec_defs]: "ends_cleanly T S ok over \<longleftrightarrow>
     (\<forall>a r w s b r' w'.
        run T S a (r, w) = Some (b, r', w') \<and> r_sender r = Some s \<and> ok s \<longrightarrow>
        \<not> r_initialized r' \<and> (\<not> b \<longrightarrow> RealTimeSystem_is_error r') \<and>
        (if r_initialized r \<and> fst (begin_run T a (r, w)) then \<exists>s'. r_sender r' = Some s' \<and> ok s' \<and> over s'
         else \<not> b \<and> r_sender r' = r_sender r) \<and>
        (b \<longrightarrow> (\<exists>f i v us. r_user_app_func r = Some f \<and> fst (snd (f i v)) \<and>
           user_calls v = user_calls w @ us \<and> user_calls w' = user_calls v @ [told i])))"

text \<open>
  The ticks of a run come at their time: tick \<open>n\<close> of a run at frequency \<open>f\<close> ends, on a reading of the
  clock, not earlier than \<open>n / f\<close> seconds after the start, but for \<open>n\<close> picoseconds, and the
  deadline of the next is at most \<open>n div 2 ^ 23 + 1\<close> nanoseconds later than \<open>(n + 1) / f\<close> seconds.
\<close>

definition keeps_schedule :: "'t Timer \<Rightarrow> ('t \<Rightarrow> timer_view) \<Rightarrow> 's Sender \<Rightarrow> ('s \<Rightarrow> bool) \<Rightarrow> bool" where
  [spec_defs]: "keeps_schedule T view S ok \<longleftrightarrow>
     (\<forall>a r w s t0 t f n ps seq skip r' w'.
        r_sender r = Some s \<and> ok s \<and> r_timer r = Some t \<and> tm_set_frequency T f t0 = Some (True, t) \<and>
        \<not> v_started (view t0) \<and> clock_ok (clock w) \<and>
        ticks T S a n (snd (begin_run T a (r, w))) = Some (ps, seq, skip, r', w') \<longrightarrow>
        (\<exists>t'. r_timer r' = Some t' \<and>
           (0 < n \<longrightarrow>
             10 ^ 12 * int n \<le> int (unat f) * (1000 * (ts_ns (clock w (reads w' - 1)) - ts_ns (clock w (reads w))) + int n)) \<and>
           int (unat f) * (1000 * (deadline (view t') - ts_ns (clock w (reads w)))) \<le>
             10 ^ 12 * int (n + 1) + int (unat f) * (1000 * int (n div 2 ^ 23 + 1))))"

text \<open>
  Initialising: after the answer true timer and sender are as a run needs them and the tolerance
  leaves 5 ms of each period; the answer false comes with an error to be fetched, and leaves the flag
  as it was before. The clock goes on, in both cases.
\<close>

definition initializes_well ::
  "'t Timer \<Rightarrow> ('t \<Rightarrow> timer_view) \<Rightarrow> 's Sender \<Rightarrow> ('s \<Rightarrow> bool) \<Rightarrow> ('s \<Rightarrow> bool) \<Rightarrow> ('s \<Rightarrow> bool) \<Rightarrow> bool" where
  [spec_defs]: "initializes_well T view S ok ready sent \<longleftrightarrow>
     (\<forall>r w s b r' w'.
        RealTimeSystem_initialize T S (r, w) = Some (b, r', w') \<and> r_sender r = Some s \<and> ok s \<longrightarrow>
        clock_goes_on w w' \<and>
        (if b then
           r_initialized r' \<and> r_user_app_func r' = r_user_app_func r \<and> r_user_app_func r \<noteq> None \<and>
           r_allow_skip_mode r' = r_allow_skip_mode r \<and> r_frequency r' = r_frequency r \<and>
           0 < r_frequency r \<and> r_frequency r \<le> TIMER_MAX_FREQUENCY \<and>
           (\<exists>s'. r_sender r' = Some s' \<and> ok s' \<and> ready s' \<and> sent s') \<and>
           (\<exists>t0 t. r_timer r' = Some t \<and> tm_set_frequency T (r_frequency r) t0 = Some (True, t) \<and> \<not> v_started (view t0)) \<and>
           unat (r_ms_tolerance r') = min (unat (r_ms_tolerance r)) (1000 div unat (r_frequency r) - 5)
         else RealTimeSystem_is_error r' \<and> r_initialized r' = r_initialized r))"

text \<open>
  Sending before the run, with nothing on its way: the answer true says that the list is on the wire,
  or that the sender refused it and has an error to be fetched; the answer false of an initialised
  system says that the sender was ended, and a beginning of the list is on the wire.
\<close>

definition sends_before_run :: "'s Sender \<Rightarrow> ('s \<Rightarrow> bool) \<Rightarrow> ('s \<Rightarrow> bool) \<Rightarrow> ('s \<Rightarrow> bool) \<Rightarrow> 't Timer \<Rightarrow> bool" where
  [spec_defs]: "sends_before_run S ok sent over (T :: 't Timer) \<longleftrightarrow>
     (\<forall>a ps ms (r :: ('t, 's) RealTimeSystem) w s b r' w'.
        send_before_run S a ps ms (r, w) = Some (b, r', w') \<and> r_sender r = Some s \<and> ok s \<and> sent s \<longrightarrow>
        (\<exists>s'. r_sender r' = Some s' \<and> ok s' \<and>
           (if b then r_initialized r' \<and> sent s' \<and>
              (wire w' = wire w @ payload w ps \<or> wire w' = wire w \<and> sn_is_error S s')
            else \<not> r_initialized r' \<and> RealTimeSystem_is_error r' \<and>
              (if r_initialized r
               then over s' \<and> prefix (wire w) (wire w') \<and> prefix (wire w') (wire w @ payload w ps)
               else s' = s \<and> wire w' = wire w))))"

text \<open>
  A refused list: when \<^verbatim>\<open>send\<close> answers false, \<^verbatim>\<open>send_before_run\<close> does not look at the answer. It answers
  true, sends nothing, sets no error of its own, and leaves that of the sender where it is.
\<close>

definition hides_refusal :: "'s Sender \<Rightarrow> ('s \<Rightarrow> bool) \<Rightarrow> ('s \<Rightarrow> bool) \<Rightarrow> 't Timer \<Rightarrow> bool" where
  [spec_defs]: "hides_refusal S ok sent (T :: 't Timer) \<longleftrightarrow>
     (\<forall>a ps ms (r :: ('t, 's) RealTimeSystem) w s s1 w1 b r' w'.
        r_initialized r \<and> r_sender r = Some s \<and> ok s \<and> sent s \<and>
        sn_send S a s (w\<lparr>lists := (lists w)(a := ps)\<rparr>) = Some (False, s1, w1) \<and>
        send_before_run S a ps ms (r, w) = Some (b, r', w') \<longrightarrow>
        b \<and> r_initialized r' \<and> wire w' = wire w \<and> r_error_handler r' = r_error_handler r \<and>
        (\<exists>s'. r_sender r' = Some s' \<and> sn_is_error S s' \<and> fst (sn_get_error S s') = fst (sn_get_error S s1)))"

text \<open>
  The numbers of the ticks, as the user function sees them: after \<open>n\<close> whole ticks it was called \<open>n\<close>
  times, with the sequence numbers 0 to \<open>n - 1\<close>, and told of a skip in skip mode only; the
  counter of the run is the number of skipped ticks since the last one that was not, never more than
  three seconds' worth; after so many the next tick gives up with an error and does not call it.
\<close>

definition skipped_in_a_row :: "RealTimeInfo list \<Rightarrow> nat" where
  "skipped_in_a_row is = length (takeWhile is_skipped_data (rev is))"

definition numbers_ticks :: "'t Timer \<Rightarrow> 's Sender \<Rightarrow> ('s \<Rightarrow> bool) \<Rightarrow> bool" where
  [spec_defs]: "numbers_ticks T S ok \<longleftrightarrow>
     (\<forall>a r w s n ps seq skip r' w'.
        r_sender r = Some s \<and> ok s \<and> 3 * unat (r_frequency r) < 2 ^ 64 \<and>
        ticks T S a n (r, w) = Some (ps, seq, skip, r', w') \<longrightarrow>
        length ps = n \<and> same_settings r r' \<and>
        (\<exists>is. user_calls w' = user_calls w @ map told is \<and>
           map get_sequence_number is = map of_nat [0..<n] \<and>
           (\<forall>i \<in> set is. is_skipped_data i \<longrightarrow> r_allow_skip_mode r) \<and>
           unat skip = skipped_in_a_row is \<and>
           (\<forall>m \<le> n. skipped_in_a_row (take m is) \<le> 3 * unat (r_frequency r)) \<and>
           (\<forall>res r'' w''. skipped_in_a_row is = 3 * unat (r_frequency r) \<and>
              run_tick T S a seq skip (r', w') = Some (res, r'', w'') \<longrightarrow>
              res = Return False \<and> user_calls w'' = user_calls w' \<and>
              fst (RealTimeSystem_get_error r'') = ''The client disconnected.'')))"

section \<open>The counters of a run\<close>

text \<open>
  The ticks are numbered 0, 1, 2, and so on, and no run makes more skipped ticks in a row than three
  seconds' worth.
\<close>

lemma ticks_counters:
  assumes "ticks T S a n rw = Some (ps, seq, skip, rw')" and "3 * unat (r_frequency (fst rw)) < 2 ^ 64"
  shows "length ps = n \<and> seq = of_nat n - 1 \<and> unat skip \<le> n \<and> unat skip \<le> 3 * unat (r_frequency (fst rw)) \<and>
    same_settings (fst rw) (fst rw')"
  using assms(1)
proof (induction n arbitrary: ps seq skip rw')
  case 0
  then show ?case by simp
next
  case (Suc n)
  then obtain qs q k rw1 where t: "ticks T S a n rw = Some (qs, q, k, rw1)"
    and r: "run_tick T S a q k rw1 = Some (Continue seq skip, rw')" and ps: "length ps = Suc (length qs)"
    by (auto elim: ticks_SucE)
  note IH = Suc.IH [OF t]
  obtain r1 w1 r' w' where e: "rw1 = (r1, w1)" "rw' = (r', w')" by (cases rw1; cases rw')
  let ?f = "r_frequency (fst rw)"
  have c: "seq = q + 1" "k \<noteq> ?f * 3" "skip = 0 \<or> skip = k + 1"
    using run_tick_counters [OF r [unfolded e]] IH e by (auto simp: same_settings_def)
  have "unat (?f * 3) = 3 * unat ?f" using assms(2) by (subst unat_mult_no_wrap) simp_all
  moreover have "unat k \<noteq> unat (?f * 3)" using c(2) unsigned_word_eqI by blast
  ultimately have lt: "unat k < 3 * unat ?f" using IH by (simp add: less_le)
  then have "unat (k + 1) = unat k + 1" using assms(2) by (intro trans [OF unat_add_no_wrap]) simp_all
  with c lt IH ps run_tick_same [OF r [unfolded e]] e show ?case by (auto intro: same_settings_trans)
qed

section \<open>The run\<close>

context rt_system
begin

lemma ticks_result:
  assumes "ticks T S a n (r, w) = Some (ps, seq, skip, rw')" and "has (caught m W) (r, w)" and "r_allow_skip_mode r \<Longrightarrow> m"
  shows "has (between m W ps a) rw' \<and> same_settings r (fst rw')"
  using assms(1)
proof (induction n arbitrary: ps seq skip rw')
  case 0
  then have "ps = []" "rw' = (r, w)" by simp_all
  with assms(2) show ?case by (simp add: between_def)
next
  case (Suc n)
  then obtain qs q k rw1 where t: "ticks T S a n (r, w) = Some (qs, q, k, rw1)"
    and s: "run_tick T S a q k rw1 = Some (Continue seq skip, rw')" and ps: "ps = qs @ [now a rw']"
    by (auto elim: ticks_SucE)
  obtain r1 w1 where e: "rw1 = (r1, w1)" by (cases rw1)
  from Suc.IH [OF t] e have b: "has (between m W qs a) (r1, w1)" and ss: "same_settings r r1" by simp_all
  then have "r_allow_skip_mode r1 \<Longrightarrow> m" using assms(3) by (simp add: same_settings_def)
  from run_tick_result [OF s [unfolded e] b this] ss ps show ?case
    by (auto simp: went_on_def intro: same_settings_trans)
qed

lemma run_loop_result:
  assumes "run_loop T S a (-1) 0 (r, w) = Some (b, rw')" and "has (caught m W) (r, w)" and "r_allow_skip_mode r \<Longrightarrow> m"
  shows "\<exists>n ps seq skip rw1 qs. ticks T S a n (r, w) = Some (ps, seq, skip, rw1) \<and>
    run_tick T S a seq skip rw1 = Some (Return b, rw') \<and> (qs = ps \<or> qs = ps @ [now a rw']) \<and>
    stopped (at_end m W qs) b (r, w) rw'"
proof -
  obtain n ps seq skip rw1 where t: "ticks T S a n (r, w) = Some (ps, seq, skip, rw1)"
    and s: "run_tick T S a seq skip rw1 = Some (Return b, rw')"
    using run_loop_ticks [OF assms(1) ticks.simps(1)] by blast
  obtain r1 w1 where e: "rw1 = (r1, w1)" by (cases rw1)
  from ticks_result [OF t assms(2,3)] e have b: "has (between m W ps a) (r1, w1)" and ss: "same_settings r r1" by simp_all
  then have "r_allow_skip_mode r1 \<Longrightarrow> m" using assms(3) by (simp add: same_settings_def)
  from run_tick_result [OF s [unfolded e] b this] obtain qs where "qs = ps \<or> qs = ps @ [now a rw']"
    and "stopped (at_end m W qs) b (r1, w1) rw'" by auto
  moreover from this(2) ss have "stopped (at_end m W qs) b (r, w) rw'"
    by (auto simp: stopped_def same_settings_def)
  ultimately show ?thesis using t s by blast
qed

text \<open>The calls of the user function in a run.\<close>

lemma skipped_in_a_row_snoc [simp]:
  "skipped_in_a_row (is @ [i]) = (if is_skipped_data i then Suc (skipped_in_a_row is) else 0)"
  "skipped_in_a_row [] = 0"
  by (simp_all add: skipped_in_a_row_def)

lemma unat_frequency: "3 * unat f < 2 ^ 64 \<Longrightarrow> unat (f * 3 :: uint_fast32) = 3 * unat f"
  by (subst unat_mult_no_wrap) simp_all

lemma ticks_called:
  assumes "ticks T S a n (r, w) = Some (ps, seq, skip, rw')" and "has (called U) (r, w)"
    and "3 * unat (r_frequency r) < 2 ^ 64"
  shows "\<exists>is. has (called (U @ map told is)) rw' \<and> map get_sequence_number is = map of_nat [0..<n] \<and>
    (\<forall>i \<in> set is. is_skipped_data i \<longrightarrow> r_allow_skip_mode r) \<and> unat skip = skipped_in_a_row is \<and>
    (\<forall>m \<le> n. skipped_in_a_row (take m is) \<le> 3 * unat (r_frequency r))"
  using assms(1)
proof (induction n arbitrary: ps seq skip rw')
  case 0
  with assms(2) show ?case by (intro exI [of _ "[]"]) simp
next
  case (Suc n)
  then obtain qs q k rw1 where t: "ticks T S a n (r, w) = Some (qs, q, k, rw1)"
    and s: "run_tick T S a q k rw1 = Some (Continue seq skip, rw')"
    by (auto elim: ticks_SucE)
  obtain r1 w1 where e: "rw1 = (r1, w1)" by (cases rw1)
  from Suc.IH [OF t] e obtain js where js: "has (called (U @ map told js)) (r1, w1)"
    "map get_sequence_number js = map of_nat [0..<n]" "\<forall>i \<in> set js. is_skipped_data i \<longrightarrow> r_allow_skip_mode r"
    "unat k = skipped_in_a_row js" "\<forall>m \<le> n. skipped_in_a_row (take m js) \<le> 3 * unat (r_frequency r)" by blast
  have len: "length js = n" using arg_cong [OF js(2), of length] by simp
  note c = ticks_counters [OF t, unfolded fst_conv, OF assms(3)] ticks_counters [OF Suc.prems, unfolded fst_conv, OF assms(3)]
  from run_tick_called [OF s [unfolded e] js(1)] obtain f i where i: "get_sequence_number i = q + 1"
    "is_skipped_data i \<longrightarrow> r_allow_skip_mode r1" "tick_called f (U @ map told js) i k (Continue seq skip) rw'" by blast
  then have h: "has (called (U @ map told (js @ [i]))) rw'" and k: "skip = (if is_skipped_data i then k + 1 else 0)"
    by (auto simp: tick_called_def)
  have "k \<noteq> r_frequency r * 3" using run_tick_counters [OF s [unfolded e]] c(1) e
    by (simp add: same_settings_def)
  then have "unat k < 3 * unat (r_frequency r)" using c(1) unat_frequency [OF assms(3)] unsigned_word_eqI by (metis le_neq_implies_less)
  then have "unat (k + 1) = unat k + 1" using assms(3) by (intro trans [OF unat_add_no_wrap]) simp_all
  with k js(4) have sk: "unat skip = skipped_in_a_row (js @ [i])" by simp
  have "skipped_in_a_row (take m (js @ [i])) \<le> 3 * unat (r_frequency r)" if "m \<le> Suc n" for m
  proof (cases "m \<le> n")
    case True
    with js(5) len show ?thesis by simp
  next
    case False
    with that len have "take m (js @ [i]) = js @ [i]" by simp
    with sk c(2) show ?thesis by simp
  qed
  moreover have "same_settings r r1" using c(1) e by simp
  ultimately show ?case
    using h js(2,3) i(1,2) sk c(1) by (intro exI [of _ "js @ [i]"]) (auto simp: same_settings_def)
qed

lemma system_numbers_ticks: "numbers_ticks T S ok"
  unfolding numbers_ticks_def
proof (intro allI impI, elim conjE)
  fix a r w s n ps seq skip r' w'
  assume s: "r_sender r = Some s" "ok s" and f: "3 * unat (r_frequency r) < 2 ^ 64"
    and t: "ticks T S a n (r, w) = Some (ps, seq, skip, r', w')"
  note c = ticks_counters [OF t, unfolded fst_conv, OF f]
  have "has (called (user_calls w)) (r, w)" using s by (simp add: since_def called_def)
  from ticks_called [OF t this f] obtain "is" where i: "has (called (user_calls w @ map told is)) (r', w')"
    "map get_sequence_number is = map of_nat [0..<n]" "\<forall>i \<in> set is. is_skipped_data i \<longrightarrow> r_allow_skip_mode r"
    "unat skip = skipped_in_a_row is" "\<forall>m \<le> n. skipped_in_a_row (take m is) \<le> 3 * unat (r_frequency r)" by blast
  have u: "user_calls w' = user_calls w @ map told is" using i(1) by (auto simp: since_def called_def)
  have "res = Return False \<and> user_calls w'' = user_calls w' \<and> fst (RealTimeSystem_get_error r'') = ''The client disconnected.''"
    if "skipped_in_a_row is = 3 * unat (r_frequency r)" "run_tick T S a seq skip (r', w') = Some (res, r'', w'')" for res r'' w''
  proof -
    from unat_frequency [OF f] that(1) i(4) have "unat skip = unat (r_frequency r * 3)" by simp
    then have "skip = r_frequency r' * 3" using unsigned_word_eqI c by (auto simp: same_settings_def)
    with run_tick_called [OF that(2) i(1)] u show ?thesis by (auto simp: since_def called_def)
  qed
  with c i(2-5) u show "length ps = n \<and> same_settings r r' \<and>
        (\<exists>is. user_calls w' = user_calls w @ map told is \<and>
           map get_sequence_number is = map of_nat [0..<n] \<and>
           (\<forall>i \<in> set is. is_skipped_data i \<longrightarrow> r_allow_skip_mode r) \<and>
           unat skip = skipped_in_a_row is \<and>
           (\<forall>m \<le> n. skipped_in_a_row (take m is) \<le> 3 * unat (r_frequency r)) \<and>
           (\<forall>res r'' w''. skipped_in_a_row is = 3 * unat (r_frequency r) \<and>
              run_tick T S a seq skip (r', w') = Some (res, r'', w'') \<longrightarrow>
              res = Return False \<and> user_calls w'' = user_calls w' \<and>
              fst (RealTimeSystem_get_error r'') = ''The client disconnected.''))"
    by simp blast
qed

text \<open>A run that answers true was stopped by the last call of the user function.\<close>

lemma ticks_called_some:
  assumes "ticks T S a n (r, w) = Some (ps, seq, skip, rw')" and "has (called U) (r, w)"
  shows "\<exists>us. has (called (U @ us)) rw' \<and> same_settings r (fst rw')"
  using assms(1)
proof (induction n arbitrary: ps seq skip rw')
  case 0
  then have "rw' = (r, w)" by simp
  with assms(2) show ?case by (intro exI [of _ "[]"]) simp
next
  case (Suc n)
  then obtain qs q k rw1 where t: "ticks T S a n (r, w) = Some (qs, q, k, rw1)"
    and s: "run_tick T S a q k rw1 = Some (Continue seq skip, rw')"
    by (auto elim: ticks_SucE)
  obtain r1 w1 r' w' where e: "rw1 = (r1, w1)" "rw' = (r', w')" by (cases rw1; cases rw')
  from Suc.IH [OF t] e obtain us where us: "has (called (U @ us)) (r1, w1)" "same_settings r r1" by auto
  from run_tick_called [OF s [unfolded e(1)] us(1)] obtain i where "has (called ((U @ us) @ [told i])) rw'"
    by (auto simp: tick_called_def)
  with us(2) run_tick_same [OF s [unfolded e]] e show ?case
    by (intro exI [of _ "us @ [told i]"]) (auto intro: same_settings_trans)
qed

lemma run_loop_stopped:
  assumes "run_loop T S a (-1) 0 (r, w) = Some (True, r', w')" and "has (called U) (r, w)"
  shows "\<exists>f i v us. r_user_app_func r = Some f \<and> fst (snd (f i v)) \<and> user_calls v = U @ us \<and>
    user_calls w' = user_calls v @ [told i]"
proof -
  obtain n ps seq skip rw1 where t: "ticks T S a n (r, w) = Some (ps, seq, skip, rw1)"
    and s: "run_tick T S a seq skip rw1 = Some (Return True, r', w')"
    using run_loop_ticks [OF assms(1) ticks.simps(1)] by blast
  obtain r1 w1 where e: "rw1 = (r1, w1)" by (cases rw1)
  from ticks_called_some [OF t assms(2)] e obtain us where us: "has (called (U @ us)) (r1, w1)" "same_settings r r1" by auto
  from run_tick_called [OF s [unfolded e] us(1)] obtain f i where "r_user_app_func r1 = Some f"
    "tick_called f (U @ us) i skip (Return True) (r', w')" by blast
  then obtain v where "r_user_app_func r = Some f" "fst (snd (f i v))" "user_calls v = U @ us" "user_calls w' = U @ us @ [told i]"
    using us(2) by (auto simp: tick_called_def since_def called_def same_settings_def)
  then show ?thesis by (intro exI [of _ f] exI [of _ i] exI [of _ v] exI [of _ us]) simp
qed

text \<open>The timer between two ticks.\<close>

lemma ticks_schedule:
  assumes "ticks T S a n (r, w) = Some (ps, seq, skip, r', w')" and "has (\<lambda>_ _. True) (r, w)"
    and "r_timer r = Some t" and "ticking (view t) w" and "on_schedule x 0 (view t)" and "clock_ok (clock w)"
  shows "\<exists>t'. r_timer r' = Some t' \<and> ticking (view t') w' \<and> on_schedule x n (view t') \<and>
    v_ps (view t') = v_ps (view t) \<and> clock w' = clock w \<and>
    (0 < n \<longrightarrow> int (unat (v_ps (view t)) * n) < 1000 * (ts_ns (clock w (reads w' - 1)) - x))"
  using assms(1)
proof (induction n arbitrary: ps seq skip r' w')
  case 0
  with assms show ?case by simp
next
  case (Suc n)
  then obtain qs q k r1 w1 where tk: "ticks T S a n (r, w) = Some (qs, q, k, r1, w1)"
    and s: "run_tick T S a q k (r1, w1) = Some (Continue seq skip, r', w')"
    by (auto elim: ticks_SucE)
  from Suc.IH [OF tk] obtain t1 where t1: "r_timer r1 = Some t1" "ticking (view t1) w1" "on_schedule x n (view t1)"
    "v_ps (view t1) = v_ps (view t)" "clock w1 = clock w" by blast
  have skip: "has (caught True []) (r, w)" using assms(2) by (simp add: caught_def since_def)
  have "has (between True [] qs a) (r1, w1)" using ticks_result [OF tk skip TrueI] by blast
  from run_tick_result [OF s this TrueI] have "went_on (\<lambda>_ _. True) (r1, w1) (r', w')" by (auto elim: went_on_mono)
  then obtain t2 v naps where sl: "tm_sleep_to_next_tick T t1 v = Some (True, t2, w')" "r_timer r' = Some t2"
    and v: "clock_goes_on w1 v" "slept v naps w'" using t1(1) by (auto simp: went_on_def)
  have c: "clock v = clock w" "clock_ok (clock v)" using v(1) t1(5) assms(6) by (simp_all add: clock_goes_on_def)
  have tv: "ticking (view t1) v" using ticking_goes_on [OF t1(2) v(1)] t1(5) assms(6) by simp
  note sl' = tm.sleep_true [OF tv c(2) sl(1)]
  have "ts_ns (v_start (view t1)) < 2 ^ 63"
    using tv clock_bounds(2) [OF c(2), of "reads v"] by (simp add: ticking_def)
  from on_schedule_next [OF tv t1(3) this] sl'(1) have "on_schedule x (Suc n) (view t2)" by simp
  moreover have "int (unat (v_ps (view t)) * Suc n) < 1000 * (ts_ns (clock w (reads w' - 1)) - x)"
    using on_schedule_deadline(1) [OF tv t1(3)] t1(4) sl'(5) c(1) by simp
  ultimately show ?case using sl' sl(2) t1(4) c(1) by simp
qed

text \<open>Starting the timer takes one reading of the clock, or nothing.\<close>

lemma begin_run_result:
  assumes "begin_run T a (r, w) = (started, r', w')" and "r_timer r = Some t"
  shows "r_sender r' = r_sender r \<and> \<not> r_initialized r' \<and> same_settings (r\<lparr>r_initialized := False\<rparr>) r' \<and>
    wire w' = wire w \<and> user_calls w' = user_calls w \<and> clock_goes_on w w' \<and>
    (\<exists>t1 w1. tm_start_timer T t w = (started, t1, w1) \<and> r_timer r' = Some t1 \<and> reads w' = reads w1 \<and> clock w' = clock w1)"
proof -
  obtain t1 w1 where s: "tm_start_timer T t w = (started, t1, w1)" and r: "r' = r\<lparr>r_initialized := False, r_timer := Some t1\<rparr>"
    "w' = w1\<lparr>lists := (lists w1)(a := [])\<rparr>"
    using assms by (auto simp: begin_run_def split: prod.splits)
  have "w1 = w \<or> w1 = snd (clock_gettime w)"
    using tm.start_running [of t w] tm.start_stopped [of t w] s by (cases "v_started (view t)") auto
  then have "wire w1 = wire w" "user_calls w1 = user_calls w" "clock_goes_on w w1" by (auto simp: clock_gettime_def clock_goes_on_def)
  with s r show ?thesis by (auto simp: same_settings_def clock_goes_on_def)
qed

lemma run_begin:
  assumes "run T S a (r, w) = Some (b, rw')" and "r_initialized r"
  shows "\<exists>t. r_timer r = Some t" and "fst (begin_run T a (r, w)) \<Longrightarrow> run_loop T S a (-1) 0 (snd (begin_run T a (r, w))) = Some (b, rw')"
    and "\<not> fst (begin_run T a (r, w)) \<Longrightarrow> \<not> b \<and> RealTimeSystem_is_error (fst rw') \<and> \<not> r_initialized (fst rw') \<and>
      r_sender (fst rw') = r_sender r"
proof -
  obtain t where t: "r_timer r = Some t" using assms by (cases "r_timer r") (auto simp: run_def)
  then show "\<exists>t. r_timer r = Some t" ..
  obtain st t1 w1 where s: "tm_start_timer T t w = (st, t1, w1)" by (cases "tm_start_timer T t w")
  obtain m t2 where g: "tm_get_error T t1 = (m, t2)" by (cases "tm_get_error T t1")
  show "fst (begin_run T a (r, w)) \<Longrightarrow> run_loop T S a (-1) 0 (snd (begin_run T a (r, w))) = Some (b, rw')"
    "\<not> fst (begin_run T a (r, w)) \<Longrightarrow> \<not> b \<and> RealTimeSystem_is_error (fst rw') \<and> \<not> r_initialized (fst rw') \<and>
      r_sender (fst rw') = r_sender r"
    using assms t s g by (auto simp: run_def begin_run_def take_timer_error_def)
qed

lemma system_delivers: "delivers_in_order T S (\<lambda>s. ok s \<and> sent s)"
  unfolding delivers_in_order_def
proof (intro allI impI, elim conjE)
  fix a r w s b r' w'
  assume run: "run T S a (r, w) = Some (b, r', w')" and i: "r_initialized r" and ns: "\<not> r_allow_skip_mode r"
    and s: "r_sender r = Some s" "ok s" "sent s" and st: "fst (begin_run T a (r, w))"
  obtain r1 w1 where bg: "begin_run T a (r, w) = (True, r1, w1)" using st by (cases "begin_run T a (r, w)") auto
  obtain t where t: "r_timer r = Some t" using run_begin(1) [OF run i] by blast
  note br = begin_run_result [OF bg t]
  have l: "run_loop T S a (-1) 0 (r1, w1) = Some (b, r', w')" using run_begin(2) [OF run i st] bg by simp
  have h: "has (caught False (wire w)) (r1, w1)" using br s by (simp add: since_def caught_def)
  have "\<not> r_allow_skip_mode r1" using br ns by (simp add: same_settings_def)
  with run_loop_result [OF l h] obtain n ps seq skip rw2 qs where
    "ticks T S a n (r1, w1) = Some (ps, seq, skip, rw2)" "run_tick T S a seq skip rw2 = Some (Return b, r', w')"
    "qs = ps \<or> qs = ps @ [payload w' (lists w' a)]" "stopped (at_end False (wire w) qs) b (r1, w1) (r', w')"
    unfolding snd_conv by blast
  moreover from this(4) have "prefix (wire w @ concat (butlast qs)) (wire w') \<and> prefix (wire w') (wire w @ concat qs)"
    by (auto simp: stopped_def since_def at_end_def)
  ultimately show "\<exists>n ps seq skip rw1 qs.
     ticks T S a n (snd (begin_run T a (r, w))) = Some (ps, seq, skip, rw1) \<and>
     run_tick T S a seq skip rw1 = Some (Return b, r', w') \<and> (qs = ps \<or> qs = ps @ [payload w' (lists w' a)]) \<and>
     prefix (wire w @ concat (butlast qs)) (wire w') \<and> prefix (wire w') (wire w @ concat qs)"
    unfolding bg snd_conv by blast
qed

lemma system_ends: "ends_cleanly T S ok over"
  unfolding ends_cleanly_def
proof (intro allI impI, elim conjE)
  fix a r w s b r' w'
  assume run: "run T S a (r, w) = Some (b, r', w')" and s: "r_sender r = Some s" "ok s"
  show "\<not> r_initialized r' \<and> (\<not> b \<longrightarrow> RealTimeSystem_is_error r') \<and>
      (if r_initialized r \<and> fst (begin_run T a (r, w)) then \<exists>s'. r_sender r' = Some s' \<and> ok s' \<and> over s'
       else \<not> b \<and> r_sender r' = r_sender r) \<and>
      (b \<longrightarrow> (\<exists>f i v us. r_user_app_func r = Some f \<and> fst (snd (f i v)) \<and>
         user_calls v = user_calls w @ us \<and> user_calls w' = user_calls v @ [told i]))"
  proof (cases "r_initialized r \<and> fst (begin_run T a (r, w))")
    case False
    then show ?thesis
      using run run_begin(3) [OF run] by (cases "r_initialized r") (auto simp: run_def)
  next
    case True
    obtain r1 w1 where bg: "begin_run T a (r, w) = (True, r1, w1)" using True by (cases "begin_run T a (r, w)") auto
    obtain t where t: "r_timer r = Some t" using run_begin(1) [OF run] True by blast
    note br = begin_run_result [OF bg t]
    have l: "run_loop T S a (-1) 0 (r1, w1) = Some (b, r', w')" using run_begin(2) [OF run] True bg by simp
    have "has (caught True []) (r1, w1)" using br s by (simp add: since_def caught_def)
    from run_loop_result [OF l this TrueI] obtain qs where "stopped (at_end True [] qs) b (r1, w1) (r', w')" by blast
    then have "\<not> r_initialized r' \<and> (\<not> b \<longrightarrow> RealTimeSystem_is_error r') \<and> (\<exists>s'. r_sender r' = Some s' \<and> ok s' \<and> over s')"
      using br by (auto simp: stopped_def since_def same_settings_def)
    moreover have "has (called (user_calls w)) (r1, w1)" using br s by (simp add: since_def called_def)
    note run_loop_stopped [OF _ this, of a r' w']
    moreover have "r_user_app_func r1 = r_user_app_func r" using br by (simp add: same_settings_def)
    ultimately show ?thesis using l True by simp
  qed
qed

lemma system_keeps_schedule: "keeps_schedule T view S ok"
  unfolding keeps_schedule_def
proof (intro allI impI, elim conjE)
  fix a r w s t0 t f n ps seq skip r' w'
  assume s: "r_sender r = Some s" "ok s" and t: "r_timer r = Some t" and f: "tm_set_frequency T f t0 = Some (True, t)"
    and ns: "\<not> v_started (view t0)" and c: "clock_ok (clock w)"
    and tk: "ticks T S a n (snd (begin_run T a (r, w))) = Some (ps, seq, skip, r', w')"
  obtain st r1 w1 where bg: "begin_run T a (r, w) = (st, r1, w1)" by (cases "begin_run T a (r, w)")
  note br = begin_run_result [OF bg t]
  then obtain t1 v where start: "tm_start_timer T t w = (st, t1, v)" and t1: "r_timer r1 = Some t1"
    and v: "reads w1 = reads v" "clock w1 = clock v" by blast
  note b = tm.started_ticking [OF f ns start c]
  have h: "has (\<lambda>_ _. True) (r1, w1)" using br s by (simp add: since_def)
  have tv: "ticking (view t1) w1" using b v by (simp add: ticking_def)
  have cw: "clock w1 = clock w" "clock_ok (clock w1)" using br c by (simp_all add: clock_goes_on_def)
  obtain t' where t': "r_timer r' = Some t'" "ticking (view t') w'" "on_schedule (ts_ns (clock w (reads w))) n (view t')"
    "v_ps (view t') = v_ps (view t1)"
    "0 < n \<longrightarrow> int (unat (v_ps (view t1)) * n) < 1000 * (ts_ns (clock w (reads w' - 1)) - ts_ns (clock w (reads w)))"
    using ticks_schedule [OF tk [unfolded bg snd_conv] h t1 tv _ cw(2)] b cw(1) by auto
  show "\<exists>t'. r_timer r' = Some t' \<and>
      (0 < n \<longrightarrow>
        10 ^ 12 * int n \<le> int (unat f) * (1000 * (ts_ns (clock w (reads w' - 1)) - ts_ns (clock w (reads w))) + int n)) \<and>
      int (unat f) * (1000 * (deadline (view t') - ts_ns (clock w (reads w)))) \<le>
        10 ^ 12 * int (n + 1) + int (unat f) * (1000 * int (n div 2 ^ 23 + 1))"
  proof (intro exI conjI)
    let ?x = "ts_ns (clock w (reads w))"
    have f0: "0 < unat f" using b by (simp add: word_less_nat_alt)
    have ps: "unat (v_ps (view t1)) = 10 ^ 12 div unat f" using b by blast
    show "r_timer r' = Some t'" by fact
    show "0 < n \<longrightarrow> 10 ^ 12 * int n \<le> int (unat f) * (1000 * (ts_ns (clock w (reads w' - 1)) - ?x) + int n)"
      using periods_from [OF f0 less_imp_le] t'(5) unfolding ps by blast
    show "int (unat f) * (1000 * (deadline (view t') - ?x)) \<le> 10 ^ 12 * int (n + 1) + int (unat f) * (1000 * int (n div 2 ^ 23 + 1))"
      using periods_until [OF on_schedule_deadline(2) [OF t'(2,3), unfolded t'(4) ps]] by (simp only: of_nat_mult of_nat_numeral)
  qed
qed

lemma adjusted_tolerance_exact:
  assumes "0 < f" and "f \<le> TIMER_MAX_FREQUENCY"
  shows "unat (adjusted_tolerance ms f) = min (unat ms) (1000 div unat f - 5)"
proof -
  have u: "0 < unat f" "unat f \<le> 100" using assms by (simp_all add: word_less_nat_alt word_le_nat_alt TIMER_MAX_FREQUENCY_def)
  have d: "unat (1000 div f) = 1000 div unat f" by (simp add: unat_div)
  have "1000 div 100 \<le> 1000 div unat f" using u by (intro div_le_mono2) simp_all
  then have "5 \<le> 1000 div f" by (simp add: word_le_nat_alt d)
  then have "unat (1000 div f - 5) = 1000 div unat f - 5" by (simp add: unat_sub_no_wrap d)
  then show ?thesis by (simp add: adjusted_tolerance_def min_def word_le_nat_alt)
qed

lemma set_frequency_range:
  assumes "tm_set_frequency T f t = Some (True, t')"
  shows "0 < f \<and> f \<le> TIMER_MAX_FREQUENCY"
  using assms tm.set_frequency_zero tm.set_frequency_over [of f t]
  by (auto simp: word_neq_0_conv [symmetric] linorder_not_le [symmetric])

lemma convert_rt_thread_result:
  assumes "convert_rt_thread (r, w) = (b, r', w')"
  shows "same_settings r r' \<and> r_sender r' = r_sender r \<and> r_timer r' = r_timer r \<and> (\<not> b \<longrightarrow> RealTimeSystem_is_error r') \<and> clock_goes_on w w'"
  using assms by (auto simp: convert_rt_thread_def Let_def syscall_def same_settings_def r_set_error_def
      RealTimeSystem_is_error_def clock_goes_on_def split: if_splits)

lemma take_error_simps [simp]:
  "RealTimeSystem_is_error (take_timer_error T t r)" "RealTimeSystem_is_error (take_sender_error S s r)"
  "r_initialized (take_timer_error T t r) = r_initialized r" "r_initialized (take_sender_error S s r) = r_initialized r"
  by (simp_all add: take_timer_error_def take_sender_error_def split: prod.splits)

lemma system_initializes: "initializes_well T view S ok ready sent"
  unfolding initializes_well_def
proof (intro allI impI, elim conjE)
  fix r w s b r' w'
  assume i: "RealTimeSystem_initialize T S (r, w) = Some (b, r', w')" and s: "r_sender r = Some s" "ok s"
  show "clock_goes_on w w' \<and> (if b then
           r_initialized r' \<and> r_user_app_func r' = r_user_app_func r \<and> r_user_app_func r \<noteq> None \<and>
           r_allow_skip_mode r' = r_allow_skip_mode r \<and> r_frequency r' = r_frequency r \<and>
           0 < r_frequency r \<and> r_frequency r \<le> TIMER_MAX_FREQUENCY \<and>
           (\<exists>s'. r_sender r' = Some s' \<and> ok s' \<and> ready s' \<and> sent s') \<and>
           (\<exists>t0 t. r_timer r' = Some t \<and> tm_set_frequency T (r_frequency r) t0 = Some (True, t) \<and> \<not> v_started (view t0)) \<and>
           unat (r_ms_tolerance r') = min (unat (r_ms_tolerance r)) (1000 div unat (r_frequency r) - 5)
         else RealTimeSystem_is_error r' \<and> r_initialized r' = r_initialized r)"
  proof (cases "r_user_app_func r = None \<or> r_timer r = None \<or> r_frequency r = 0")
    case True
    with i s show ?thesis by (auto simp: RealTimeSystem_initialize_def split: option.splits if_splits)
  next
    case False
    then obtain t f where t: "r_timer r = Some t" "r_user_app_func r = Some f" "r_frequency r \<noteq> 0"
      by (cases "r_timer r"; cases "r_user_app_func r") simp_all
    obtain c r1 w1 where c: "convert_rt_thread (r, w) = (c, r1, w1)" by (cases "convert_rt_thread (r, w)")
    obtain k t1 where t1: "tm_initialize T t = (k, t1)" by (cases "tm_initialize T t")
    note cr = convert_rt_thread_result [OF c]
    have ti: "k" "\<not> v_started (view t1)" using tm.initialize_law [of t] t1 by (simp_all add: view_ops)
    have e: "RealTimeSystem_initialize T S (r, w) = (if \<not> c then Some (False, r1, w1)
      else do { (k2, t2) \<leftarrow> tm_set_frequency T (r_frequency r) t1;
        if \<not> k2 then Some (False, take_timer_error T t2 r1, w1)
        else do { (k3, s1, w2) \<leftarrow> sn_initialize S s w1;
          let r2 = r1\<lparr>r_timer := Some t2\<rparr>;
          if \<not> k3 then Some (False, take_sender_error S s1 r2, w2)
          else Some (True, r2\<lparr>r_sender := Some s1,
            r_ms_tolerance := adjusted_tolerance (r_ms_tolerance r2) (r_frequency r2), r_initialized := True\<rparr>, w2) } })"
      using t s(1) c t1 ti(1) cr by (simp add: RealTimeSystem_initialize_def same_settings_def)
    show ?thesis
    proof (cases c)
      case nc: False
      with i e cr show ?thesis by (simp add: same_settings_def)
    next
      case cc: True
      with i e obtain k2 t2 where t2: "tm_set_frequency T (r_frequency r) t1 = Some (k2, t2)"
        by (cases "tm_set_frequency T (r_frequency r) t1") auto
      show ?thesis
      proof (cases k2)
        case k: False
        with i e cc t2 have "r' = take_timer_error T t2 r1" "\<not> b" "w' = w1" by simp_all
        with cr show ?thesis by (simp add: same_settings_def)
      next
        case k: True
        with i e cc t2 obtain k3 s1 w2 where si: "sn_initialize S s w1 = Some (k3, s1, w2)"
          by (cases "sn_initialize S s w1") auto
        note f = set_frequency_range [OF t2 [unfolded eqTrueI [OF k]]]
        note law = sn.initialize_law [OF si s(2)]
        from clock_goes_on_trans [OF _ clock_goes_on_frame] law cr have go: "clock_goes_on w w2" by blast
        show ?thesis
        proof (cases k3)
          case n3: False
          with i e cc t2 k si have "r' = take_sender_error S s1 (r1\<lparr>r_timer := Some t2\<rparr>)" "\<not> b" "w' = w2" by simp_all
          with cr go show ?thesis by (simp add: same_settings_def)
        next
          case n3: True
          with i e cc t2 k si have w2: "w' = w2" by simp
          from n3 i e cc t2 k si have b: b and r': "r' = r1\<lparr>r_timer := Some t2, r_sender := Some s1,
              r_ms_tolerance := adjusted_tolerance (r_ms_tolerance r1) (r_frequency r1), r_initialized := True\<rparr>"
            by simp_all
          have "tm_set_frequency T (r_frequency r) t1 = Some (True, t2)" using t2 k by simp
          with b r' w2 go n3 law cr f t(2) ti(2) adjusted_tolerance_exact [OF conjunct1 [OF f] conjunct2 [OF f]]
          show ?thesis by (auto simp: same_settings_def)
        qed
      qed
    qed
  qed
qed

text \<open>The halving wait keeps what asking and sleeping keep.\<close>

lemma halving_wait_since:
  "halving_wait S n (r, w) = Some rw' \<Longrightarrow> since rw0 P (r, w) \<Longrightarrow> kept P \<Longrightarrow> since rw0 P rw'"
proof (induction "unat n" arbitrary: n r w rule: less_induct)
  case less
  show ?case
  proof (cases "n = 0")
    case True
    with less.prems show ?thesis by simp
  next
    case False
    let ?x = "n div 2 + 1"
    from less.prems(1) False obtain w1 where w1: "milliseconds_sleep ?x w = Some w1"
      by (cases "milliseconds_sleep ?x w") (simp_all add: Let_def)
    with less.prems(1) False obtain b r2 w2 where a: "ask_sender S (r, w1) = Some (b, r2, w2)"
      by (cases "ask_sender S (r, w1)") (auto simp: Let_def)
    from w1 have "nanoseconds_sleep (MS_TO_NS ?x) w = Some w1" by (simp add: milliseconds_sleep_def)
    from nanoseconds_sleep_slept [OF this] obtain naps where n: "slept w naps w1" ..
    have 1: "since rw0 P (r, w1)" using slept_since [OF n less.prems(2), of P] less.prems(3) n unfolding kept_def by blast
    note 2 = ask_kept [OF a 1 less.prems(3)]
    show ?thesis
    proof (cases b)
      case True
      with less.prems(1) False w1 a 2 show ?thesis by (simp add: Let_def)
    next
      case nb: False
      with less.prems(1) False w1 a have "halving_wait S (n - ?x) (r2, w2) = Some rw'" by (simp add: Let_def)
      from less.hyps [OF halving_time(4) [OF False] this 2 less.prems(3)] show ?thesis .
    qed
  qed
qed

text \<open>
  After the list was handed over it is under way, or refused with an error that stays until it is
  fetched.
\<close>

definition given :: "os \<Rightarrow> ptr \<Rightarrow> bool \<Rightarrow> 's \<Rightarrow> os \<Rightarrow> bool" where
  "given v a x s w \<longleftrightarrow>
     (if x then \<exists>u. under_way u a s w \<and> thread_frame v u \<and> wire u = wire v
      else sent s \<and> wire w = wire v \<and> sn_is_error S s)"

lemma given_send:
  assumes "sn_send S a s v = Some (x, s', w')" and "ok s" and "sent s"
  shows "given v a x s' w'"
  using sn.send_law [OF assms(1,2)] assms(3) by (cases x) (auto simp: given_def)

lemma kept_given: "kept (given v a x)"
proof (cases x)
  case True
  then show ?thesis unfolding kept_def given_def using sn.done_under_way sn.nap_under_way by simp blast
next
  case False
  have "sn_is_error S s' \<and> sent s' \<and> wire w' = wire w"
    if "sn_is_send_done S s w = (b, s', w')" "ok s" "sn_is_error S s" "sent s" for s w b s' w'
    using sn.done_law [OF that(1,2)] sn.done_idle [OF that(1,2,4)] that(3) by (simp add: sn.is_err_handler)
  with False show ?thesis unfolding kept_def given_def using sleptD(6) by simp
qed

lemma given_same: "thread_frame (w\<lparr>lists := (lists w)(a := ps)\<rparr>) u \<Longrightarrow> payload u (lists u a) = payload w ps"
  using thread_frameD(3,7) [of "w\<lparr>lists := (lists w)(a := ps)\<rparr>" u] by simp

lemma given_done:
  assumes "given (w\<lparr>lists := (lists w)(a := ps)\<rparr>) a x s v" and "ok s" and "sn_is_send_done S s v = (True, s', w')"
  shows "sent s' \<and> (wire w' = wire w @ payload w ps \<or> wire w' = wire w \<and> sn_is_error S s')"
proof -
  have "given (w\<lparr>lists := (lists w)(a := ps)\<rparr>) a x s' w'" using kept_given assms unfolding kept_def by blast
  then show ?thesis
    using sn.done_law [OF assms(3,2)] sn.done_under_way [OF assms(3)] assms(1) given_same
    by (cases x) (fastforce simp: given_def)+
qed

lemma given_end:
  assumes "given (w\<lparr>lists := (lists w)(a := ps)\<rparr>) a x s v" and "ok s" and "sn_end_sender S s v = Some (b, s', w')"
  shows "prefix (wire w) (wire w') \<and> prefix (wire w') (wire w @ payload w ps)"
proof (cases x)
  case True
  with assms(1) obtain u where u: "under_way u a s v" "thread_frame (w\<lparr>lists := (lists w)(a := ps)\<rparr>) u" "wire u = wire w"
    by (auto simp: given_def)
  from sn.end_under_way [OF assms(3) u(1)] given_same [OF u(2)] u(3) show ?thesis by simp
next
  case False
  with assms(1) have "sent s" "wire v = wire w" by (simp_all add: given_def)
  with sn.end_law [OF assms(3,2)] show ?thesis by simp
qed

lemma system_sends_before_run: "sends_before_run S ok sent over T"
  unfolding sends_before_run_def
proof (intro allI impI, elim conjE)
  fix a ps ms and r :: "('t, 's) RealTimeSystem" and w s b r' w'
  assume b: "send_before_run S a ps ms (r, w) = Some (b, r', w')" and s: "r_sender r = Some s" "ok s" "sent s"
  let ?w = "w\<lparr>lists := (lists w)(a := ps)\<rparr>"
  show "\<exists>s'. r_sender r' = Some s' \<and> ok s' \<and>
           (if b then r_initialized r' \<and> sent s' \<and> (wire w' = wire w @ payload w ps \<or> wire w' = wire w \<and> sn_is_error S s')
            else \<not> r_initialized r' \<and> RealTimeSystem_is_error r' \<and>
              (if r_initialized r
               then over s' \<and> prefix (wire w) (wire w') \<and> prefix (wire w') (wire w @ payload w ps)
               else s' = s \<and> wire w' = wire w))"
  proof (cases "r_initialized r")
    case False
    with b s show ?thesis by (auto simp: send_before_run_def)
  next
    case True
    with b obtain x r1 w1 where 1: "call_send S a (r, ?w) = Some (x, r1, w1)"
      by (cases "call_send S a (r, ?w)") (auto simp: send_before_run_def)
    with b True obtain r2 w2 where 2: "halving_wait S ms (r1, w1) = Some (r2, w2)"
      by (cases "halving_wait S ms (r1, w1)") (auto simp: send_before_run_def)
    with b True 1 obtain y r3 w3 where 3: "ask_sender S (r2, w2) = Some (y, r3, w3)"
      by (cases "ask_sender S (r2, w2)") (auto simp: send_before_run_def)
    have 0: "has (\<lambda>s w. sent s \<and> w = ?w) (r, ?w)" using s by (simp add: since_def)
    have "since (r, ?w) (given ?w a x) (r1, w1)"
      by (rule send_since [OF 1 0]) (use given_send in blast)
    from halving_wait_since [OF 2 this kept_given] have g2: "since (r, ?w) (given ?w a x) (r2, w2)" .
    from ask_kept [OF 3 g2 kept_given] have g3: "since (r, ?w) (given ?w a x) (r3, w3)" .
    show ?thesis
    proof (cases y)
      case y: True
      have "since (r, ?w) (\<lambda>s w'. sent s \<and> (wire w' = wire w @ payload w ps \<or> wire w' = wire w \<and> sn_is_error S s)) (r3, w3)"
        using ask_since [OF 3 g2, of "\<lambda>b s w'. b \<longrightarrow> sent s \<and> (wire w' = wire w @ payload w ps \<or> wire w' = wire w \<and> sn_is_error S s)"]
          given_done y by simp
      moreover have "b" "r' = r3" "w' = w3" using b True 1 2 3 y by (simp_all add: send_before_run_def)
      ultimately show ?thesis using True by (auto simp: since_def same_settings_def)
    next
      case ny: False
      with b True 1 2 3 obtain r4 where 4: "call_end_sender S (r3, w3) = Some (r4, w')" and nb: "\<not> b"
        and r': "r' = (r_set_error ''Sender couldn't send the data in the given time limit'' r4)\<lparr>r_initialized := False\<rparr>"
        by (cases "call_end_sender S (r3, w3)") (auto simp: send_before_run_def)
      have "since (r, ?w) (\<lambda>s w'. over s \<and> prefix (wire w) (wire w') \<and> prefix (wire w') (wire w @ payload w ps)) (r4, w')"
        by (rule end_since [OF 4 g3]) (rule given_end)
      with True nb r' show ?thesis by (auto simp: since_def r_set_error_def RealTimeSystem_is_error_def)
    qed
  qed
qed

text \<open>What a refused \<^verbatim>\<open>send\<close> leaves behind stays.\<close>

definition refused :: "byte list \<Rightarrow> Error \<Rightarrow> 's \<Rightarrow> os \<Rightarrow> bool" where
  "refused W e s w \<longleftrightarrow> sent s \<and> wire w = W \<and> s_handler s = e"

lemma kept_refused: "kept (refused W e)"
  unfolding kept_def refused_def using sn.done_law sn.done_idle sleptD(6) by metis

lemma ask_same_error: "ask_sender S (r, w) = Some (b, r', w') \<Longrightarrow> r_error_handler r' = r_error_handler r"
  by (auto simp: ask_sender_def split: option.splits prod.splits)

lemma halving_wait_same_error: "halving_wait S n (r, w) = Some (r', w') \<Longrightarrow> r_error_handler r' = r_error_handler r"
proof (induction "unat n" arbitrary: n r w rule: less_induct)
  case less
  show ?case
  proof (cases "n = 0")
    case True
    with less.prems show ?thesis by simp
  next
    case False
    let ?x = "n div 2 + 1"
    from less.prems False obtain w1 where w1: "milliseconds_sleep ?x w = Some w1"
      by (cases "milliseconds_sleep ?x w") (simp_all add: Let_def)
    with less.prems False obtain b r2 w2 where a: "ask_sender S (r, w1) = Some (b, r2, w2)"
      by (cases "ask_sender S (r, w1)") (auto simp: Let_def)
    show ?thesis
    proof (cases b)
      case True
      with less.prems False w1 a ask_same_error [OF a] show ?thesis by (simp add: Let_def)
    next
      case nb: False
      with less.prems False w1 a have "halving_wait S (n - ?x) (r2, w2) = Some (r', w')" by (simp add: Let_def)
      from less.hyps [OF halving_time(4) [OF False] this] ask_same_error [OF a] show ?thesis by simp
    qed
  qed
qed

lemma system_hides_refusal: "hides_refusal S ok sent T"
  unfolding hides_refusal_def
proof (intro allI impI, elim conjE)
  fix a ps ms and r :: "('t, 's) RealTimeSystem" and w :: os and s s1 w1 b r' w'
  let ?w = "w\<lparr>lists := (lists w)(a := ps)\<rparr>"
  assume i: "r_initialized r" and s: "r_sender r = Some s" "ok s" "sent s" and n: "sn_send S a s ?w = Some (False, s1, w1)"
    and b: "send_before_run S a ps ms (r, w) = Some (b, r', w')"
  let ?r1 = "r\<lparr>r_sender := Some s1\<rparr>"
  have 1: "call_send S a (r, ?w) = Some (False, ?r1, w1)" using s(1) n by (simp add: call_send_def)
  with b i obtain r2 w2 where 2: "halving_wait S ms (?r1, w1) = Some (r2, w2)"
    by (cases "halving_wait S ms (?r1, w1)") (auto simp: send_before_run_def)
  with b i 1 obtain y r3 w3 where 3: "ask_sender S (r2, w2) = Some (y, r3, w3)"
    by (cases "ask_sender S (r2, w2)") (auto simp: send_before_run_def)
  have l: "ok s1" "sent s1" "wire w1 = wire w" "sn_is_error S s1" using sn.send_law [OF n s(2)] s(3) by simp_all
  have "since (?r1, w1) (refused (wire w) (s_handler s1)) (?r1, w1)" using l by (simp add: since_def refused_def)
  from halving_wait_since [OF 2 this kept_refused] have g2: "since (?r1, w1) (refused (wire w) (s_handler s1)) (r2, w2)" .
  obtain s2 where s2: "r_sender r2 = Some s2" "ok s2" "sent s2" using g2 by (auto simp: since_def refused_def)
  then obtain s3 where a: "sn_is_send_done S s2 w2 = (y, s3, w3)" using 3 by (auto simp: ask_sender_def split: prod.splits)
  have y: y using sn.done_law [OF a s2(2)] sn.done_idle [OF a s2(2,3)] by blast
  have e: "b" "r' = r3" "w' = w3" using b i 1 2 3 y by (simp_all add: send_before_run_def)
  have g3: "since (?r1, w1) (refused (wire w) (s_handler s1)) (r3, w3)" by (rule ask_kept [OF 3 g2 kept_refused])
  have "r_error_handler r3 = r_error_handler r" using halving_wait_same_error [OF 2] ask_same_error [OF 3] by simp
  with g3 e i l(4) show "b \<and> r_initialized r' \<and> wire w' = wire w \<and> r_error_handler r' = r_error_handler r \<and>
      (\<exists>s'. r_sender r' = Some s' \<and> sn_is_error S s' \<and> fst (sn_get_error S s') = fst (sn_get_error S s1))"
    by (auto simp: since_def refused_def same_settings_def sn.is_err_handler sn.get_msg)
qed

end

end
