(* ===== verification/Busy_Wait_Timer.thy ===== *)
theory Busy_Wait_Timer
  imports Timer_Interface
begin

text \<open>
  The class \<^verbatim>\<open>BusyWaitTimer\<close> (\<^verbatim>\<open>includes/busy_wait_timer.h\<close>, \<^verbatim>\<open>src/timers/busy_wait_timer.cpp\<close>): it spins on the
  clock until the tick.
\<close>

section \<open>The class\<close>

record BusyWaitTimer =
  bw_start_time :: timespec
  bw_frequency :: uint_fast16
  bw_original_sleep_time_ps :: uint_fast64
  bw_sleep_time_ns :: uint_fast64
  bw_timer_started :: bool
  bw_sleep_counter :: uint_fast32
  bw_buffer :: string
  bw_error_handler :: Error

text \<open>
  The constructor sets the named fields only: the others keep what the storage \<open>raw\<close> held.
\<close>

definition BusyWaitTimer_ctor :: "BusyWaitTimer \<Rightarrow> BusyWaitTimer" where
  "BusyWaitTimer_ctor raw =
     raw\<lparr>bw_error_handler := Error_ctor ''BusyWaitTimer'',
         bw_frequency := TIMER_FREQUNCY_ERROR, bw_timer_started := False\<rparr>"

definition BusyWaitTimer_initialize :: "BusyWaitTimer \<Rightarrow> bool \<times> BusyWaitTimer" where
  "BusyWaitTimer_initialize t =
     (True, t\<lparr>bw_frequency := TIMER_FREQUNCY_ERROR, bw_timer_started := False\<rparr>)"

text \<open>A division by zero ends the process: \<open>None\<close>.\<close>

definition BusyWaitTimer_set_frequency :: "uint_fast16 \<Rightarrow> BusyWaitTimer \<Rightarrow> (bool \<times> BusyWaitTimer) option" where
  "BusyWaitTimer_set_frequency frequency t =
     (if TIMER_MAX_FREQUENCY < frequency then
        (let t1 = t\<lparr>bw_buffer := frequency_message frequency\<rparr>
         in Some (False, t1\<lparr>bw_error_handler :=
              Error_set_error (bw_buffer t1) (bw_error_handler t1)\<rparr>))
      else
        (let t1 = t\<lparr>bw_frequency := frequency\<rparr>
         in if frequency = 0 then None
            else Some (True, t1\<lparr>bw_original_sleep_time_ps := SEC_TO_PS 1 div frequency\<rparr>)))"

definition BusyWaitTimer_get_frequency :: "BusyWaitTimer \<Rightarrow> uint_fast16" where
  "BusyWaitTimer_get_frequency t = bw_frequency t"

definition BusyWaitTimer_start_timer :: "BusyWaitTimer \<Rightarrow> os \<Rightarrow> bool \<times> BusyWaitTimer \<times> os" where
  "BusyWaitTimer_start_timer t w =
     (if bw_timer_started t then
        (False, t\<lparr>bw_error_handler :=
           Error_set_error running_message (bw_error_handler t)\<rparr>, w)
      else
        (let (now, w1) = clock_gettime w;
             t1 = t\<lparr>bw_start_time := now, bw_timer_started := True, bw_sleep_counter := 1\<rparr>
         in (True, t1\<lparr>bw_sleep_time_ns :=
               PS_TO_NS (bw_original_sleep_time_ps t1 * bw_sleep_counter t1) + 1\<rparr>, w1)))"

definition BusyWaitTimer_stop_timer :: "BusyWaitTimer \<Rightarrow> BusyWaitTimer" where
  "BusyWaitTimer_stop_timer t = t\<lparr>bw_timer_started := False\<rparr>"

text \<open>The end of \<^verbatim>\<open>sleep_to_next_tick\<close>: overflow prevention and the target of the next tick.\<close>

definition BusyWaitTimer_set_next_tick :: "BusyWaitTimer \<Rightarrow> BusyWaitTimer" where
  "BusyWaitTimer_set_next_tick t =
     (let t1 = (if bw_sleep_counter t = counter_limit then
                  t\<lparr>bw_start_time := ADD_NS_TO_TIMESPEC (bw_start_time t) (bw_sleep_time_ns t),
                    bw_sleep_counter := 0\<rparr>
                else t);
          t2 = t1\<lparr>bw_sleep_counter := bw_sleep_counter t1 + 1\<rparr>
      in t2\<lparr>bw_sleep_time_ns :=
           PS_TO_NS (bw_original_sleep_time_ps t2 * bw_sleep_counter t2) + 1\<rparr>)"

definition BusyWaitTimer_sleep_to_next_tick ::
  "BusyWaitTimer \<Rightarrow> os \<Rightarrow> (bool \<times> BusyWaitTimer \<times> os) option" where
  "BusyWaitTimer_sleep_to_next_tick t w =
     (let (current_time, w1) = clock_gettime w in
      if bw_sleep_time_ns t < TIMESPEC_DIFF_NS (bw_start_time t) current_time then
        Some (False, t\<lparr>bw_error_handler := Error_set_error late_message (bw_error_handler t)\<rparr>, w1)
      else
        do { w2 \<leftarrow> busy_wait_loop (bw_start_time t) current_time (bw_sleep_time_ns t) w1;
             Some (True, BusyWaitTimer_set_next_tick t, w2) })"

definition BusyWaitTimer_get_error :: "BusyWaitTimer \<Rightarrow> string \<times> BusyWaitTimer" where
  "BusyWaitTimer_get_error t =
     (Error_get_error (bw_error_handler t),
      t\<lparr>bw_error_handler := Error_clear_error (bw_error_handler t)\<rparr>)"

definition BusyWaitTimer_is_error :: "BusyWaitTimer \<Rightarrow> bool" where
  "BusyWaitTimer_is_error t = Error_is_error (bw_error_handler t)"

definition BusyWaitTimer_vtable :: "BusyWaitTimer Timer" where
  "BusyWaitTimer_vtable =
     \<lparr>tm_initialize = BusyWaitTimer_initialize, tm_set_frequency = BusyWaitTimer_set_frequency,
      tm_get_frequency = BusyWaitTimer_get_frequency, tm_start_timer = BusyWaitTimer_start_timer,
      tm_stop_timer = BusyWaitTimer_stop_timer, tm_sleep_to_next_tick = BusyWaitTimer_sleep_to_next_tick,
      tm_get_error = BusyWaitTimer_get_error, tm_is_error = BusyWaitTimer_is_error\<rparr>"

section \<open>The class keeps the contract\<close>

definition BusyWaitTimer_view :: "BusyWaitTimer \<Rightarrow> timer_view" where
  "BusyWaitTimer_view t =
     \<lparr>v_start = bw_start_time t, v_frequency = bw_frequency t,
      v_ps = bw_original_sleep_time_ps t, v_target = bw_sleep_time_ns t,
      v_started = bw_timer_started t, v_counter = bw_sleep_counter t\<rparr>"

lemmas BusyWaitTimer_ops = BusyWaitTimer_initialize_def BusyWaitTimer_set_frequency_def BusyWaitTimer_get_frequency_def
  BusyWaitTimer_start_timer_def BusyWaitTimer_stop_timer_def BusyWaitTimer_get_error_def BusyWaitTimer_is_error_def

lemma BusyWaitTimer_view_simps [simp]:
  "v_start (BusyWaitTimer_view t) = bw_start_time t"
  "v_target (BusyWaitTimer_view t) = bw_sleep_time_ns t"
  "v_started (BusyWaitTimer_view t) = bw_timer_started t"
  "v_frequency (BusyWaitTimer_view t) = bw_frequency t"
  "BusyWaitTimer_view (t\<lparr>bw_error_handler := e\<rparr>) = BusyWaitTimer_view t"
  by (simp_all add: BusyWaitTimer_view_def)

lemma BusyWaitTimer_set_next_tick_view:
  "BusyWaitTimer_view (BusyWaitTimer_set_next_tick t) = view_next (BusyWaitTimer_view t)"
  "bw_error_handler (BusyWaitTimer_set_next_tick t) = bw_error_handler t"
  by (simp_all add: BusyWaitTimer_set_next_tick_def BusyWaitTimer_view_def view_next_def target_for_def Let_def)

lemma BusyWaitTimer_sleep_late:
  assumes "late (BusyWaitTimer_view t) w"
  shows "BusyWaitTimer_sleep_to_next_tick t w =
     Some (False, t\<lparr>bw_error_handler := Error_set_error late_message (bw_error_handler t)\<rparr>,
       snd (clock_gettime w))"
  using assms by (simp add: BusyWaitTimer_sleep_to_next_tick_def late_def clock_gettime_def)

lemma BusyWaitTimer_sleep_in_time:
  assumes "\<not> late (BusyWaitTimer_view t) w" and "ticking (BusyWaitTimer_view t) w"
    and "clock_ok (clock w)" and "BusyWaitTimer_sleep_to_next_tick t w = Some (ok, t', w')"
  shows "ok \<and> t' = BusyWaitTimer_set_next_tick t \<and> (\<exists>naps. slept w naps w' \<and> naps = []) \<and>
     reads w < reads w' \<and> deadline (BusyWaitTimer_view t) \<le> ts_ns (clock w (reads w' - 1))"
proof -
  let ?w1 = "snd (clock_gettime w)"
  from assms(1,4) have ok: "ok" "t' = BusyWaitTimer_set_next_tick t"
    and loop: "busy_wait_loop (bw_start_time t) (clock ?w1 (reads w)) (bw_sleep_time_ns t) ?w1 = Some w'"
    by (auto simp: BusyWaitTimer_sleep_to_next_tick_def late_def clock_gettime_def bind_eq_Some_conv)
  have "clock_ok (clock ?w1)" "0 \<le> ts_ns (bw_start_time t)"
    "ts_ns (bw_start_time t) \<le> ts_ns (clock ?w1 (reads w))" "reads w < reads ?w1"
    using assms(2,3) by (simp_all add: ticking_def clock_gettime_def)
  note r = busy_wait_reached [OF this loop]
  have "slept w ([] @ []) w'" by (rule slept_trans [OF slept_clock_gettime r(1)])
  with ok r(2) sleptD(2) [OF r(1)] show ?thesis by (simp add: deadline_def clock_gettime_def)
qed

lemma BusyWaitTimer_sleep_returns:
  assumes "\<not> late (BusyWaitTimer_view t) w" and "ticking (BusyWaitTimer_view t) w" and "clock_runs (clock w)"
    and "ts_ns (clock w (Suc (reads w))) + uint (bw_sleep_time_ns t) < 2 ^ 62"
  shows "BusyWaitTimer_sleep_to_next_tick t w \<noteq> None"
proof -
  let ?w1 = "snd (clock_gettime w)"
  have ok: "clock_ok (clock w)" using assms(3) by (simp add: clock_runs_def)
  have "ts_ns (bw_start_time t) + uint (bw_sleep_time_ns t) < 2 ^ 62"
    using assms(2,4) clock_mono [OF ok, of "reads w" "Suc (reads w)"] by (simp add: ticking_def)
  then have "\<exists>w'. busy_wait_loop (bw_start_time t) (clock w (reads w)) (bw_sleep_time_ns t) ?w1 = Some w'"
    using assms(2,3) by (intro busy_wait_returns) (simp_all add: ticking_def clock_gettime_def)
  then show ?thesis
    using assms(1) by (auto simp: BusyWaitTimer_sleep_to_next_tick_def late_def clock_gettime_def)
qed

lemma BusyWaitTimer_sleep_slept:
  assumes "BusyWaitTimer_sleep_to_next_tick t w = Some (ok, t', w')"
  shows "\<exists>naps. slept w naps w'"
proof -
  let ?w1 = "snd (clock_gettime w)"
  have loop: "slept v [] v'" if "busy_wait_loop s c d v = Some v'" for s c d v v'
    using busy_wait_loop_result [OF that] by blast
  have "\<exists>naps. slept ?w1 naps w'"
    using assms
    by (auto simp: BusyWaitTimer_sleep_to_next_tick_def clock_gettime_def bind_eq_Some_conv
        split: if_splits dest!: loop intro: exI [of _ "[]"] slept_refl)
  then show ?thesis using slept_first by blast
qed

interpretation bw: tick_timer BusyWaitTimer_vtable bw_error_handler BusyWaitTimer_view
proof (unfold_locales, goal_cases)
  case (9 t w)
  then show ?case by (simp add: BusyWaitTimer_vtable_def BusyWaitTimer_ops)
next
  case (12 t w)
  then show ?case by (simp add: BusyWaitTimer_vtable_def BusyWaitTimer_sleep_late)
next
  case (13 t w ok t' w')
  then show ?case
    using BusyWaitTimer_sleep_in_time [of t w ok t' w']
    by (auto simp: BusyWaitTimer_vtable_def BusyWaitTimer_set_next_tick_view)
next
  case (14 t w)
  then show ?case using BusyWaitTimer_sleep_returns [of t w] by (simp add: BusyWaitTimer_vtable_def)
next
  case (15 t w ok t' w')
  then show ?case using BusyWaitTimer_sleep_slept [of t w ok t' w'] by (simp add: BusyWaitTimer_vtable_def)
next
  case (16 t w ok t' w')
  then show ?case
    by (auto simp: BusyWaitTimer_vtable_def BusyWaitTimer_sleep_to_next_tick_def BusyWaitTimer_set_next_tick_view clock_gettime_def
        bind_eq_Some_conv split: if_splits)
qed (auto simp: BusyWaitTimer_vtable_def BusyWaitTimer_ops BusyWaitTimer_view_def view_ops target_for_def clock_gettime_def Let_def)

end
