(* ===== verification/Free_Wait_Timer.thy ===== *)
theory Free_Wait_Timer
  imports Timer_Interface
begin

text \<open>
  The class \<^verbatim>\<open>FreeWaitTimer\<close> (\<^verbatim>\<open>includes/free_wait_timer.h\<close>, \<^verbatim>\<open>src/timers/free_wait_timer.cpp\<close>): it blocks the
  process for the time left until the tick.
\<close>

section \<open>The class\<close>

record FreeWaitTimer =
  fw_start_time :: timespec
  fw_frequency :: uint_fast16
  fw_original_sleep_time_ps :: uint_fast64
  fw_sleep_time_ns :: uint_fast64
  fw_timer_started :: bool
  fw_sleep_counter :: uint_fast32
  fw_buffer :: string
  fw_error_handler :: Error

text \<open>
  The constructor sets the named fields only: the others keep what the storage \<open>raw\<close> held.
\<close>

definition FreeWaitTimer_ctor :: "FreeWaitTimer \<Rightarrow> FreeWaitTimer" where
  "FreeWaitTimer_ctor raw =
     raw\<lparr>fw_error_handler := Error_ctor ''FreeWaitTimer'',
         fw_frequency := TIMER_FREQUNCY_ERROR, fw_timer_started := False\<rparr>"

definition FreeWaitTimer_initialize :: "FreeWaitTimer \<Rightarrow> bool \<times> FreeWaitTimer" where
  "FreeWaitTimer_initialize t =
     (True, t\<lparr>fw_frequency := TIMER_FREQUNCY_ERROR, fw_timer_started := False\<rparr>)"

text \<open>A division by zero ends the process: \<open>None\<close>.\<close>

definition FreeWaitTimer_set_frequency :: "uint_fast16 \<Rightarrow> FreeWaitTimer \<Rightarrow> (bool \<times> FreeWaitTimer) option" where
  "FreeWaitTimer_set_frequency frequency t =
     (if TIMER_MAX_FREQUENCY < frequency then
        (let t1 = t\<lparr>fw_buffer := frequency_message frequency\<rparr>
         in Some (False, t1\<lparr>fw_error_handler :=
              Error_set_error (fw_buffer t1) (fw_error_handler t1)\<rparr>))
      else
        (let t1 = t\<lparr>fw_frequency := frequency\<rparr>
         in if frequency = 0 then None
            else Some (True, t1\<lparr>fw_original_sleep_time_ps := SEC_TO_PS 1 div frequency\<rparr>)))"

definition FreeWaitTimer_get_frequency :: "FreeWaitTimer \<Rightarrow> uint_fast16" where
  "FreeWaitTimer_get_frequency t = fw_frequency t"

definition FreeWaitTimer_start_timer :: "FreeWaitTimer \<Rightarrow> os \<Rightarrow> bool \<times> FreeWaitTimer \<times> os" where
  "FreeWaitTimer_start_timer t w =
     (if fw_timer_started t then
        (False, t\<lparr>fw_error_handler :=
           Error_set_error running_message (fw_error_handler t)\<rparr>, w)
      else
        (let (now, w1) = clock_gettime w;
             t1 = t\<lparr>fw_start_time := now, fw_timer_started := True, fw_sleep_counter := 1\<rparr>
         in (True, t1\<lparr>fw_sleep_time_ns :=
               PS_TO_NS (fw_original_sleep_time_ps t1 * fw_sleep_counter t1) + 1\<rparr>, w1)))"

definition FreeWaitTimer_stop_timer :: "FreeWaitTimer \<Rightarrow> FreeWaitTimer" where
  "FreeWaitTimer_stop_timer t = t\<lparr>fw_timer_started := False\<rparr>"

text \<open>The end of \<^verbatim>\<open>sleep_to_next_tick\<close>: overflow prevention and the target of the next tick.\<close>

definition FreeWaitTimer_set_next_tick :: "FreeWaitTimer \<Rightarrow> FreeWaitTimer" where
  "FreeWaitTimer_set_next_tick t =
     (let t1 = (if fw_sleep_counter t = counter_limit then
                  t\<lparr>fw_start_time := ADD_NS_TO_TIMESPEC (fw_start_time t) (fw_sleep_time_ns t),
                    fw_sleep_counter := 0\<rparr>
                else t);
          t2 = t1\<lparr>fw_sleep_counter := fw_sleep_counter t1 + 1\<rparr>
      in t2\<lparr>fw_sleep_time_ns :=
           PS_TO_NS (fw_original_sleep_time_ps t2 * fw_sleep_counter t2) + 1\<rparr>)"

definition FreeWaitTimer_sleep_to_next_tick ::
  "FreeWaitTimer \<Rightarrow> os \<Rightarrow> (bool \<times> FreeWaitTimer \<times> os) option" where
  "FreeWaitTimer_sleep_to_next_tick t w =
     (let (current_time, w1) = clock_gettime w in
      if fw_sleep_time_ns t < TIMESPEC_DIFF_NS (fw_start_time t) current_time then
        Some (False, t\<lparr>fw_error_handler := Error_set_error late_message (fw_error_handler t)\<rparr>, w1)
      else
        do { w2 \<leftarrow> nanoseconds_sleep
               (fw_sleep_time_ns t - TIMESPEC_DIFF_NS (fw_start_time t) current_time) w1;
             Some (True, FreeWaitTimer_set_next_tick t, w2) })"

definition FreeWaitTimer_get_error :: "FreeWaitTimer \<Rightarrow> string \<times> FreeWaitTimer" where
  "FreeWaitTimer_get_error t =
     (Error_get_error (fw_error_handler t),
      t\<lparr>fw_error_handler := Error_clear_error (fw_error_handler t)\<rparr>)"

definition FreeWaitTimer_is_error :: "FreeWaitTimer \<Rightarrow> bool" where
  "FreeWaitTimer_is_error t = Error_is_error (fw_error_handler t)"

definition FreeWaitTimer_vtable :: "FreeWaitTimer Timer" where
  "FreeWaitTimer_vtable =
     \<lparr>tm_initialize = FreeWaitTimer_initialize, tm_set_frequency = FreeWaitTimer_set_frequency,
      tm_get_frequency = FreeWaitTimer_get_frequency, tm_start_timer = FreeWaitTimer_start_timer,
      tm_stop_timer = FreeWaitTimer_stop_timer, tm_sleep_to_next_tick = FreeWaitTimer_sleep_to_next_tick,
      tm_get_error = FreeWaitTimer_get_error, tm_is_error = FreeWaitTimer_is_error\<rparr>"

section \<open>The class keeps the contract\<close>

definition FreeWaitTimer_view :: "FreeWaitTimer \<Rightarrow> timer_view" where
  "FreeWaitTimer_view t =
     \<lparr>v_start = fw_start_time t, v_frequency = fw_frequency t,
      v_ps = fw_original_sleep_time_ps t, v_target = fw_sleep_time_ns t,
      v_started = fw_timer_started t, v_counter = fw_sleep_counter t\<rparr>"

lemmas FreeWaitTimer_ops = FreeWaitTimer_initialize_def FreeWaitTimer_set_frequency_def FreeWaitTimer_get_frequency_def
  FreeWaitTimer_start_timer_def FreeWaitTimer_stop_timer_def FreeWaitTimer_get_error_def FreeWaitTimer_is_error_def

lemma FreeWaitTimer_view_simps [simp]:
  "v_start (FreeWaitTimer_view t) = fw_start_time t"
  "v_target (FreeWaitTimer_view t) = fw_sleep_time_ns t"
  "v_started (FreeWaitTimer_view t) = fw_timer_started t"
  "v_frequency (FreeWaitTimer_view t) = fw_frequency t"
  "FreeWaitTimer_view (t\<lparr>fw_error_handler := e\<rparr>) = FreeWaitTimer_view t"
  by (simp_all add: FreeWaitTimer_view_def)

lemma FreeWaitTimer_set_next_tick_view:
  "FreeWaitTimer_view (FreeWaitTimer_set_next_tick t) = view_next (FreeWaitTimer_view t)"
  "fw_error_handler (FreeWaitTimer_set_next_tick t) = fw_error_handler t"
  by (simp_all add: FreeWaitTimer_set_next_tick_def FreeWaitTimer_view_def view_next_def target_for_def Let_def)

lemma FreeWaitTimer_sleep_late:
  assumes "late (FreeWaitTimer_view t) w"
  shows "FreeWaitTimer_sleep_to_next_tick t w =
     Some (False, t\<lparr>fw_error_handler := Error_set_error late_message (fw_error_handler t)\<rparr>,
       snd (clock_gettime w))"
  using assms by (simp add: FreeWaitTimer_sleep_to_next_tick_def late_def clock_gettime_def)

lemma FreeWaitTimer_sleep_in_time:
  assumes "\<not> late (FreeWaitTimer_view t) w" and "ticking (FreeWaitTimer_view t) w"
    and "clock_ok (clock w)" and "FreeWaitTimer_sleep_to_next_tick t w = Some (ok, t', w')"
  shows "ok \<and> t' = FreeWaitTimer_set_next_tick t \<and>
     (\<exists>naps. slept w naps w' \<and> (\<forall>n \<in> set naps. ts_norm n \<and> 0 < ts_ns n \<and>
        ts_ns n \<le> deadline (FreeWaitTimer_view t) - ts_ns (clock w (reads w)))) \<and>
     reads w < reads w' \<and> deadline (FreeWaitTimer_view t) \<le> ts_ns (clock w (reads w' - 1))"
proof -
  let ?w1 = "snd (clock_gettime w)"
  let ?left = "fw_sleep_time_ns t - TIMESPEC_DIFF_NS (fw_start_time t) (clock w (reads w))"
  from assms(1,4) have ok: "ok" "t' = FreeWaitTimer_set_next_tick t"
    and sleep: "nanoseconds_sleep ?left ?w1 = Some w'"
    by (auto simp: FreeWaitTimer_sleep_to_next_tick_def late_def clock_gettime_def bind_eq_Some_conv)
  have left: "uint ?left = deadline (FreeWaitTimer_view t) - ts_ns (clock w (reads w))"
    using in_time_left(2) [OF assms(1-3)] by simp
  have "clock_ok (clock ?w1)" using assms(3) by (simp add: clock_gettime_def)
  from nanoseconds_sleep_result [OF sleep this] obtain naps where
    naps: "slept ?w1 naps w'" "Suc (Suc (reads ?w1)) \<le> reads w'"
      "ts_ns (clock ?w1 (reads ?w1)) + uint ?left \<le> ts_ns (clock ?w1 (reads w' - 1))"
      "\<forall>n \<in> set naps. ts_norm n \<and> 0 < ts_ns n \<and> ts_ns n \<le> uint ?left" by blast
  have "ts_ns (clock w (reads w)) \<le> ts_ns (clock w (Suc (reads w)))"
    using assms(3) by (rule clock_mono) simp
  with naps(3) left have d: "deadline (FreeWaitTimer_view t) \<le> ts_ns (clock w (reads w' - 1))"
    by (simp add: clock_gettime_def)
  have "slept w ([] @ naps) w'" by (rule slept_trans [OF slept_clock_gettime naps(1)])
  with ok naps(2,4) d left show ?thesis by (auto simp: clock_gettime_def)
qed

lemma FreeWaitTimer_sleep_returns:
  assumes "\<not> late (FreeWaitTimer_view t) w" and "ticking (FreeWaitTimer_view t) w" and "clock_runs (clock w)"
    and "ts_ns (clock w (Suc (reads w))) + uint (fw_sleep_time_ns t) < 2 ^ 62"
  shows "FreeWaitTimer_sleep_to_next_tick t w \<noteq> None"
proof -
  let ?w1 = "snd (clock_gettime w)"
  let ?left = "fw_sleep_time_ns t - TIMESPEC_DIFF_NS (fw_start_time t) (clock w (reads w))"
  have ok: "clock_ok (clock w)" using assms(3) by (simp add: clock_runs_def)
  have "?left \<le> fw_sleep_time_ns t"
    using in_time_left(1) [OF assms(1,2) ok] by (simp add: word_sub_le)
  then have "ts_ns (clock ?w1 (reads ?w1)) + uint ?left < 2 ^ 62"
    using assms(4) by (simp add: clock_gettime_def word_le_def)
  then have "\<exists>w'. nanoseconds_sleep ?left ?w1 = Some w'"
    using assms(3) by (intro nanoseconds_sleep_returns) (simp_all add: clock_gettime_def)
  then show ?thesis
    using assms(1) by (auto simp: FreeWaitTimer_sleep_to_next_tick_def late_def clock_gettime_def)
qed

lemma FreeWaitTimer_sleep_slept:
  assumes "FreeWaitTimer_sleep_to_next_tick t w = Some (ok, t', w')"
  shows "\<exists>naps. slept w naps w'"
proof -
  let ?w1 = "snd (clock_gettime w)"
  have nap: "\<exists>naps. slept v naps v'" if "nanoseconds_sleep d v = Some v'" for d v v'
    using that by (rule nanoseconds_sleep_slept)
  have "\<exists>naps. slept ?w1 naps w'"
    using assms
    by (auto simp: FreeWaitTimer_sleep_to_next_tick_def clock_gettime_def bind_eq_Some_conv
        split: if_splits dest!: nap intro: exI [of _ "[]"] slept_refl)
  then show ?thesis using slept_first by blast
qed

interpretation fw: tick_timer FreeWaitTimer_vtable fw_error_handler FreeWaitTimer_view
proof (unfold_locales, goal_cases)
  case (9 t w)
  then show ?case by (simp add: FreeWaitTimer_vtable_def FreeWaitTimer_ops)
next
  case (12 t w)
  then show ?case by (simp add: FreeWaitTimer_vtable_def FreeWaitTimer_sleep_late)
next
  case (13 t w ok t' w')
  then show ?case
    using FreeWaitTimer_sleep_in_time [of t w ok t' w']
    by (auto simp: FreeWaitTimer_vtable_def FreeWaitTimer_set_next_tick_view)
next
  case (14 t w)
  then show ?case using FreeWaitTimer_sleep_returns [of t w] by (simp add: FreeWaitTimer_vtable_def)
next
  case (15 t w ok t' w')
  then show ?case using FreeWaitTimer_sleep_slept [of t w ok t' w'] by (simp add: FreeWaitTimer_vtable_def)
next
  case (16 t w ok t' w')
  then show ?case
    by (auto simp: FreeWaitTimer_vtable_def FreeWaitTimer_sleep_to_next_tick_def FreeWaitTimer_set_next_tick_view clock_gettime_def
        bind_eq_Some_conv split: if_splits)
qed (auto simp: FreeWaitTimer_vtable_def FreeWaitTimer_ops FreeWaitTimer_view_def view_ops target_for_def clock_gettime_def Let_def)

end
