(* ===== verification/Worst_Case_Timer.thy ===== *)
theory Worst_Case_Timer
  imports Timer_Interface
begin

text \<open>
  The class \<^verbatim>\<open>WorstCaseTimer\<close> (\<^verbatim>\<open>includes/worst_case_timer.h\<close>, \<^verbatim>\<open>src/timers/worst_case_timer.cpp\<close>): it blocks the
  process for the time left minus the worst delay of the operating system, then spins.
\<close>

section \<open>The class\<close>

record WorstCaseTimer =
  wc_start_time :: timespec
  wc_frequency :: uint_fast16
  wc_original_sleep_time_ps :: uint_fast64
  wc_sleep_time_ns :: uint_fast64
  wc_timer_started :: bool
  wc_sleep_counter :: uint_fast32
  wc_worst_timer_delay_ns :: uint_fast64
  wc_buffer :: string
  wc_error_handler :: Error

text \<open>
  The constructor sets the named fields only: the others keep what the storage \<open>raw\<close> held.
\<close>

definition WorstCaseTimer_ctor :: "uint_fast32 \<Rightarrow> WorstCaseTimer \<Rightarrow> WorstCaseTimer" where
  "WorstCaseTimer_ctor worst_timer_delay_us raw =
     raw\<lparr>wc_error_handler := Error_ctor ''WorstCaseTimer'',
         wc_worst_timer_delay_ns := US_TO_NS worst_timer_delay_us,
         wc_frequency := TIMER_FREQUNCY_ERROR, wc_timer_started := False\<rparr>"

definition WorstCaseTimer_initialize :: "WorstCaseTimer \<Rightarrow> bool \<times> WorstCaseTimer" where
  "WorstCaseTimer_initialize t =
     (True, t\<lparr>wc_frequency := TIMER_FREQUNCY_ERROR, wc_timer_started := False\<rparr>)"

text \<open>A division by zero ends the process: \<open>None\<close>.\<close>

definition WorstCaseTimer_set_frequency :: "uint_fast16 \<Rightarrow> WorstCaseTimer \<Rightarrow> (bool \<times> WorstCaseTimer) option" where
  "WorstCaseTimer_set_frequency frequency t =
     (if TIMER_MAX_FREQUENCY < frequency then
        (let t1 = t\<lparr>wc_buffer := frequency_message frequency\<rparr>
         in Some (False, t1\<lparr>wc_error_handler :=
              Error_set_error (wc_buffer t1) (wc_error_handler t1)\<rparr>))
      else
        (let t1 = t\<lparr>wc_frequency := frequency\<rparr>
         in if frequency = 0 then None
            else Some (True, t1\<lparr>wc_original_sleep_time_ps := SEC_TO_PS 1 div frequency\<rparr>)))"

definition WorstCaseTimer_get_frequency :: "WorstCaseTimer \<Rightarrow> uint_fast16" where
  "WorstCaseTimer_get_frequency t = wc_frequency t"

definition WorstCaseTimer_start_timer :: "WorstCaseTimer \<Rightarrow> os \<Rightarrow> bool \<times> WorstCaseTimer \<times> os" where
  "WorstCaseTimer_start_timer t w =
     (if wc_timer_started t then
        (False, t\<lparr>wc_error_handler :=
           Error_set_error running_message (wc_error_handler t)\<rparr>, w)
      else
        (let (now, w1) = clock_gettime w;
             t1 = t\<lparr>wc_start_time := now, wc_timer_started := True, wc_sleep_counter := 1\<rparr>
         in (True, t1\<lparr>wc_sleep_time_ns :=
               PS_TO_NS (wc_original_sleep_time_ps t1 * wc_sleep_counter t1) + 1\<rparr>, w1)))"

definition WorstCaseTimer_stop_timer :: "WorstCaseTimer \<Rightarrow> WorstCaseTimer" where
  "WorstCaseTimer_stop_timer t = t\<lparr>wc_timer_started := False\<rparr>"

text \<open>The end of \<^verbatim>\<open>sleep_to_next_tick\<close>: overflow prevention and the target of the next tick.\<close>

definition WorstCaseTimer_set_next_tick :: "WorstCaseTimer \<Rightarrow> WorstCaseTimer" where
  "WorstCaseTimer_set_next_tick t =
     (let t1 = (if wc_sleep_counter t = counter_limit then
                  t\<lparr>wc_start_time := ADD_NS_TO_TIMESPEC (wc_start_time t) (wc_sleep_time_ns t),
                    wc_sleep_counter := 0\<rparr>
                else t);
          t2 = t1\<lparr>wc_sleep_counter := wc_sleep_counter t1 + 1\<rparr>
      in t2\<lparr>wc_sleep_time_ns :=
           PS_TO_NS (wc_original_sleep_time_ps t2 * wc_sleep_counter t2) + 1\<rparr>)"

definition WorstCaseTimer_sleep_to_next_tick ::
  "WorstCaseTimer \<Rightarrow> os \<Rightarrow> (bool \<times> WorstCaseTimer \<times> os) option" where
  "WorstCaseTimer_sleep_to_next_tick t w =
     (let (current_time, w1) = clock_gettime w in
      if wc_sleep_time_ns t < TIMESPEC_DIFF_NS (wc_start_time t) current_time then
        Some (False, t\<lparr>wc_error_handler := Error_set_error late_message (wc_error_handler t)\<rparr>, w1)
      else if wc_sleep_time_ns t - TIMESPEC_DIFF_NS (wc_start_time t) current_time
                < wc_worst_timer_delay_ns t then
        do { w2 \<leftarrow> busy_wait_loop (wc_start_time t) current_time (wc_sleep_time_ns t) w1;
             Some (True, WorstCaseTimer_set_next_tick t, w2) }
      else
        do { w2 \<leftarrow> nanoseconds_sleep
               (wc_sleep_time_ns t - TIMESPEC_DIFF_NS (wc_start_time t) current_time
                  - wc_worst_timer_delay_ns t) w1;
             w3 \<leftarrow> busy_wait_loop (wc_start_time t) current_time (wc_sleep_time_ns t) w2;
             Some (True, WorstCaseTimer_set_next_tick t, w3) })"

definition WorstCaseTimer_get_error :: "WorstCaseTimer \<Rightarrow> string \<times> WorstCaseTimer" where
  "WorstCaseTimer_get_error t =
     (Error_get_error (wc_error_handler t),
      t\<lparr>wc_error_handler := Error_clear_error (wc_error_handler t)\<rparr>)"

definition WorstCaseTimer_is_error :: "WorstCaseTimer \<Rightarrow> bool" where
  "WorstCaseTimer_is_error t = Error_is_error (wc_error_handler t)"

definition WorstCaseTimer_vtable :: "WorstCaseTimer Timer" where
  "WorstCaseTimer_vtable =
     \<lparr>tm_initialize = WorstCaseTimer_initialize, tm_set_frequency = WorstCaseTimer_set_frequency,
      tm_get_frequency = WorstCaseTimer_get_frequency, tm_start_timer = WorstCaseTimer_start_timer,
      tm_stop_timer = WorstCaseTimer_stop_timer, tm_sleep_to_next_tick = WorstCaseTimer_sleep_to_next_tick,
      tm_get_error = WorstCaseTimer_get_error, tm_is_error = WorstCaseTimer_is_error\<rparr>"

section \<open>The class keeps the contract\<close>

definition WorstCaseTimer_view :: "WorstCaseTimer \<Rightarrow> timer_view" where
  "WorstCaseTimer_view t =
     \<lparr>v_start = wc_start_time t, v_frequency = wc_frequency t,
      v_ps = wc_original_sleep_time_ps t, v_target = wc_sleep_time_ns t,
      v_started = wc_timer_started t, v_counter = wc_sleep_counter t\<rparr>"

lemmas WorstCaseTimer_ops = WorstCaseTimer_initialize_def WorstCaseTimer_set_frequency_def WorstCaseTimer_get_frequency_def
  WorstCaseTimer_start_timer_def WorstCaseTimer_stop_timer_def WorstCaseTimer_get_error_def WorstCaseTimer_is_error_def

lemma WorstCaseTimer_view_simps [simp]:
  "v_start (WorstCaseTimer_view t) = wc_start_time t"
  "v_target (WorstCaseTimer_view t) = wc_sleep_time_ns t"
  "v_started (WorstCaseTimer_view t) = wc_timer_started t"
  "v_frequency (WorstCaseTimer_view t) = wc_frequency t"
  "WorstCaseTimer_view (t\<lparr>wc_error_handler := e\<rparr>) = WorstCaseTimer_view t"
  by (simp_all add: WorstCaseTimer_view_def)

lemma WorstCaseTimer_set_next_tick_view:
  "WorstCaseTimer_view (WorstCaseTimer_set_next_tick t) = view_next (WorstCaseTimer_view t)"
  "wc_error_handler (WorstCaseTimer_set_next_tick t) = wc_error_handler t"
  by (simp_all add: WorstCaseTimer_set_next_tick_def WorstCaseTimer_view_def view_next_def target_for_def Let_def)

lemma WorstCaseTimer_sleep_late:
  assumes "late (WorstCaseTimer_view t) w"
  shows "WorstCaseTimer_sleep_to_next_tick t w =
     Some (False, t\<lparr>wc_error_handler := Error_set_error late_message (wc_error_handler t)\<rparr>,
       snd (clock_gettime w))"
  using assms by (simp add: WorstCaseTimer_sleep_to_next_tick_def late_def clock_gettime_def)

text \<open>
  Before spinning, the timer has slept for at most the time left minus the worst delay, or, with
  less than that left, not at all.
\<close>

lemma WorstCaseTimer_sleep_steps:
  assumes "\<not> late (WorstCaseTimer_view t) w" and "ticking (WorstCaseTimer_view t) w"
    and "clock_ok (clock w)"
  shows "\<exists>m. WorstCaseTimer_sleep_to_next_tick t w =
      do { w2 \<leftarrow> m; w3 \<leftarrow> busy_wait_loop (wc_start_time t) (clock w (reads w)) (wc_sleep_time_ns t) w2;
           Some (True, WorstCaseTimer_set_next_tick t, w3) } \<and>
     (\<forall>w2. m = Some w2 \<longrightarrow> (\<exists>naps. slept w naps w2 \<and> reads w < reads w2 \<and>
        (\<forall>n \<in> set naps. ts_norm n \<and> 0 < ts_ns n \<and>
          ts_ns n \<le> deadline (WorstCaseTimer_view t) - ts_ns (clock w (reads w))
                     - uint (wc_worst_timer_delay_ns t)))) \<and>
     (clock_runs (clock w) \<longrightarrow>
        ts_ns (clock w (Suc (reads w))) + uint (wc_sleep_time_ns t) < 2 ^ 62 \<longrightarrow> m \<noteq> None)"
proof -
  let ?w1 = "snd (clock_gettime w)" and ?d = "wc_worst_timer_delay_ns t"
  let ?left = "wc_sleep_time_ns t - TIMESPEC_DIFF_NS (wc_start_time t) (clock w (reads w))"
  have left: "uint ?left = deadline (WorstCaseTimer_view t) - ts_ns (clock w (reads w))"
    using in_time_left(2) [OF assms] by simp
  show ?thesis
  proof (cases "?left < ?d")
    case True
    have "slept w [] ?w1" "reads w < reads ?w1"
      by (rule slept_clock_gettime) (simp add: clock_gettime_def)
    with True assms(1) show ?thesis
      by (intro exI [of _ "Some ?w1"])
        (auto simp: WorstCaseTimer_sleep_to_next_tick_def late_def clock_gettime_def
          intro!: exI [of _ "[]"])
  next
    case False
    then have u: "uint (?left - ?d) = uint ?left - uint ?d"
      by (intro uint_sub_no_wrap) (simp add: linorder_not_less)
    have "\<exists>naps. slept w naps w2 \<and> reads w < reads w2 \<and>
        (\<forall>n \<in> set naps. ts_norm n \<and> 0 < ts_ns n \<and> ts_ns n \<le> uint ?left - uint ?d)"
      if "nanoseconds_sleep (?left - ?d) ?w1 = Some w2" for w2
    proof -
      have "clock_ok (clock ?w1)" using assms(3) by (simp add: clock_gettime_def)
      from nanoseconds_sleep_result [OF that this] obtain naps where
        naps: "slept ?w1 naps w2" "Suc (Suc (reads ?w1)) \<le> reads w2"
          "\<forall>n \<in> set naps. ts_norm n \<and> 0 < ts_ns n \<and> ts_ns n \<le> uint (?left - ?d)" by blast
      have "slept w ([] @ naps) w2" by (rule slept_trans [OF slept_clock_gettime naps(1)])
      with naps(2,3) u show ?thesis by (intro exI [of _ naps]) (simp add: clock_gettime_def)
    qed
    moreover have "nanoseconds_sleep (?left - ?d) ?w1 \<noteq> None"
      if "clock_runs (clock w)" "ts_ns (clock w (Suc (reads w))) + uint (wc_sleep_time_ns t) < 2 ^ 62"
    proof -
      have "uint ?left \<le> uint (wc_sleep_time_ns t)"
        using in_time_left(1) [OF assms] by (simp add: word_sub_le flip: word_le_def)
      then have "uint (?left - ?d) \<le> uint (wc_sleep_time_ns t)"
        using u uint_ge_0 [of ?d] by linarith
      then have "ts_ns (clock ?w1 (reads ?w1)) + uint (?left - ?d) < 2 ^ 62"
        using that(2) by (simp add: clock_gettime_def)
      then show ?thesis
        using nanoseconds_sleep_returns [of ?w1 "?left - ?d"] that(1) by (simp add: clock_gettime_def)
    qed
    ultimately show ?thesis
      using False assms(1) left
      by (intro exI [of _ "nanoseconds_sleep (?left - ?d) ?w1"])
        (auto simp: WorstCaseTimer_sleep_to_next_tick_def late_def clock_gettime_def)
  qed
qed

lemma WorstCaseTimer_sleep_in_time:
  assumes "\<not> late (WorstCaseTimer_view t) w" and "ticking (WorstCaseTimer_view t) w"
    and "clock_ok (clock w)" and "WorstCaseTimer_sleep_to_next_tick t w = Some (ok, t', w')"
  shows "ok \<and> t' = WorstCaseTimer_set_next_tick t \<and>
     (\<exists>naps. slept w naps w' \<and> (\<forall>n \<in> set naps. ts_norm n \<and> 0 < ts_ns n \<and>
        ts_ns n \<le> deadline (WorstCaseTimer_view t) - ts_ns (clock w (reads w))
                   - uint (wc_worst_timer_delay_ns t))) \<and>
     reads w < reads w' \<and> deadline (WorstCaseTimer_view t) \<le> ts_ns (clock w (reads w' - 1))"
proof -
  obtain m where
    e: "WorstCaseTimer_sleep_to_next_tick t w =
      do { w2 \<leftarrow> m; w3 \<leftarrow> busy_wait_loop (wc_start_time t) (clock w (reads w)) (wc_sleep_time_ns t) w2;
           Some (True, WorstCaseTimer_set_next_tick t, w3) }"
    and n: "\<And>w2. m = Some w2 \<Longrightarrow> \<exists>naps. slept w naps w2 \<and> reads w < reads w2 \<and>
        (\<forall>n \<in> set naps. ts_norm n \<and> 0 < ts_ns n \<and>
          ts_ns n \<le> deadline (WorstCaseTimer_view t) - ts_ns (clock w (reads w))
                     - uint (wc_worst_timer_delay_ns t))"
    using WorstCaseTimer_sleep_steps [OF assms(1-3)] by blast
  from assms(4) [unfolded e] n obtain w2 naps where
    ok: "ok" "t' = WorstCaseTimer_set_next_tick t"
    and loop: "busy_wait_loop (wc_start_time t) (clock w (reads w)) (wc_sleep_time_ns t) w2 = Some w'"
    and naps: "slept w naps w2" "reads w < reads w2"
      "\<forall>n \<in> set naps. ts_norm n \<and> 0 < ts_ns n \<and>
        ts_ns n \<le> deadline (WorstCaseTimer_view t) - ts_ns (clock w (reads w))
                   - uint (wc_worst_timer_delay_ns t)"
    unfolding bind_eq_Some_conv by blast
  note c = sleptD(1) [OF naps(1)]
  have "clock_ok (clock w2)" "0 \<le> ts_ns (wc_start_time t)"
    "ts_ns (wc_start_time t) \<le> ts_ns (clock w2 (reads w))"
    using assms(2,3) c by (simp_all add: ticking_def)
  note r = busy_wait_reached [OF this naps(2) loop [folded c]]
  have "slept w (naps @ []) w'" by (rule slept_trans [OF naps(1) r(1)])
  with ok r(2) c sleptD(2) [OF r(1)] naps(2,3) show ?thesis by (auto simp: deadline_def)
qed

lemma WorstCaseTimer_sleep_returns:
  assumes "\<not> late (WorstCaseTimer_view t) w" and "ticking (WorstCaseTimer_view t) w" and "clock_runs (clock w)"
    and "ts_ns (clock w (Suc (reads w))) + uint (wc_sleep_time_ns t) < 2 ^ 62"
  shows "WorstCaseTimer_sleep_to_next_tick t w \<noteq> None"
proof -
  have ok: "clock_ok (clock w)" using assms(3) by (simp add: clock_runs_def)
  obtain m where
    e: "WorstCaseTimer_sleep_to_next_tick t w =
      do { w2 \<leftarrow> m; w3 \<leftarrow> busy_wait_loop (wc_start_time t) (clock w (reads w)) (wc_sleep_time_ns t) w2;
           Some (True, WorstCaseTimer_set_next_tick t, w3) }"
    and n: "\<And>w2. m = Some w2 \<Longrightarrow> \<exists>naps. slept w naps w2" and "m \<noteq> None"
    using WorstCaseTimer_sleep_steps [OF assms(1,2) ok] assms(3,4) by blast
  then obtain w2 naps where
    m: "WorstCaseTimer_sleep_to_next_tick t w =
      do { w3 \<leftarrow> busy_wait_loop (wc_start_time t) (clock w (reads w)) (wc_sleep_time_ns t) w2;
           Some (True, WorstCaseTimer_set_next_tick t, w3) }"
    and "slept w naps w2"
    by (auto split: option.splits)
  then have "clock w2 = clock w" by (simp add: sleptD)
  moreover have "ts_ns (wc_start_time t) + uint (wc_sleep_time_ns t) < 2 ^ 62"
    using assms(2,4) clock_mono [OF ok, of "reads w" "Suc (reads w)"] by (simp add: ticking_def)
  ultimately have "\<exists>w3. busy_wait_loop (wc_start_time t) (clock w (reads w)) (wc_sleep_time_ns t) w2 = Some w3"
    using assms(2,3) by (intro busy_wait_returns) (simp_all add: ticking_def)
  with m show ?thesis by auto
qed

lemma WorstCaseTimer_sleep_slept:
  assumes "WorstCaseTimer_sleep_to_next_tick t w = Some (ok, t', w')"
  shows "\<exists>naps. slept w naps w'"
proof -
  let ?w1 = "snd (clock_gettime w)"
  have loop: "slept v [] v'" if "busy_wait_loop s c d v = Some v'" for s c d v v'
    using busy_wait_loop_result [OF that] by blast
  have nap: "\<exists>naps. slept v naps v'" if "nanoseconds_sleep d v = Some v'" for d v v'
    using that by (rule nanoseconds_sleep_slept)
  have "\<exists>naps. slept ?w1 naps w'"
    using assms
    by (auto simp: WorstCaseTimer_sleep_to_next_tick_def clock_gettime_def bind_eq_Some_conv
        split: if_splits dest!: loop nap intro: slept_trans exI [of _ "[]"] slept_refl)
  then show ?thesis using slept_first by blast
qed

interpretation wc: tick_timer WorstCaseTimer_vtable wc_error_handler WorstCaseTimer_view
proof (unfold_locales, goal_cases)
  case (9 t w)
  then show ?case by (simp add: WorstCaseTimer_vtable_def WorstCaseTimer_ops)
next
  case (12 t w)
  then show ?case by (simp add: WorstCaseTimer_vtable_def WorstCaseTimer_sleep_late)
next
  case (13 t w ok t' w')
  then show ?case
    using WorstCaseTimer_sleep_in_time [of t w ok t' w']
    by (auto simp: WorstCaseTimer_vtable_def WorstCaseTimer_set_next_tick_view)
next
  case (14 t w)
  then show ?case using WorstCaseTimer_sleep_returns [of t w] by (simp add: WorstCaseTimer_vtable_def)
next
  case (15 t w ok t' w')
  then show ?case using WorstCaseTimer_sleep_slept [of t w ok t' w'] by (simp add: WorstCaseTimer_vtable_def)
next
  case (16 t w ok t' w')
  then show ?case
    by (auto simp: WorstCaseTimer_vtable_def WorstCaseTimer_sleep_to_next_tick_def WorstCaseTimer_set_next_tick_view clock_gettime_def
        bind_eq_Some_conv split: if_splits)
qed (auto simp: WorstCaseTimer_vtable_def WorstCaseTimer_ops WorstCaseTimer_view_def view_ops target_for_def clock_gettime_def Let_def)

end
