(* ===== verification/Timer_Properties.thy ===== *)
theory Timer_Properties
  imports Busy_Wait_Timer Free_Wait_Timer Worst_Case_Timer
begin

text \<open>
  The properties of the time arithmetic, the sleep functions and the three timers, over the
  facts of the interpretations \<open>bw\<close>, \<open>fw\<close> and \<open>wc\<close> of the contract of a timer.
\<close>

section \<open>Timers on concrete machines\<close>

text \<open>The concrete clock, computed on integers.\<close>

lemma ns_ts_code [code]:
  "ns_ts n = \<lparr>tv_sec = word_of_int (int n div 1000000000), tv_nsec = word_of_int (int n mod 1000000000)\<rparr>"
proof -
  have "int n div 1000000000 = int (n div 10 ^ 9)" "int n mod 1000000000 = int (n mod 10 ^ 9)"
    by (simp_all only: zdiv_int zmod_int of_nat_power of_nat_numeral) simp_all
  then show ?thesis by (simp only: ns_ts_def of_int_of_nat_eq)
qed

lemma demo_clock_code [code]:
  "demo_clock i = (let n = min (int i * 1000000) 4611686018427387904
    in \<lparr>tv_sec = word_of_int (n div 1000000000), tv_nsec = word_of_int (n mod 1000000000)\<rparr>)"
proof -
  have "int (min (i * 10 ^ 6) (2 ^ 62)) = min (int i * 1000000) 4611686018427387904" by (simp add: of_nat_min)
  then show ?thesis unfolding demo_clock_def ns_ts_code Let_def by (simp only:)
qed

definition bw_raw :: BusyWaitTimer where
  "bw_raw = \<lparr>bw_start_time = ns_ts 0, bw_frequency = 0, bw_original_sleep_time_ps = 0,
     bw_sleep_time_ns = 0, bw_timer_started = True, bw_sleep_counter = 0, bw_buffer = '''',
     bw_error_handler = Error_ctor ''''\<rparr>"

definition fw_raw :: FreeWaitTimer where
  "fw_raw = \<lparr>fw_start_time = ns_ts 0, fw_frequency = 0, fw_original_sleep_time_ps = 0,
     fw_sleep_time_ns = 0, fw_timer_started = True, fw_sleep_counter = 0, fw_buffer = '''',
     fw_error_handler = Error_ctor ''''\<rparr>"

definition wc_raw :: WorstCaseTimer where
  "wc_raw = \<lparr>wc_start_time = ns_ts 0, wc_frequency = 0, wc_original_sleep_time_ps = 0,
     wc_sleep_time_ns = 0, wc_timer_started = True, wc_sleep_counter = 0, wc_worst_timer_delay_ns = 0,
     wc_buffer = '''', wc_error_handler = Error_ctor ''''\<rparr>"

lemma demo_clock_ok [simp]: "clock_ok demo_clock"
  using clock_runs_demo by (simp add: clock_runs_def)

lemma demo_reading [simp]: "n < 10 ^ 9 \<Longrightarrow> ts_ns (demo_clock n) = int n * 10 ^ 6"
  by (simp add: demo_clock_def ts_ns_ns_ts min_def)

lemma raw_stopped [simp]:
  "\<not> bw_timer_started (BusyWaitTimer_ctor bw_raw)" "\<not> fw_timer_started (FreeWaitTimer_ctor fw_raw)"
  "\<not> wc_timer_started (WorstCaseTimer_ctor d wc_raw)"
  by (simp_all add: BusyWaitTimer_ctor_def FreeWaitTimer_ctor_def WorstCaseTimer_ctor_def)

section \<open>Ticks\<close>

text \<open>
  C18: A \<^verbatim>\<open>BusyWaitTimer\<close> that was given a frequency, started, and has done any number of ticks:
  \<^verbatim>\<open>sleep_to_next_tick\<close> answers false exactly when the tick is already over, with an error to be
  fetched; otherwise its last reading of the clock is at or after the deadline of the tick and it
  never gave the processor away (no \<^verbatim>\<open>nanosleep\<close>).
\<close>

theorem bw_never_early:
  assumes "runs_at BusyWaitTimer_vtable f t w n t' w'" and "\<not> bw_timer_started t" and "clock_ok (clock w)"
    and "BusyWaitTimer_sleep_to_next_tick t' w' = Some (ok, t'', w'')"
  shows "(ok \<longleftrightarrow> \<not> late (BusyWaitTimer_view t') w') \<and>
    (if ok then deadline (BusyWaitTimer_view t') \<le> ts_ns (clock w (reads w'' - 1)) \<and> log w'' = log w'
     else BusyWaitTimer_is_error t'' \<and> fst (BusyWaitTimer_get_error t'') = late_message)"
proof -
  have r: "ticking (BusyWaitTimer_view t') w'" "clock w' = clock w" "clock_ok (clock w')"
    using bw.runs_at_ticking [OF assms(1) _ assms(3)] assms(2,3) by simp_all
  show ?thesis
  proof (cases "late (BusyWaitTimer_view t') w'")
    case True
    with BusyWaitTimer_sleep_late [OF this] assms(4) show ?thesis
      by (auto simp: BusyWaitTimer_ops)
  next
    case False
    from BusyWaitTimer_sleep_in_time [OF this r(1,3) assms(4)] r(2) False show ?thesis
      by (auto dest: sleptD)
  qed
qed

theorem bw_never_early_witness:
  "\<exists>t0 w0 t1 w1. runs_at BusyWaitTimer_vtable 100 (BusyWaitTimer_ctor bw_raw) demo_os 0 t0 w0 \<and>
     BusyWaitTimer_sleep_to_next_tick t0 w0 = Some (True, t1, w1) \<and>
     deadline (BusyWaitTimer_view t0) \<le> ts_ns (demo_clock (reads w1 - 1)) \<and> log w1 = log w0"
proof -
  obtain t0 w0 t1 w1 where r: "runs_at BusyWaitTimer_vtable 100 (BusyWaitTimer_ctor bw_raw) demo_os 0 t0 w0"
    and s: "BusyWaitTimer_sleep_to_next_tick t0 w0 = Some (True, t1, w1)"
    using bw.demo_first_tick [of "BusyWaitTimer_ctor bw_raw"] by (auto simp: BusyWaitTimer_vtable_def)
  from bw_never_early [OF r _ _ s] r s show ?thesis by auto
qed

text \<open>
  C19: A \<^verbatim>\<open>FreeWaitTimer\<close> likewise; it waits by \<^verbatim>\<open>nanosleep\<close> only, with normalised, positive
  requests of at most the time left to the tick.
\<close>

theorem fw_never_early:
  assumes "runs_at FreeWaitTimer_vtable f t w n t' w'" and "\<not> fw_timer_started t" and "clock_ok (clock w)"
    and "FreeWaitTimer_sleep_to_next_tick t' w' = Some (ok, t'', w'')"
  shows "(ok \<longleftrightarrow> \<not> late (FreeWaitTimer_view t') w') \<and>
    (if ok then deadline (FreeWaitTimer_view t') \<le> ts_ns (clock w (reads w'' - 1)) \<and>
       (\<exists>naps. log w'' = log w' @ map Nanosleep naps \<and> (\<forall>x \<in> set naps. ts_norm x \<and> 0 < ts_ns x \<and>
          ts_ns x \<le> deadline (FreeWaitTimer_view t') - ts_ns (clock w (reads w'))))
     else FreeWaitTimer_is_error t'' \<and> fst (FreeWaitTimer_get_error t'') = late_message)"
proof -
  have r: "ticking (FreeWaitTimer_view t') w'" "clock w' = clock w" "clock_ok (clock w')"
    using fw.runs_at_ticking [OF assms(1) _ assms(3)] assms(2,3) by simp_all
  show ?thesis
  proof (cases "late (FreeWaitTimer_view t') w'")
    case True
    with FreeWaitTimer_sleep_late [OF this] assms(4) show ?thesis
      by (auto simp: FreeWaitTimer_ops)
  next
    case False
    from FreeWaitTimer_sleep_in_time [OF this r(1,3) assms(4)] r(2) False show ?thesis
      by (auto dest: sleptD(3))
  qed
qed

theorem fw_never_early_witness:
  "\<exists>t0 w0 t1 w1. runs_at FreeWaitTimer_vtable 100 (FreeWaitTimer_ctor fw_raw) demo_os 0 t0 w0 \<and>
     FreeWaitTimer_sleep_to_next_tick t0 w0 = Some (True, t1, w1) \<and>
     deadline (FreeWaitTimer_view t0) \<le> ts_ns (demo_clock (reads w1 - 1))"
proof -
  obtain t0 w0 t1 w1 where r: "runs_at FreeWaitTimer_vtable 100 (FreeWaitTimer_ctor fw_raw) demo_os 0 t0 w0"
    and s: "FreeWaitTimer_sleep_to_next_tick t0 w0 = Some (True, t1, w1)"
    using fw.demo_first_tick [of "FreeWaitTimer_ctor fw_raw"] by (auto simp: FreeWaitTimer_vtable_def)
  from fw_never_early [OF r _ _ s] r s show ?thesis by auto
qed

text \<open>
  C20: A \<^verbatim>\<open>WorstCaseTimer\<close> likewise; it blocks by \<^verbatim>\<open>nanosleep\<close> for at most the time left minus the
  worst delay it was constructed with, and spins for the rest.
\<close>

theorem wc_never_early:
  assumes "runs_at WorstCaseTimer_vtable f t w n t' w'" and "\<not> wc_timer_started t" and "clock_ok (clock w)"
    and "WorstCaseTimer_sleep_to_next_tick t' w' = Some (ok, t'', w'')"
  shows "(ok \<longleftrightarrow> \<not> late (WorstCaseTimer_view t') w') \<and>
    (if ok then deadline (WorstCaseTimer_view t') \<le> ts_ns (clock w (reads w'' - 1)) \<and>
       (\<exists>naps. log w'' = log w' @ map Nanosleep naps \<and> (\<forall>x \<in> set naps. ts_norm x \<and> 0 < ts_ns x \<and>
          ts_ns x \<le> deadline (WorstCaseTimer_view t') - ts_ns (clock w (reads w')) -
            uint (wc_worst_timer_delay_ns t')))
     else WorstCaseTimer_is_error t'' \<and> fst (WorstCaseTimer_get_error t'') = late_message)"
proof -
  have r: "ticking (WorstCaseTimer_view t') w'" "clock w' = clock w" "clock_ok (clock w')"
    using wc.runs_at_ticking [OF assms(1) _ assms(3)] assms(2,3) by simp_all
  show ?thesis
  proof (cases "late (WorstCaseTimer_view t') w'")
    case True
    with WorstCaseTimer_sleep_late [OF this] assms(4) show ?thesis
      by (auto simp: WorstCaseTimer_ops)
  next
    case False
    from WorstCaseTimer_sleep_in_time [OF this r(1,3) assms(4)] r(2) False show ?thesis
      by (auto dest: sleptD(3))
  qed
qed

theorem wc_never_early_witness:
  "\<exists>t0 w0 t1 w1. runs_at WorstCaseTimer_vtable 100 (WorstCaseTimer_ctor 200 wc_raw) demo_os 0 t0 w0 \<and>
     WorstCaseTimer_sleep_to_next_tick t0 w0 = Some (True, t1, w1) \<and>
     deadline (WorstCaseTimer_view t0) \<le> ts_ns (demo_clock (reads w1 - 1))"
proof -
  obtain t0 w0 t1 w1 where r: "runs_at WorstCaseTimer_vtable 100 (WorstCaseTimer_ctor 200 wc_raw) demo_os 0 t0 w0"
    and s: "WorstCaseTimer_sleep_to_next_tick t0 w0 = Some (True, t1, w1)"
    using wc.demo_first_tick [of "WorstCaseTimer_ctor 200 wc_raw"] by (auto simp: WorstCaseTimer_vtable_def)
  from wc_never_early [OF r _ _ s] r s show ?thesis by auto
qed

section \<open>Drift\<close>

text \<open>
  C21: No drift: after \<open>n\<close> ticks of a \<^verbatim>\<open>BusyWaitTimer\<close> at frequency \<open>f\<close>, the deadline of tick
  \<open>n + 1\<close> is at most \<open>n + 1\<close> picoseconds before and at most \<open>n div 2 ^ 23 + 1\<close> nanoseconds after
  \<open>(n + 1) / f\<close> seconds from the start; the rounding of the period does not add up.
\<close>

theorem bw_drift:
  assumes "runs_at BusyWaitTimer_vtable f t w n t' w'" and "\<not> bw_timer_started t" and "clock_ok (clock w)"
  shows "10 ^ 12 * int (n + 1) \<le>
      int (unat f) * (1000 * (deadline (BusyWaitTimer_view t') - ts_ns (clock w (reads w))) + int (n + 1)) \<and>
    int (unat f) * (1000 * (deadline (BusyWaitTimer_view t') - ts_ns (clock w (reads w)))) \<le>
      10 ^ 12 * int (n + 1) + int (unat f) * (1000 * int (n div 2 ^ 23 + 1))"
  using bw.runs_at_drift [OF assms(1) _ assms(3)] assms(2) by simp

theorem bw_drift_witness:
  "\<exists>t1 w1. runs_at BusyWaitTimer_vtable 100 (BusyWaitTimer_ctor bw_raw) demo_os 1 t1 w1 \<and>
     20 * 10 ^ 9 \<le> 1000 * deadline (BusyWaitTimer_view t1) + 2 \<and>
     1000 * deadline (BusyWaitTimer_view t1) \<le> 20 * 10 ^ 9 + 1000"
proof -
  obtain t1 w1 where r: "runs_at BusyWaitTimer_vtable 100 (BusyWaitTimer_ctor bw_raw) demo_os 1 t1 w1"
    using bw.demo_first_tick [of "BusyWaitTimer_ctor bw_raw"] by auto
  from bw_drift [OF r] r show ?thesis by (auto simp: demo_clock_def ts_ns_ns_ts)
qed

text \<open>
  C22: Likewise: after \<open>n\<close> ticks of a \<^verbatim>\<open>FreeWaitTimer\<close> at frequency \<open>f\<close>, the deadline of tick
  \<open>n + 1\<close> is at most \<open>n + 1\<close> picoseconds before and at most \<open>n div 2 ^ 23 + 1\<close> nanoseconds after
  \<open>(n + 1) / f\<close> seconds from the start; the rounding of the period does not add up.
\<close>

theorem fw_drift:
  assumes "runs_at FreeWaitTimer_vtable f t w n t' w'" and "\<not> fw_timer_started t" and "clock_ok (clock w)"
  shows "10 ^ 12 * int (n + 1) \<le>
      int (unat f) * (1000 * (deadline (FreeWaitTimer_view t') - ts_ns (clock w (reads w))) + int (n + 1)) \<and>
    int (unat f) * (1000 * (deadline (FreeWaitTimer_view t') - ts_ns (clock w (reads w)))) \<le>
      10 ^ 12 * int (n + 1) + int (unat f) * (1000 * int (n div 2 ^ 23 + 1))"
  using fw.runs_at_drift [OF assms(1) _ assms(3)] assms(2) by simp

theorem fw_drift_witness:
  "\<exists>t1 w1. runs_at FreeWaitTimer_vtable 100 (FreeWaitTimer_ctor fw_raw) demo_os 1 t1 w1 \<and>
     20 * 10 ^ 9 \<le> 1000 * deadline (FreeWaitTimer_view t1) + 2 \<and>
     1000 * deadline (FreeWaitTimer_view t1) \<le> 20 * 10 ^ 9 + 1000"
proof -
  obtain t1 w1 where r: "runs_at FreeWaitTimer_vtable 100 (FreeWaitTimer_ctor fw_raw) demo_os 1 t1 w1"
    using fw.demo_first_tick [of "FreeWaitTimer_ctor fw_raw"] by auto
  from fw_drift [OF r] r show ?thesis by (auto simp: demo_clock_def ts_ns_ns_ts)
qed

text \<open>
  C23: Likewise: after \<open>n\<close> ticks of a \<^verbatim>\<open>WorstCaseTimer\<close> at frequency \<open>f\<close>, the deadline of tick
  \<open>n + 1\<close> is at most \<open>n + 1\<close> picoseconds before and at most \<open>n div 2 ^ 23 + 1\<close> nanoseconds after
  \<open>(n + 1) / f\<close> seconds from the start; the rounding of the period does not add up.
\<close>

theorem wc_drift:
  assumes "runs_at WorstCaseTimer_vtable f t w n t' w'" and "\<not> wc_timer_started t" and "clock_ok (clock w)"
  shows "10 ^ 12 * int (n + 1) \<le>
      int (unat f) * (1000 * (deadline (WorstCaseTimer_view t') - ts_ns (clock w (reads w))) + int (n + 1)) \<and>
    int (unat f) * (1000 * (deadline (WorstCaseTimer_view t') - ts_ns (clock w (reads w)))) \<le>
      10 ^ 12 * int (n + 1) + int (unat f) * (1000 * int (n div 2 ^ 23 + 1))"
  using wc.runs_at_drift [OF assms(1) _ assms(3)] assms(2) by simp

theorem wc_drift_witness:
  "\<exists>t1 w1. runs_at WorstCaseTimer_vtable 100 (WorstCaseTimer_ctor 200 wc_raw) demo_os 1 t1 w1 \<and>
     20 * 10 ^ 9 \<le> 1000 * deadline (WorstCaseTimer_view t1) + 2 \<and>
     1000 * deadline (WorstCaseTimer_view t1) \<le> 20 * 10 ^ 9 + 1000"
proof -
  obtain t1 w1 where r: "runs_at WorstCaseTimer_vtable 100 (WorstCaseTimer_ctor 200 wc_raw) demo_os 1 t1 w1"
    using wc.demo_first_tick [of "WorstCaseTimer_ctor 200 wc_raw"] by auto
  from wc_drift [OF r] r show ?thesis by (auto simp: demo_clock_def ts_ns_ns_ts)
qed

end
