(* ===== verification/Worker_Step.thy ===== *)
theory Worker_Step
  imports Sender_Worker
begin

text \<open>
  The step function of the worker threads: \<^verbatim>\<open>tcp_worker_function\<close> of
  \<^verbatim>\<open>src/senders/tcp_sender.cpp\<close>, whose text \<^verbatim>\<open>tcp_sender_zc.cpp\<close> repeats, with what differs as
  parameters (the error codes, the flag \<^verbatim>\<open>MSG_ZEROCOPY\<close>, where the thread goes when all packets
  are sent), and the proof that it keeps the invariants of \<open>Sender_Worker\<close>.
\<close>

section \<open>The thread\<close>

text \<open>The error codes \<^verbatim>\<open>TCP_SENDER_ERROR_CODES\<close> both workers use, and the values of the enum.\<close>

record 'e worker_codes =
  c_code :: "'e \<Rightarrow> uint_fast8"
  c_affinity :: 'e
  c_timeout :: 'e
  c_buffers :: 'e
  c_sending :: 'e
  c_not_supported :: 'e
  c_no_error :: 'e

definition codes_ok :: "'e worker_codes \<Rightarrow> bool" where
  [spec_defs]: "codes_ok codes \<longleftrightarrow>
     c_no_error codes \<notin> {c_affinity codes, c_timeout codes, c_buffers codes, c_sending codes,
       c_not_supported codes}"

definition worker_step ::
  "'e worker_codes \<Rightarrow> bool \<Rightarrow> 'e wpc \<Rightarrow> ('e, 'm) wstate \<Rightarrow> ('e, 'm) wstate" where
  "worker_step codes zerocopy end_pc = (\<lambda>(d, t, w).
     case w_pc t of
       W_Alive \<Rightarrow> (d\<lparr>is_terminated_thread := False\<rparr>, goto W_Initialized t, w)
     | W_Initialized \<Rightarrow>
         (d\<lparr>thread_initialized := True\<rparr>,
          goto W_Affinity (t\<lparr>w_prot_lock := MutexRAII_ctor,
            w_prot_term_flag := AtomicValRAII_ctor True, w_data := []\<rparr>), w)
     | W_Affinity \<Rightarrow>
         setup_step (SetAffinity CPU_CORE_AFFINITY) (\<lambda>r. r \<noteq> 0) (c_affinity codes) W_Timeout (d, t, w)
     | W_Timeout \<Rightarrow>
         setup_step (Setsockopt (sock_fd d) (SO_SNDTIMEO 1 0)) (\<lambda>r. r < 0) (c_timeout codes)
           W_SndBuf (d, t, w)
     | W_SndBuf \<Rightarrow>
         setup_step (Setsockopt (sock_fd d) (SO_SNDBUF TCP_SENDER_SEND_BUFFER)) (\<lambda>r. r < 0)
           (c_buffers codes) W_RcvBuf (d, t, w)
     | W_RcvBuf \<Rightarrow>
         setup_step (Setsockopt (sock_fd d) (SO_RCVBUF TCP_SENDER_RECV_BUFFER)) (\<lambda>r. r < 0)
           (c_buffers codes) W_Loop (d, t, w)
     | W_Loop \<Rightarrow>
         (if \<not> terminate_thread d then (d, goto W_Lock t, w)
          else (d, goto (W_Exit False (c_no_error codes)) t, w))
     | W_Lock \<Rightarrow> lock_step W_Check (d, t, w)
     | W_Check \<Rightarrow>
         (if packets_list d = None then (d, goto W_CheckTerm t, w) else (d, goto W_Copy t, w))
     | W_CheckTerm \<Rightarrow>
         (if terminate_thread d then (d, goto (W_Exit False (c_no_error codes)) t, w) else (d, goto W_Wait t, w))
     | W_Wait \<Rightarrow> (cond_wait_enter d, goto W_Blocked t, w)
     | W_Blocked \<Rightarrow>
         (let w1 = w\<lparr>waits := Suc (waits w)\<rparr> in
          if packets_cond d \<and> \<not> spurious w (waits w) then (d, t, w1)
          else (d\<lparr>packets_cond := False\<rparr>, goto W_Relock t, w1))
     | W_Relock \<Rightarrow>
         (case pthread_mutex_lock WorkerThread (packets_mutex d) of
            None \<Rightarrow> (d, t, w)
          | Some m \<Rightarrow> (d\<lparr>packets_mutex := m\<rparr>, goto W_Check t, w))
     | W_Copy \<Rightarrow>
         (d\<lparr>packets_list := None\<rparr>,
          goto W_Unlock (t\<lparr>w_data := lists w (the (packets_list d))\<rparr>), w)
     | W_Unlock \<Rightarrow>
         (let (_, g, m) = MutexRAII_unlock (w_prot_lock t) (packets_mutex d)
          in (d\<lparr>packets_mutex := m\<rparr>, goto W_Packets (t\<lparr>w_prot_lock := g, w_i := 0\<rparr>), w))
     | W_Packets \<Rightarrow> (d, packets_step (c_not_supported codes) end_pc t, w)
     | W_Send \<Rightarrow> send_step zerocopy (c_sending codes) (d, t, w)
     | W_SendTerm s \<Rightarrow>
         (if terminate_thread d then (d, goto (W_Exit False (c_no_error codes)) t, w)
          else (d, goto W_Send (t\<lparr>w_data_sent := w_data_sent t + word_of_int s,
                                  w_remaining := w_remaining t - word_of_int s\<rparr>), w))
     | W_Sendfile \<Rightarrow> sendfile_step (c_sending codes) (d, t, w)
     | W_SendfileTerm s \<Rightarrow>
         (if terminate_thread d then (d, goto (W_Exit False (c_no_error codes)) t, w)
          else (d, goto W_Sendfile (t\<lparr>w_remaining := w_remaining t - word_of_int s\<rparr>), w))
     | W_Done \<Rightarrow> (d\<lparr>is_done := True\<rparr>, goto W_Loop t, w)
     | W_Exit flag code \<Rightarrow> (d\<lparr>is_error := flag\<rparr>, goto (W_ExitCode code) t, w)
     | W_ExitCode code \<Rightarrow> (d\<lparr>error_code := c_code codes code\<rparr>, goto W_ExitUnlock t, w)
     | W_ExitUnlock \<Rightarrow>
         (let (g, m) = MutexRAII_dtor (w_prot_lock t) (packets_mutex d)
          in (d\<lparr>packets_mutex := m\<rparr>, goto W_ExitFlag (t\<lparr>w_prot_lock := g\<rparr>), w))
     | W_ExitFlag \<Rightarrow>
         (d\<lparr>is_terminated_thread := AtomicValRAII_dtor (w_prot_term_flag t)\<rparr>, goto W_Unwind t, w)
     | W_Unwind \<Rightarrow>
         (let (g, m) = MutexRAII_dtor (w_prot_lock t) (packets_mutex d)
          in (d\<lparr>packets_mutex := m, is_terminated_thread := AtomicValRAII_dtor (w_prot_term_flag t)\<rparr>,
              goto W_Exited (t\<lparr>w_prot_lock := g\<rparr>), w))
     | _ \<Rightarrow> (d, t, w))"

lemmas worker_defs = worker_step_def setup_step_def lock_step_def packets_step_def send_step_def
  sendfile_step_def cond_wait_enter_def syscall_def MutexRAII_ops

section \<open>What the thread never touches\<close>

text \<open>
  The worker leaves the main thread's flags and the caller's memory alone; of the machine it
  changes the log, the wire and the count of waits.
\<close>

lemma worker_step_os:
  assumes "worker_step codes zc end_pc (d, t, w) = (d', t', w')"
  shows "w' = w\<lparr>log := log w', wire := wire w', waits := waits w'\<rparr>"
proof -
  have send: "snd (send_call fd b n z v) = v\<lparr>log := log (snd (send_call fd b n z v)),
      wire := wire (snd (send_call fd b n z v)), waits := waits v\<rparr>" for fd b n z v
    by (simp add: send_call_eq Let_def)
  have sendfile: "snd (snd (sendfile_call fd b n z v)) = v\<lparr>log := log (snd (snd (sendfile_call fd b n z v))),
      wire := wire (snd (snd (sendfile_call fd b n z v))), waits := waits v\<rparr>" for fd b n z v
    by (simp add: sendfile_call_eq Let_def)
  show ?thesis
  proof (cases "w_pc t")
    case W_Send
    with assms show ?thesis
      using send [of "sock_fd d" "data_ptr (w_data t ! w_i t) + w_data_sent t" "w_remaining t" zc w]
      by (auto simp: worker_defs split: prod.splits if_splits)
  next
    case W_Sendfile
    with assms show ?thesis
      using sendfile [of "sock_fd d" "int_at w (data_ptr (w_data t ! w_i t))" "w_offset t" "w_remaining t" w]
      by (auto simp: worker_defs split: prod.splits if_splits)
  qed (use assms in \<open>auto simp: worker_defs Let_def split: if_splits option.splits\<close>)
qed

lemma worker_step_user_calls:
  assumes "worker_step codes zc end_pc (d, t, w) = (d', t', w')"
  shows "user_calls w' = user_calls w"
proof (cases "w_pc t")
  case W_Send
  have "user_calls w1 = user_calls w" if "send_call fd b n z w = (x, w1)" for fd b n z x w1
    using that by (auto simp: send_call_eq Let_def)
  with assms W_Send show ?thesis by (auto simp: worker_defs split: prod.splits if_splits)
next
  case W_Sendfile
  have "user_calls w1 = user_calls w" if "sendfile_call fd f n m w = (x, y, w1)" for fd f n m x y w1
    using that by (auto simp: sendfile_call_eq Let_def)
  with assms W_Sendfile show ?thesis by (auto simp: worker_defs split: prod.splits if_splits)
qed (use assms in \<open>auto simp: worker_defs Let_def split: if_splits option.splits DATA_PTR_TYPE.splits\<close>)

lemma worker_step_flags:
  assumes "worker_step codes zc end_pc (d, t, w) = (d', t', w')"
  shows "terminate_thread d' = terminate_thread d" "sock_fd d' = sock_fd d"
  using assms by (auto simp: worker_defs Let_def split: wpc.splits if_splits option.splits prod.splits)

section \<open>The invariants\<close>

lemmas worker_splits = if_splits option.splits prod.splits DATA_PTR_TYPE.splits

lemma worker_step_lock:
  assumes "end_pc = W_Done \<or> end_pc = W_ZcLoop" and "lock_inv d t" and "worker_step codes zc end_pc (d, t, w) = (d', t', w')"
  shows "lock_inv d' t'"
  using assms
  by (cases "w_pc t") (auto simp: worker_defs lock_inv_def Let_def split: worker_splits)

lemma worker_step_life:
  assumes "end_pc = W_Done \<or> end_pc = W_ZcLoop" and "life_inv d t" and "worker_step codes zc end_pc (d, t, w) = (d', t', w')"
  shows "life_inv d' t'"
  using assms
  by (cases "w_pc t")
    (auto simp: worker_defs life_inv_def AtomicValRAII_ctor_def AtomicValRAII_dtor_def Let_def
       split: worker_splits)

lemma worker_step_packet:
  assumes "end_pc = W_Done \<or> end_pc = W_ZcLoop" and "packet_inv d t" and "worker_step codes zc end_pc (d, t, w) = (d', t', w')"
  shows "packet_inv d' t'"
  using assms
  by (cases "w_pc t")
    (auto simp: worker_defs packet_inv_def Let_def not_less dest: send_call_range(1)
       sendfile_call_range(1) split: worker_splits)

lemma worker_step_inv:
  assumes "end_pc = W_Done \<or> end_pc = W_ZcLoop" and "worker_step codes zc end_pc (d, t, w) = (d', t', w')"
    and "worker_inv d t"
  shows "worker_inv d' t'"
  using assms worker_step_lock [OF assms(1) _ assms(2)] worker_step_life [OF assms(1) _ assms(2)]
    worker_step_packet [OF assms(1) _ assms(2)]
  by (simp add: worker_inv_def)

lemma worker_step_handover:
  assumes "end_pc = W_Done \<or> end_pc = W_ZcLoop" and "handover_inv d t" and "packet_inv d t" and "worker_step codes zc end_pc (d, t, w) = (d', t', w')"
  shows "handover_inv d' t'"
  using assms
  by (cases "w_pc t")
    (auto simp: worker_defs handover_inv_def packet_inv_def busy_def Let_def split: worker_splits)

lemma worker_step_exit:
  assumes "codes_ok codes" and "end_pc = W_Done \<or> end_pc = W_ZcLoop" and "exit_inv (c_code codes) (c_no_error codes) d t" and "worker_step codes zc end_pc (d, t, w) = (d', t', w')"
  shows "exit_inv (c_code codes) (c_no_error codes) d' t'"
  using assms
  by (cases "w_pc t")
    (auto simp: worker_defs codes_ok_def exit_inv_def Let_def split: worker_splits)

text \<open>The mutex keeps the thread out while the main thread changes the list.\<close>

lemma worker_step_locked_out:
  assumes "lock_inv d t" and "packets_mutex d = Some MainThread"
    and "worker_step codes zc end_pc (d, t, w) = (d', t', w')"
  shows "packets_mutex d' = Some MainThread" "packets_list d' = packets_list d"
    "packets_cond d' \<Longrightarrow> packets_cond d"
    "\<not> busy (w_pc t) \<Longrightarrow> \<not> busy (w_pc t') \<and> is_done d' = is_done d"
  using assms
  by (cases "w_pc t"; auto simp: worker_defs lock_inv_def busy_def Let_def split: worker_splits)+

lemma worker_step_never_main:
  assumes "worker_step codes zc end_pc (d, t, w) = (d', t', w')" and "packets_mutex d \<noteq> Some MainThread"
  shows "packets_mutex d' \<noteq> Some MainThread"
  using assms by (cases "w_pc t"; auto simp: worker_defs Let_def split: worker_splits)

lemma worker_step_idle:
  assumes "worker_step codes zc end_pc (d, t, w) = (d', t', w')"
  shows "is_done d \<Longrightarrow> is_done d'" "\<not> busy (w_pc t) \<Longrightarrow> wire w' = wire w"
  using assms
  by (cases "w_pc t"; auto simp: worker_defs busy_def Let_def split: worker_splits)+

lemma worker_step_life_cycle:
  assumes "worker_step codes zc end_pc (d, t, w) = (d', t', w')"
  shows "w_pc t = W_Alive \<Longrightarrow> w_pc t' = W_Initialized"
    "life_inv d t \<Longrightarrow> thread_initialized d \<or> w_pc t = W_Initialized \<Longrightarrow> thread_initialized d'"
    "dead (w_pc t) \<Longrightarrow> dead (w_pc t') \<and> (w_pc t \<noteq> W_ExitFlag \<longrightarrow> w_pc t' = W_Exited) \<and>
      is_error d' = is_error d \<and> error_code d' = error_code d"
  using assms
  by (cases "w_pc t"; auto simp: worker_defs life_inv_def Let_def split: worker_splits)+

section \<open>Delivery\<close>

text \<open>Outside the sending part the wire is untouched and the list waits; inside, the shared steps apply.\<close>

lemma worker_step_quiet:
  assumes "\<not> sending (w_pc t)" and "w_pc t \<noteq> W_Copy" and "w_pc t \<noteq> W_Done"
    and "worker_step codes zc end_pc (d, t, w) = (d', t', w')"
  shows "is_done d' = is_done d" "packets_list d' = packets_list d" "wire w' = wire w"
    "all_sent (w_pc t) \<Longrightarrow> t' = t"
    "\<not> all_sent (w_pc t) \<Longrightarrow> \<not> sending (w_pc t') \<and> \<not> all_sent (w_pc t') \<and> (w_pc t' = W_Copy \<longrightarrow> packets_list d \<noteq> None)"
    "exiting (w_pc t) \<or> dead (w_pc t) \<Longrightarrow> exiting (w_pc t') \<or> dead (w_pc t')"
  using assms
  by (cases "w_pc t"; auto simp: worker_defs Let_def split: if_splits option.splits)+

lemma worker_step_stays_idle:
  assumes "worker_step codes zc end_pc (d, t, w) = (d', t', w')" and "\<not> busy (w_pc t)" and "packets_list d = None"
  shows "\<not> busy (w_pc t') \<and> packets_list d' = None"
proof -
  from assms(2) have "\<not> sending (w_pc t)" "\<not> all_sent (w_pc t)" "w_pc t \<noteq> W_Copy" "w_pc t \<noteq> W_Done"
    by (auto simp: busy_def)
  with worker_step_quiet [OF this(1,3,4) assms(1)] assms(3) show ?thesis by (auto simp: busy_def)
qed

lemma worker_step_delivery_idle:
  assumes "\<not> sending (w_pc t)" and "w_pc t \<noteq> W_Copy" and "w_pc t \<noteq> W_Done"
    and "delivery base ps a d t w" and "worker_step codes zc end_pc (d, t, w) = (d', t', w')"
  shows "delivery base ps a d' t' w'"
proof -
  note q = worker_step_quiet [OF assms(1-3,5)]
  have fr: "payload w' = payload w" "lists w' = lists w"
    using bytes_frame(6,7) [OF disjI2, OF worker_step_os [OF assms(5)]] by auto
  show ?thesis
  proof (cases "all_sent (w_pc t)")
    case True
    with q(1,2,3,4) assms(1,4) fr show ?thesis by (auto simp: delivery_def busy_def on_wire_all_sent)
  next
    case False
    with q assms(1,2,4) fr show ?thesis by (auto simp: delivery_def busy_def partly_def split: if_splits)
  qed
qed

lemma worker_step_delivery:
  assumes "worker_inv d t" and ep: "end_pc = W_Done \<or> end_pc = W_ZcLoop" and dv: "delivery base ps a d t w"
    and st: "worker_step codes zc end_pc (d, t, w) = (d', t', w')"
  shows "delivery base ps a d' t' w'"
proof (cases "sending (w_pc t)")
  case False
  consider "w_pc t = W_Copy" | "w_pc t = W_Done" | "w_pc t \<noteq> W_Copy" "w_pc t \<noteq> W_Done" by blast
  then show ?thesis
  proof cases
    case 1
    with dv have c: "\<not> is_done d" "packets_list d = Some a" "lists w a = ps" "wire w = base"
      by (simp_all add: delivery_def busy_def split: if_splits)
    with 1 st have "d' = d\<lparr>packets_list := None\<rparr>" "t' = goto W_Unlock (t\<lparr>w_data := ps\<rparr>)" "w' = w"
      by (simp_all add: worker_step_def)
    with c show ?thesis by (simp add: delivery_def on_wire_unlock)
  next
    case 2
    with dv have c: "\<not> is_done d" "packets_list d = None" "wire w = base @ payload w ps"
      by (simp_all add: delivery_def busy_def on_wire_all_sent split: if_splits)
    from 2 st have "d' = d\<lparr>is_done := True\<rparr>" "t' = goto W_Loop t" "w' = w"
      by (simp_all add: worker_step_def)
    with c show ?thesis by (simp add: delivery_def busy_def)
  qed (use False st dv worker_step_delivery_idle in blast)
next
  case True
  with dv have nd: "\<not> is_done d" and pl: "packets_list d = None" and ow: "on_wire base ps t w"
    by (auto simp: delivery_def busy_def split: if_splits)
  from assms(1) have pk: "packet_inv d t" by (simp add: worker_inv_def)
  have pt: "partly base ps w" using on_wire_partly [OF ow pk] True by simp
  have px: "partly base ps w'" if "wire w' = wire w"
  proof -
    note fr = worker_step_os [OF st]
    have "payload w' = payload w" by (rule bytes_frame(6) [OF disjI2, OF fr])
    with pt that show ?thesis by (simp add: partly_def)
  qed
  show ?thesis
  proof (cases "w_pc t")
    case W_Unlock
    with st nd pl ow show ?thesis
      by (auto simp: worker_defs delivery_def on_wire_def payload_def split: if_splits)
  next
    case W_Packets
    with st have s: "d' = d" "w' = w" "t' = packets_step (c_not_supported codes) end_pc t"
      by (auto simp: worker_step_def)
    have "w_pc t' \<in> {W_Send, W_Sendfile, W_Exit True (c_not_supported codes), end_pc}"
      by (auto simp: s packets_step_def Let_def split: DATA_PTR_TYPE.splits)
    moreover have "\<not> exiting end_pc" "\<not> dead end_pc" using ep by auto
    ultimately show ?thesis
      using packets_step_on_wire [OF ow W_Packets s(3)] ep s nd pl pt
      by (auto simp: delivery_def)
  next
    case W_Send
    with st have s: "send_step zc (c_sending codes) (d, t, w) = (d', t', w')"
      by (simp add: worker_step_def)
    then have "(\<exists>c. w_pc t' = W_Exit True c) \<or> sending (w_pc t')"
      by (auto simp: send_step_def Let_def split: if_splits prod.splits)
    with send_step_on_wire [OF ow W_Send _ s] px pk W_Send nd pl show ?thesis
      by (auto dest: on_wire_exit simp: delivery_def packet_inv_def)
  next
    case (W_SendTerm s)
    with send_term_on_wire [OF ow W_SendTerm] pt pk st nd pl show ?thesis
      by (auto simp: delivery_def packet_inv_def worker_step_def split: if_splits)
  next
    case W_Sendfile
    with st have s: "sendfile_step (c_sending codes) (d, t, w) = (d', t', w')"
      by (simp add: worker_step_def)
    then have "(\<exists>c. w_pc t' = W_Exit True c) \<or> sending (w_pc t')"
      by (auto simp: sendfile_step_def Let_def split: if_splits prod.splits)
    with sendfile_step_on_wire [OF ow W_Sendfile _ s] px pk W_Sendfile nd pl show ?thesis
      by (auto dest: on_wire_exit simp: delivery_def packet_inv_def)
  next
    case (W_SendfileTerm s)
    with sendfile_term_on_wire [OF ow W_SendfileTerm] pt pk st nd pl show ?thesis
      by (auto simp: delivery_def packet_inv_def worker_step_def split: if_splits)
  qed (use True in simp_all)
qed

section \<open>The way out\<close>

text \<open>The places of the wait for the zero-copy notifications, where this step function stays put.\<close>

fun zc_place :: "'e wpc \<Rightarrow> bool" where
  "zc_place W_ZcLoop = True"
| "zc_place W_ZcPoll = True"
| "zc_place W_ZcRecv = True"
| "zc_place _ = False"

lemma worker_step_places:
  assumes "\<not> zc_place (w_pc t)" and "worker_step codes zc W_Done (d, t, w) = (d', t', w')"
  shows "\<not> zc_place (w_pc t')"
  using assms
  by (cases "w_pc t") (auto simp: worker_defs Let_def split: worker_splits)

lemma worker_step_ending:
  assumes "end_pc = W_Done \<or> end_pc = W_ZcLoop" and "worker_inv d t" and "ending d t" and "worker_step codes zc end_pc (d, t, w) = (d', t', w')"
  shows "ending d' t'"
  using assms
  by (cases "w_pc t"; auto simp: worker_defs worker_inv_def lock_inv_def packet_inv_def ending_def
      Let_def split: worker_splits)

text \<open>
  A thread that was told to end makes progress with every step, except that it may stay blocked in
  the condition wait as long as nobody signals, or wait for a mutex the main thread holds. \<open>n'\<close>
  bounds the notifications missing after the step: one more after a send.
\<close>

lemma worker_step_down:
  assumes "end_pc = W_Done \<or> end_pc = W_ZcLoop" and "worker_inv d t" and "terminate_thread d"
    and "worker_step codes zc end_pc (d, t, w) = (d', t', w')"
    and "\<not> zc_place (w_pc t)" and "n' \<le> n \<or> w_pc t = W_Send \<and> w_remaining t \<noteq> 0 \<and> n' \<le> Suc n"
  shows "worker_rank n' d' t' w' < worker_rank n d t w \<or>
    worker_rank n' d' t' w' \<le> worker_rank n d t w \<and> w_pc t' = w_pc t \<and>
    (w_pc t = W_Exited \<or> w_pc t = W_Blocked \<and> packets_cond d \<or> packets_mutex d = Some MainThread)"
proof (cases "w_pc t = W_Exited \<or> w_pc t = W_Blocked \<and> packets_cond d \<and> \<not> spurious w (waits w) \<or>
    (w_pc t = W_Lock \<or> w_pc t = W_Relock) \<and> packets_mutex d = Some MainThread")
  case True
  with assms(4,6) show ?thesis
    by (auto simp: worker_step_def worker_rank_def lock_step_def MutexRAII_ops Let_def split: option.splits)
next
  case False
  with assms have "worker_rank n' d' t' w' < worker_rank n d t w"
    unfolding worker_rank_def bytes_frame(7) [OF disjI2, OF worker_step_os [OF assms(4)]]
    by (cases "w_pc t"; auto simp: worker_defs worker_inv_def lock_inv_def packet_inv_def Let_def
        split: worker_splits)
  then show ?thesis by blast
qed

end
