(* ===== verification/Tcp_Worker.thy ===== *)
theory Tcp_Worker
  imports Worker_Step
begin

text \<open>
  The worker thread of \<^verbatim>\<open>TCPSender\<close>: \<^verbatim>\<open>tcp_worker_function\<close> of
  \<^verbatim>\<open>src/senders/tcp_sender.cpp\<close>, and the interpretation of the contract of a worker thread.
\<close>

datatype TCP_SENDER_ERROR_CODES =
    CANT_CPU_AFFINITY | CANT_SOCKET_TIMEOUT | SENDING_ERROR | NOT_SUPPORTED_DATA_TYPE | NO_ERROR
  | CANT_SOCKET_BUFFERS

fun code_of :: "TCP_SENDER_ERROR_CODES \<Rightarrow> uint_fast8" where
  "code_of CANT_CPU_AFFINITY = 0"
| "code_of CANT_SOCKET_TIMEOUT = 1"
| "code_of SENDING_ERROR = 2"
| "code_of NOT_SUPPORTED_DATA_TYPE = 3"
| "code_of NO_ERROR = 4"
| "code_of CANT_SOCKET_BUFFERS = 5"

definition tcp_codes :: "TCP_SENDER_ERROR_CODES worker_codes" where
  "tcp_codes = \<lparr>c_code = code_of, c_affinity = CANT_CPU_AFFINITY, c_timeout = CANT_SOCKET_TIMEOUT,
     c_buffers = CANT_SOCKET_BUFFERS, c_sending = SENDING_ERROR,
     c_not_supported = NOT_SUPPORTED_DATA_TYPE, c_no_error = NO_ERROR\<rparr>"

definition tcp_worker_start :: "TCP_SENDER_ERROR_CODES Worker" where
  "tcp_worker_start = \<lparr>w_pc = W_Alive, w_prot_lock = MutexRAII_ctor,
     w_prot_term_flag = AtomicValRAII_ctor True, w_data = [], w_i = 0, w_data_sent = 0,
     w_remaining = 0, w_offset = 0\<rparr>"

definition tcp_worker_step ::
  "(TCP_SENDER_ERROR_CODES, 'm) wstate \<Rightarrow> (TCP_SENDER_ERROR_CODES, 'm) wstate" where
  "tcp_worker_step = worker_step tcp_codes False W_Done"

lemma codes_ok_tcp [simp]: "codes_ok tcp_codes" "c_code tcp_codes = code_of" "c_no_error tcp_codes = NO_ERROR"
  by (simp_all add: codes_ok_def tcp_codes_def)

text \<open>The plain worker is at none of the places of the zero-copy wait.\<close>

definition plain :: "SenderWorkerData \<Rightarrow> (TCP_SENDER_ERROR_CODES, 'm) Worker_scheme \<Rightarrow> bool" where
  [spec_defs]: "plain d t \<longleftrightarrow> \<not> zc_place (w_pc t)"

interpretation tw: worker_thread tcp_worker_step code_of NO_ERROR plain "\<lambda>_. 0"
proof
  fix d d' :: SenderWorkerData and t t' :: "(TCP_SENDER_ERROR_CODES, 'm) Worker_scheme" and w w'
  assume "tcp_worker_step (d, t, w) = (d', t', w')"
  then have st: "worker_step tcp_codes False W_Done (d, t, w) = (d', t', w')"
    by (simp add: tcp_worker_step_def)
  show "w' = w\<lparr>log := log w', wire := wire w', waits := waits w'\<rparr>"
    by (rule worker_step_os [OF st])
  show "user_calls w' = user_calls w" by (rule worker_step_user_calls [OF st])
  show "terminate_thread d' = terminate_thread d \<and> sock_fd d' = sock_fd d"
    using worker_step_flags [OF st] by blast
  show "worker_inv d t \<Longrightarrow> worker_inv d' t'"
    using worker_step_inv [OF disjI1 [OF refl] st] .
  show "plain d t \<Longrightarrow> plain d' t'"
    using worker_step_places [OF _ st] by (simp add: plain_def)
  show "worker_inv d t \<Longrightarrow> handover_inv d t \<Longrightarrow> handover_inv d' t'"
    using worker_step_handover [OF _ _ _ st] by (simp add: worker_inv_def)
  show "exit_inv code_of NO_ERROR d t \<Longrightarrow> exit_inv code_of NO_ERROR d' t'"
    using worker_step_exit [OF _ _ _ st] by simp
  show "worker_inv d t \<Longrightarrow> delivery base ps a d t w \<Longrightarrow> delivery base ps a d' t' w'" for base ps a
    by (rule worker_step_delivery [OF _ _ _ st]) simp_all
  show "is_done d \<Longrightarrow> is_done d'" "\<not> busy (w_pc t) \<Longrightarrow> wire w' = wire w"
    using worker_step_idle [OF st] by blast+
  show "\<not> busy (w_pc t) \<Longrightarrow> packets_list d = None \<Longrightarrow> \<not> busy (w_pc t') \<and> packets_list d' = None"
    by (rule worker_step_stays_idle [OF st])
  show "worker_inv d t \<Longrightarrow> packets_mutex d = Some MainThread \<Longrightarrow>
      packets_mutex d' = Some MainThread \<and> packets_list d' = packets_list d \<and>
      (packets_cond d' \<longrightarrow> packets_cond d) \<and>
      (\<not> busy (w_pc t) \<longrightarrow> \<not> busy (w_pc t') \<and> is_done d' = is_done d)"
    using worker_step_locked_out [OF _ _ st] by (simp add: worker_inv_def)
  show "packets_mutex d \<noteq> Some MainThread \<Longrightarrow> packets_mutex d' \<noteq> Some MainThread"
    using worker_step_never_main [OF st] .
  show "w_pc t = W_Alive \<Longrightarrow> w_pc t' = W_Initialized"
    "worker_inv d t \<Longrightarrow> thread_initialized d \<or> w_pc t = W_Initialized \<Longrightarrow> thread_initialized d'"
    "dead (w_pc t) \<Longrightarrow> dead (w_pc t') \<and> (w_pc t \<noteq> W_ExitFlag \<longrightarrow> w_pc t' = W_Exited) \<and>
      is_error d' = is_error d \<and> error_code d' = error_code d"
    using worker_step_life_cycle [OF st] by (simp_all add: worker_inv_def)
  show "worker_inv d t \<Longrightarrow> ending d t \<Longrightarrow> ending d' t'"
    using worker_step_ending [OF _ _ _ st] by simp
  show "worker_rank 0 d' t' w' < worker_rank 0 d t w \<or>
      worker_rank 0 d' t' w' \<le> worker_rank 0 d t w \<and> w_pc t' = w_pc t \<and>
      (w_pc t = W_Exited \<or> w_pc t = W_Blocked \<and> packets_cond d \<or> packets_mutex d = Some MainThread)"
    if "worker_inv d t" "plain d t" "terminate_thread d"
    using worker_step_down [OF _ that(1,3) st, of 0 0] that(2) by (simp add: plain_def)
next
  fix d d' :: SenderWorkerData and t :: "(TCP_SENDER_ERROR_CODES, 'm) Worker_scheme"
  show "plain d t \<Longrightarrow> plain d' t" by (simp add: plain_def)
qed

end
