(* ===== verification/Sender_Termination.thy ===== *)
theory Sender_Termination
  imports Sender_Calls
begin

text \<open>
  Ending a sender always ends: under a fair schedule (the worker makes at least one step between
  two accesses of the main thread) and on a clock that runs, \<^verbatim>\<open>end_sender\<close> returns, whatever the
  worker is doing when it is called. \<open>end_rounds\<close> is the number of steps the thread has
  left at most when it is told to end, and so a bound on the naps of 50 ms.
\<close>

definition fair :: "os \<Rightarrow> bool" where
  "fair w \<longleftrightarrow> (\<forall>n. 1 \<le> schedule w n)"

definition end_rounds :: "(('e, 'm) Worker_scheme \<Rightarrow> nat) \<Rightarrow> ('e, 'm) sender_class \<Rightarrow> ('e, 'm) sstate \<Rightarrow> nat" where
  "end_rounds extra k = (\<lambda>(s, w).
     let (s1, w1) = shared_write k set_terminate_thread
       (snd (shared_read k is_terminated_thread (s\<lparr>s_initialized := False\<rparr>, w)))
     in case s_worker_thread s1 of None \<Rightarrow> 0 | Some t \<Rightarrow> worker_rank (extra t) (s_shared_data s1) t w1)"

lemma fair_frame: "thread_frame w w' \<Longrightarrow> fair w' = fair w"
  by (simp add: fair_def thread_frameD)

lemma fair_turns [simp]: "fair (w\<lparr>turns := n\<rparr>) = fair w" "fair (w\<lparr>log := l\<rparr>) = fair w"
  by (simp_all add: fair_def)

context sender_thread
begin

text \<open>A turn of at least one step brings a thread that is to end nearer to its end, or finds it still.\<close>

lemma steps_told:
  assumes "(k_step k ^^ n) (d, t, w) = (d', t', w')" and "resting True i v d t w"
  shows "resting True i v d' t' w' \<and> (ending d t \<longrightarrow> ending d' t') \<and>
    worker_rank (extra t') d' t' w' \<le> worker_rank (extra t) d t w \<and>
    (0 < n \<longrightarrow> worker_rank (extra t') d' t' w' < worker_rank (extra t) d t w \<or>
      w_pc t' = W_Exited \<or> w_pc t' = W_Blocked \<and> \<not> ending d t)"
  using assms(1)
proof (induction n arbitrary: d' t' w')
  case 0
  with assms(2) show ?case by simp
next
  case (Suc n)
  obtain d1 t1 w1 where 1: "(k_step k ^^ n) (d, t, w) = (d1, t1, w1)"
    by (cases "(k_step k ^^ n) (d, t, w)")
  with Suc.prems have st: "k_step k (d1, t1, w1) = (d', t', w')" by simp
  note IH = Suc.IH [OF 1]
  then have r: "resting True i v d1 t1 w1" by blast
  then have wf: "worker_inv d1 t1" "own d1 t1" "terminate_thread d1" "packets_mutex d1 \<noteq> Some MainThread"
    by (simp_all add: resting_def thread_wf_def around_def)
  have "ending d1 t1 \<Longrightarrow> \<not> packets_cond d1" by (simp add: ending_def)
  with IH steps_down [OF st wf(1-3)] wf(4) keeps_ending [OF st wf(1)] step_resting [OF st r]
  show ?case by auto
qed

lemma interfere_told:
  assumes "threaded s0 (ranked r n (resting True i v)) s w" and "fair w" and "interfere k (s, w) = (s', w')"
  shows "threaded s0 (ranked r n (resting True i v)) s' w' \<and>
    (packets_mutex (s_shared_data s') = None \<or> 0 < r \<and> threaded s0 (ranked (r - 1) n (resting True i v)) s' w')"
proof -
  from assms(1) obtain d t where s: "s = s0\<lparr>s_worker_thread := Some t, s_shared_data := d\<rparr>"
    and p: "resting True i v d t w" "worker_rank (extra t) d t w \<le> r" "reads w = n"
    by (auto simp: ranked_def)
  let ?w = "w\<lparr>turns := Suc (turns w)\<rparr>"
  obtain d' t' w1 where st: "(k_step k ^^ schedule w (turns w)) (d, t, ?w) = (d', t', w1)"
    by (cases "(k_step k ^^ schedule w (turns w)) (d, t, ?w)")
  have "resting True i v d t ?w" using p(1) by (simp add: resting_def)
  note told = steps_told [OF st this]
  from assms(3) st s have s': "s' = s0\<lparr>s_worker_thread := Some t', s_shared_data := d'\<rparr>" "w' = w1"
    by (auto simp: interfere_def run_worker_def)
  have "0 < schedule w (turns w)" using assms(2) by (auto simp: fair_def Suc_le_eq)
  with told have c: "worker_rank (extra t') d' t' w' < worker_rank (extra t) d t w \<or>
      w_pc t' = W_Exited \<or> w_pc t' = W_Blocked" using s'(2) by auto
  have m: "packets_mutex d' = None" if "w_pc t' = W_Exited \<or> w_pc t' = W_Blocked"
    using told that by (cases "packets_mutex d'") (auto simp: resting_def thread_wf_def worker_inv_def lock_inv_def tid_other(1))
  have "threaded s0 (ranked r n (resting True i v)) s' w'"
    using stable_ranked_resting assms(1,3) by (auto simp: stable_def)
  moreover have "0 < r \<and> threaded s0 (ranked (r - 1) n (resting True i v)) s' w'" if "packets_mutex d' \<noteq> None"
  proof -
    from c m that have "worker_rank (extra t') d' t' w' < worker_rank (extra t) d t w" by blast
    moreover have "reads w' = n" using calculation(1) \<open>threaded s0 (ranked r n (resting True i v)) s' w'\<close> s'
      by (auto simp: ranked_def)
    ultimately show ?thesis using p(2) told s' by (auto simp: ranked_def intro!: threadedI(1))
  qed
  ultimately show ?thesis using s' by auto
qed

lemma main_lock_returns:
  assumes "threaded s0 (ranked r n (resting True i v)) s w" and "fair v"
  shows "main_lock k g (s, w) \<noteq> None"
  using assms(1)
proof (induction r arbitrary: s w rule: less_induct)
  case (less r)
  obtain s' w' where i: "interfere k (s, w) = (s', w')" by (cases "interfere k (s, w)")
  have "thread_frame v w" using less.prems by (auto simp: ranked_def resting_def around_def)
  then have "fair w" using assms(2) fair_frame by blast
  note t = interfere_told [OF less.prems this i]
  show ?case
  proof (cases "packets_mutex (s_shared_data s')")
    case None
    with i show ?thesis by (subst main_lock.simps) (simp add: MutexRAII_ops)
  next
    case (Some x)
    with t less.IH [of "r - 1" s' w'] have "main_lock k g (s', w') \<noteq> None" by auto
    with Some i show ?thesis by (subst main_lock.simps) (simp add: MutexRAII_ops)
  qed
qed

text \<open>Waiting for the end: every nap is followed by a turn.\<close>

lemma interfere_leaving:
  assumes "threaded s0 (ranked r n (leaving i v)) s w" and "fair w" and "interfere k (s, w) = (s', w')"
  shows "threaded s0 (ranked r n (leaving i v)) s' w' \<and>
    (is_terminated_thread (s_shared_data s') \<or> 0 < r \<and> threaded s0 (ranked (r - 1) n (leaving i v)) s' w')"
proof -
  from assms(1) obtain d t where s: "s = s0\<lparr>s_worker_thread := Some t, s_shared_data := d\<rparr>"
    and p: "resting True i v d t w" "ending d t" "worker_rank (extra t) d t w \<le> r"
    by (auto simp: ranked_def leaving_def)
  let ?w = "w\<lparr>turns := Suc (turns w)\<rparr>"
  obtain d' t' w1 where st: "(k_step k ^^ schedule w (turns w)) (d, t, ?w) = (d', t', w1)"
    by (cases "(k_step k ^^ schedule w (turns w)) (d, t, ?w)")
  have "resting True i v d t ?w" using p(1) by (simp add: resting_def)
  note told = steps_told [OF st this]
  from assms(3) st s have s': "s' = s0\<lparr>s_worker_thread := Some t', s_shared_data := d'\<rparr>" "w' = w1"
    by (auto simp: interfere_def run_worker_def)
  have "0 < schedule w (turns w)" using assms(2) by (auto simp: fair_def Suc_le_eq)
  with told p(2) s'(2) have c: "worker_rank (extra t') d' t' w' < worker_rank (extra t) d t w \<or> w_pc t' = W_Exited"
    by auto
  have m: "is_terminated_thread d'" if "w_pc t' = W_Exited"
    using told that by (auto simp: resting_def thread_wf_def worker_inv_def life_inv_def)
  have 1: "threaded s0 (ranked r n (leaving i v)) s' w'"
    using stable_ranked_leaving assms(1,3) by (auto simp: stable_def)
  moreover have "0 < r \<and> threaded s0 (ranked (r - 1) n (leaving i v)) s' w'" if "\<not> is_terminated_thread d'"
  proof -
    from c m that have "worker_rank (extra t') d' t' w' < worker_rank (extra t) d t w" by blast
    with 1 p(2,3) told s' show ?thesis by (auto simp: ranked_def leaving_def intro!: threadedI(1))
  qed
  ultimately show ?thesis using s' by auto
qed

lemma await_returns:
  assumes "threaded s0 (ranked r n (leaving i v)) s w" and "fair v"
    and "clock_runs (clock v)" and "clock_steps b (clock v)"
    and "ts_ns (clock v n) + int r * (50 * 10 ^ 6 + 2 * b) < 2 ^ 62"
  shows "await k is_terminated_thread 50 (s, w) \<noteq> None"
  using assms(1,5)
proof (induction r arbitrary: s w n)
  case 0
  obtain s' w' where i: "interfere k (s, w) = (s', w')" by (cases "interfere k (s, w)")
  have "thread_frame v w" using 0 by (auto simp: ranked_def leaving_def resting_def around_def)
  then have "fair w" using assms(2) fair_frame by blast
  from interfere_leaving [OF 0(1) this i] i show ?case
    by (subst await.simps) (simp add: shared_read_def)
next
  case (Suc r)
  obtain s' w' where i: "interfere k (s, w) = (s', w')" by (cases "interfere k (s, w)")
  have "thread_frame v w" using Suc.prems by (auto simp: ranked_def leaving_def resting_def around_def)
  then have "fair w" using assms(2) fair_frame by blast
  note t = interfere_leaving [OF Suc.prems(1) this i]
  show ?case
  proof (cases "is_terminated_thread (s_shared_data s')")
    case True
    with i show ?thesis by (subst await.simps) (simp add: shared_read_def)
  next
    case False
    with t have l: "threaded s0 (ranked r n (leaving i v)) s' w'" by simp
    then have w': "thread_frame v w'" "reads w' = n" by (auto simp: ranked_def leaving_def resting_def around_def)
    then have c: "clock w' = clock v" by (simp add: thread_frameD)
    have ns: "uint (MS_TO_NS 50) = 50 * 10 ^ 6" by (simp add: MS_TO_NS_def MS_TO_US_def)
    have b: "0 \<le> b"
      using assms(3,4) clock_mono [of "clock v" 0 1]
      by (auto simp: clock_steps_def clock_runs_def dest: spec [of _ 0])
    have "ts_ns (clock v n) + 50 * 10 ^ 6 < 2 ^ 62"
    proof -
      have "0 \<le> int r * (50 * 10 ^ 6 + 2 * b)" using b by simp
      moreover have "int (Suc r) * (50 * 10 ^ 6 + 2 * b) = int r * (50 * 10 ^ 6 + 2 * b) + (50 * 10 ^ 6 + 2 * b)"
        by (simp add: algebra_simps)
      ultimately show ?thesis using Suc.prems(2) b by linarith
    qed
    then obtain w2 where w2: "milliseconds_sleep 50 w' = Some w2"
      using nanoseconds_sleep_returns [of w' "MS_TO_NS 50"] assms(3) c w'(2) ns
      by (auto simp: milliseconds_sleep_def)
    then have "ts_ns (clock v (reads w2)) \<le> ts_ns (clock v n) + 50 * 10 ^ 6 + 2 * b"
      using nanoseconds_sleep_until [of "MS_TO_NS 50" w' w2 b] assms(3,4) c w'(2) ns
      by (simp add: milliseconds_sleep_def clock_runs_def)
    then have "ts_ns (clock v (reads w2)) + int r * (50 * 10 ^ 6 + 2 * b) < 2 ^ 62"
      using Suc.prems(2) by (simp add: algebra_simps)
    moreover obtain naps where "slept w' naps w2"
      using w2 nanoseconds_sleep_slept unfolding milliseconds_sleep_def by blast
    then have "worker_rank x d t w2 = worker_rank x d t w'" for x d and t :: "('e, 'm) Worker_scheme"
      by (simp add: worker_rank_def sleptD(5) split: option.split)
    with l sleep_leaving [OF _ w2] have "threaded s0 (ranked r (reads w2) (leaving i v)) s' w2"
      by (auto simp: ranked_def intro!: threadedI(1))
    ultimately have "await k is_terminated_thread 50 (s', w2) \<noteq> None" by (intro Suc.IH)
    with False i w2 show ?thesis by (subst await.simps) (simp add: shared_read_def)
  qed
qed

lemma end_sender_returns:
  assumes "inv s" and "fair w" and "clock_runs (clock w)" and "clock_steps b (clock w)"
    and "ts_ns (clock w (reads w)) + int (end_rounds extra k (s, w)) * (50 * 10 ^ 6 + 2 * b) < 2 ^ 62"
  shows "end_sender k (s, w) \<noteq> None"
proof -
  let ?s = "s\<lparr>s_initialized := False\<rparr>"
  obtain x s1 w1 where r: "shared_read k is_terminated_thread (?s, w) = (x, s1, w1)"
    by (cases "shared_read k is_terminated_thread (?s, w)")
  obtain s2 w2 where wr: "shared_write k set_terminate_thread (s1, w1) = (s2, w2)"
    by (cases "shared_write k set_terminate_thread (s1, w1)")
  have "end_thread k (s1, w1) \<noteq> None" if "\<not> x"
  proof -
    have "s_worker_thread s \<noteq> None"
    proof
      assume n: "s_worker_thread s = None"
      then have "s_worker_thread ?s = None" by simp
      from interfere_no_thread [OF this, of w] r assms(1) n that show False
        by (auto simp: shared_read_def sender_inv_def Let_def)
    qed
    then obtain t0 where t0: "s_worker_thread s = Some t0" by blast
    let ?e = "terminate_thread (s_shared_data s)"
    have "threaded ?s (\<lambda>d t v. resting ?e True w d t v \<and> reads v = reads w) ?s w"
      using assms(1) t0 by (intro threaded_here) (auto simp: sender_inv_def resting_def around_def Let_def)
    note 0 = this
    have st: "stable k (threaded ?s (\<lambda>d t v. resting e True w d t v \<and> reads v = reads w))" for e
      by (rule stable_threaded) (auto dest: step_resting step_reads simp: resting_def)
    note r1 = read_threaded [OF st 0 r]
    have "threaded ?s (\<lambda>d t v. resting True True w d t v \<and> reads v = reads w) s2 w2"
      by (rule write_threaded [OF st r1(1) wr])
        (auto simp: resting_def set_terminate_thread_def handover_inv_def around_def intro: wf_terminate)
    then obtain d t where s2: "s2 = ?s\<lparr>s_worker_thread := Some t, s_shared_data := d\<rparr>"
      and p: "resting True True w d t w2" "reads w2 = reads w" by (rule threadedE) auto
    let ?r = "worker_rank (extra t) d t w2"
    have er: "end_rounds extra k (s, w) = ?r" using r wr s2 by (simp add: end_rounds_def)
    have k2: "threaded ?s (ranked ?r (reads w) (resting True True w)) s2 w2"
      using s2 p by (auto simp: ranked_def intro!: threadedI(1))
    from main_lock_returns [OF k2 assms(2), of MutexRAII_ctor] obtain gl sl
      where "main_lock k MutexRAII_ctor (s2, w2) = Some (gl, sl)" by auto
    then obtain x where "hand_over k None (s2, w2) = Some x" by (simp add: hand_over_def)
    then obtain g s3 w3 where h: "hand_over k None (s2, w2) = Some (g, s3, w3)" by (cases x) auto
    from hand_over_ranked [OF h k2] have "threaded ?s (ranked ?r (reads w) (leaving True w)) s3 w3" by blast
    from await_returns [OF this assms(2-4)] assms(5) er
    have "await k is_terminated_thread 50 (s3, w3) \<noteq> None" by simp
    with h wr show ?thesis by (auto simp: end_thread_def)
  qed
  with r show ?thesis
    by (cases x; cases "end_thread k (s1, w1)") (simp_all add: end_sender_def del: not_None_eq)
qed

end

end
