(* ===== verification/Sender_Copy.thy ===== *)
theory Sender_Copy
  imports Sender_Histories
begin

text \<open>
  When a list is read: \<^verbatim>\<open>send\<close> hands over the address only, and the worker thread copies the list
  when it gets to it. What the application stores at the address in between is what is sent.
\<close>

text \<open>
  \<open>s1\<close> is the object after a list at \<open>a\<close> was accepted; the application overwrites the list at
  once, and is told later that the list is sent. If the worker had not copied it yet, the new list is on
  the wire and the accepted one is lost; if it had, the accepted one is, whatever is stored now.
\<close>

definition reads_when_copied :: "('e, 'm) sender_class \<Rightarrow> (('e, 'm) SenderObj \<Rightarrow> bool) \<Rightarrow> bool" where
  [spec_defs]: "reads_when_copied k ok \<longleftrightarrow>
     (\<forall>s w a s1 w1 ps naps s2 w2.
        ok s \<and> is_done (s_shared_data s) \<and> send k a (s, w) = Some (True, s1, w1) \<and>
        poll_done k naps (s1, w1\<lparr>lists := (lists w1)(a := ps)\<rparr>) = Some (True, s2, w2) \<longrightarrow>
        packets_list (s_shared_data s1) \<in> {None, Some a} \<and>
        wire w2 = wire w @ payload w (if packets_list (s_shared_data s1) = Some a then ps else lists w a))"

context sender_thread
begin

text \<open>The list \<open>ps\<close> at \<open>a\<close> is on its way, on top of the bytes \<open>base\<close>.\<close>

definition bringing :: "byte list \<Rightarrow> DataPacket list \<Rightarrow> os \<Rightarrow> ptr \<Rightarrow>
    SenderWorkerData \<Rightarrow> ('e, 'm) Worker_scheme \<Rightarrow> os \<Rightarrow> bool" where
  "bringing base ps v a d t w \<longleftrightarrow>
     wf d t \<and> packets_mutex d \<noteq> Some MainThread \<and> around False True v d w \<and> delivery base ps a d t w"

lemma stable_bringing: "stable k (threaded s0 (bringing base ps v a))"
proof (rule stable_threaded)
  fix d t w d' t' w'
  assume st: "k_step k (d, t, w) = (d', t', w')" and p: "bringing base ps v a d t w"
  have nb: "is_done d \<longrightarrow> \<not> busy (w_pc t)" using p by (auto simp: bringing_def delivery_def)
  from p show "bringing base ps v a d' t' w'"
    unfolding bringing_def using step_wf [OF st _ nb] step_around [OF st] delivers [OF st] never_main [OF st] wf_worker
    by auto
qed (simp add: bringing_def)

lemma sleep_bringing:
  assumes "bringing base ps v a d t w" and "milliseconds_sleep ms w = Some w'"
  shows "bringing base ps v a d t w'"
proof -
  obtain naps where "slept w naps w'"
    using assms(2) nanoseconds_sleep_slept unfolding milliseconds_sleep_def by blast
  with assms sleep_around [OF _ assms(2)] show ?thesis by (auto simp: bringing_def delivery_slept)
qed

lemma brought_when_done:
  assumes "threaded s0 (bringing base ps v a) s w" and "is_send_done k (s, w) = (b, s', w')"
  shows "threaded s0 (bringing base ps v a) s' w'" and "b \<Longrightarrow> wire w' = base @ payload v ps"
proof -
  from assms(2) have r: "shared_read k is_done (s, w) = (b, s', w')" by (simp add: is_send_done_def)
  note t = read_threaded [OF stable_bringing assms(1) r]
  then show "threaded s0 (bringing base ps v a) s' w'" by blast
  assume b
  with t show "wire w' = base @ payload v ps"
    by (auto simp: bringing_def delivery_def around_def thread_frameD)
qed

lemma poll_done_brought:
  "poll_done k naps (s, w) = Some (True, s', w') \<Longrightarrow> threaded s0 (bringing base ps v a) s w \<Longrightarrow>
   wire w' = base @ payload v ps"
proof (induction naps arbitrary: s w)
  case Nil
  then have "is_send_done k (s, w) = (True, s', w')" by simp
  with brought_when_done(2) [OF Nil.prems(2) this] show ?case by simp
next
  case (Cons ms naps)
  obtain c s1 w1 where r: "is_send_done k (s, w) = (c, s1, w1)" by (cases "is_send_done k (s, w)")
  note d = brought_when_done [OF Cons.prems(2) r]
  show ?case
  proof (cases c)
    case True
    with Cons.prems(1) r d show ?thesis by simp
  next
    case False
    with Cons.prems(1) r obtain w2 where w2: "milliseconds_sleep ms w1 = Some w2"
      and p: "poll_done k naps (s1, w2) = Some (True, s', w')" by (auto simp: bind_eq_Some_conv)
    have "threaded s0 (bringing base ps v a) s1 w2"
      using d(1) sleep_bringing [OF _ w2] by (auto intro!: threadedI(1))
    from Cons.IH [OF p this] show ?thesis .
  qed
qed

lemma on_wire_lists [simp]: "on_wire base ps t (w\<lparr>lists := l\<rparr>) = on_wire base ps t w"
proof -
  have 1: "mem_bytes (w\<lparr>lists := l\<rparr>) = mem_bytes w" "file_slice (w\<lparr>lists := l\<rparr>) = file_slice w"
    "int_at (w\<lparr>lists := l\<rparr>) = int_at w" "file_bytes (w\<lparr>lists := l\<rparr>) = file_bytes w"
    by (simp_all add: mem_bytes_def file_slice_def fun_eq_iff)
  have "mem_progress (w\<lparr>lists := l\<rparr>) p t s = mem_progress w p t s"
    "file_progress (w\<lparr>lists := l\<rparr>) p t s = file_progress w p t s" for p s
    by (simp_all only: mem_progress_def file_progress_def 1)
  then show ?thesis by (cases "w_pc t") (simp_all add: on_wire_def Let_def)
qed

text \<open>A thread that ends with a list it was given never reports it as done.\<close>

lemma given_up_never_done:
  assumes "wf d t" and "packets_mutex d \<noteq> Some MainThread" and "\<not> terminate_thread d" and "thread_initialized d"
    and "\<not> is_done d" and "exiting (w_pc t) \<or> dead (w_pc t)" and "s = s0\<lparr>s_worker_thread := Some t, s_shared_data := d\<rparr>"
  shows "poll_done k naps (s, w) \<noteq> Some (True, s', w')"
proof
  assume p: "poll_done k naps (s, w) = Some (True, s', w')"
  have b: "threaded s0 (bringing (wire w) qs w a) s w" for qs a
    unfolding assms(7) using assms(1-6)
    by (intro threadedI(1)) (cases "w_pc t"; auto simp: bringing_def around_def delivery_def partly_def)
  let ?p = "\<lparr>data_ptr_type = DATA_PTR_MEMORY_LOCATION, data_ptr = 0, data_size = 1, data_offset = 0\<rparr>"
  from poll_done_brought [OF p b] have "wire w' = wire w @ payload w qs" for qs .
  from this [of "[]"] this [of "[?p]"] have "payload w [?p] = payload w []" by simp
  then show False by (simp add: payload_def packet_bytes_def flip: length_0_conv)
qed

lemma overwritten_list:
  assumes "send k a (s, w) = Some (True, s1, w1)" and "inv s" and "is_done (s_shared_data s)"
    and "poll_done k naps (s1, w1\<lparr>lists := (lists w1)(a := ps)\<rparr>) = Some (True, s2, w2)"
  shows "packets_list (s_shared_data s1) \<in> {None, Some a} \<and>
    wire w2 = wire w @ payload w (if packets_list (s_shared_data s1) = Some a then ps else lists w a)"
proof -
  let ?w = "w1\<lparr>lists := (lists w1)(a := ps)\<rparr>"
  from send_result [OF assms(1,2)] assms(3) obtain v
    where v: "thread_frame w v" "wire v = wire w" and d: "threaded s (delivering False True v a) s1 w1" by auto
  from d obtain d t where s1: "s1 = s\<lparr>s_worker_thread := Some t, s_shared_data := d\<rparr>"
    and p: "delivering False True v a d t w1" by (rule threadedE)
  then have wf: "wf d t" "packets_mutex d \<noteq> Some MainThread" "\<not> terminate_thread d" "thread_initialized d"
    and fr: "thread_frame v w1" and dl: "delivery (wire v) (lists v a) a d t w1"
    by (simp_all add: delivering_def around_def)
  have same: "payload w1 = payload w" "lists v a = lists w a"
    using thread_frameD(3,7) [OF v(1)] thread_frameD(7) [OF fr] by simp_all
  have bring: "wire w2 = wire w @ payload w qs" if "delivery (wire w) qs a d t ?w" for qs
  proof -
    have "threaded s (bringing (wire w) qs ?w a) s1 ?w"
      unfolding s1 using wf that by (intro threadedI(1)) (simp add: bringing_def around_def)
    from poll_done_brought [OF assms(4) this] same show ?thesis by simp
  qed
  show ?thesis
  proof (cases "packets_list d")
    case None
    with dl have "delivery (wire w) (lists v a) a d t ?w"
      using v(2) by (auto simp: delivery_def partly_def split: if_splits)
    from bring [OF this] None s1 same show ?thesis by simp
  next
    case (Some b)
    with dl have n: "\<not> is_done d" "\<not> (sending (w_pc t) \<or> all_sent (w_pc t))" by (auto simp: delivery_def split: if_splits)
    with given_up_never_done [OF wf _ _ s1, of naps ?w] assms(4) have "\<not> (exiting (w_pc t) \<or> dead (w_pc t))" by blast
    with n dl Some v(2) have "b = a" "delivery (wire w) ps a d t ?w"
      by (auto simp: delivery_def split: if_splits)
    with bring Some s1 show ?thesis by simp
  qed
qed

lemma reads_copied: "reads_when_copied k inv"
  unfolding reads_when_copied_def using overwritten_list by blast

end

end
