(* ===== verification/Tcp_Sender.thy ===== *)
theory Tcp_Sender
  imports Tcp_Worker Sender_Termination Sender_Contract Sender_Copy
begin

text \<open>
  The class \<^verbatim>\<open>TCPSender\<close> (\<^verbatim>\<open>includes/tcp_sender.h\<close>, \<^verbatim>\<open>src/senders/tcp_sender.cpp\<close>): the
  sender of \<open>Sender_Object\<close> with its worker thread and its error messages. The interpretations give
  the class the contracts of a sender and of an error source.
\<close>

section \<open>The class\<close>

text \<open>The \<^verbatim>\<open>switch\<close> of \<^verbatim>\<open>send\<close> on the error code of a thread that ended.\<close>

definition TCPSender_error_message :: "uint_fast8 \<Rightarrow> string" where
  "TCPSender_error_message c =
     (if c = code_of CANT_CPU_AFFINITY then ''Sender worker thread can't set CPU Affinity.''
      else if c = code_of CANT_SOCKET_TIMEOUT then ''Sender worker thread can't set timeout on the socket.''
      else if c = code_of SENDING_ERROR then ''Sender worker thread, error while sending the data. ''
      else if c = code_of NOT_SUPPORTED_DATA_TYPE then ''Sender worker thread can't send that type of packets.''
      else if c = code_of CANT_SOCKET_BUFFERS then ''Can't reserve the buffers needed for the socket.''
      else ''Unknown error in sender worker thread.'')"

definition tcp_class :: "(TCP_SENDER_ERROR_CODES, unit) sender_class" where
  "tcp_class = \<lparr>k_step = tcp_worker_step, k_start = tcp_worker_start, k_owner = ''TCPSender'',
     k_error_message = TCPSender_error_message, k_zerocopy = False\<rparr>"

type_synonym TCPSender = "(TCP_SENDER_ERROR_CODES, unit) SenderObj"

definition TCPSender_ctor :: "uint_fast16 \<Rightarrow> TCPSender" where
  "TCPSender_ctor port = Sender_ctor tcp_class port"

definition TCPSender_create_server :: "TCPSender \<times> os \<Rightarrow> bool \<times> TCPSender \<times> os" where
  "TCPSender_create_server sw = create_server tcp_class sw"

definition TCPSender_get_client :: "TCPSender \<times> os \<Rightarrow> bool \<times> TCPSender \<times> os" where
  "TCPSender_get_client sw = get_client sw"

definition TCPSender_initialize :: "TCPSender \<times> os \<Rightarrow> (bool \<times> TCPSender \<times> os) option" where
  "TCPSender_initialize sw = initialize tcp_class sw"

definition TCPSender_send :: "ptr \<Rightarrow> TCPSender \<times> os \<Rightarrow> (bool \<times> TCPSender \<times> os) option" where
  "TCPSender_send list sw = send tcp_class list sw"

definition TCPSender_is_send_done :: "TCPSender \<times> os \<Rightarrow> bool \<times> TCPSender \<times> os" where
  "TCPSender_is_send_done sw = is_send_done tcp_class sw"

definition TCPSender_end_sender :: "TCPSender \<times> os \<Rightarrow> (bool \<times> TCPSender \<times> os) option" where
  "TCPSender_end_sender sw = end_sender tcp_class sw"

definition TCPSender_get_error :: "TCPSender \<Rightarrow> string \<times> TCPSender" where
  "TCPSender_get_error s = get_error s"

definition TCPSender_is_error :: "TCPSender \<Rightarrow> bool" where
  "TCPSender_is_error s = is_error_pending s"

definition TCPSender_dtor :: "TCPSender \<times> os \<Rightarrow> (TCPSender \<times> os) option" where
  "TCPSender_dtor sw = Sender_dtor tcp_class sw"

definition TCPSender_vtable :: "TCPSender Sender" where
  "TCPSender_vtable = Sender_vtable tcp_class"

lemmas TCPSender_methods = TCPSender_ctor_def TCPSender_create_server_def TCPSender_get_client_def
  TCPSender_initialize_def TCPSender_send_def TCPSender_is_send_done_def TCPSender_end_sender_def
  TCPSender_get_error_def TCPSender_is_error_def TCPSender_dtor_def

section \<open>The contracts\<close>

lemma tcp_class_simps [simp]:
  "k_step tcp_class = tcp_worker_step" "k_start tcp_class = tcp_worker_start"
  "k_owner tcp_class = ''TCPSender''" "k_error_message tcp_class = TCPSender_error_message"
  "k_zerocopy tcp_class = False"
  by (simp_all add: tcp_class_def)

interpretation tcp: sender_thread tcp_class code_of NO_ERROR plain "\<lambda>_. 0"
proof (unfold_locales, unfold tcp_class_simps)
  show "w_pc tcp_worker_start = W_Alive" "\<not> is_locked (w_prot_lock tcp_worker_start)"
    "end_value (w_prot_term_flag tcp_worker_start)" "plain d tcp_worker_start" for d
    by (simp_all add: tcp_worker_start_def plain_def MutexRAII_ctor_def AtomicValRAII_ctor_def)
  show "TCPSender_error_message (code_of c) \<noteq> ''Unknown error in sender worker thread.''"
    if "c \<noteq> NO_ERROR" for c
    using that by (cases c) (simp_all add: TCPSender_error_message_def)
qed (fact tw.frame_os tw.no_user_call tw.frame_flags tw.keeps_worker_inv tw.keeps_own tw.own_shared tw.keeps_handover tw.keeps_exit
  tw.delivers tw.done_stays tw.idle_wire tw.stays_idle tw.locked_out tw.never_main tw.starts tw.initializes
  tw.dead_stays tw.keeps_ending tw.steps_down)+

interpretation tcp_errors: error_source s_error_handler TCPSender_get_error TCPSender_is_error
  by unfold_locales (simp_all add: TCPSender_methods get_error_def is_error_pending_def)

abbreviation tcp_inv :: "TCPSender \<Rightarrow> bool" where
  "tcp_inv \<equiv> sender_inv plain code_of NO_ERROR"

end
