(* ===== verification/Tcp_Worker_Zc.thy ===== *)
theory Tcp_Worker_Zc
  imports Worker_Step
begin

text \<open>
  The worker thread of \<^verbatim>\<open>TCPSenderZC\<close>: \<^verbatim>\<open>read_notification_zc\<close> and
  \<^verbatim>\<open>tcp_worker_function\<close> of \<^verbatim>\<open>src/senders/tcp_sender_zc.cpp\<close>. Its text is that of the
  plain worker but for the flag \<^verbatim>\<open>MSG_ZEROCOPY\<close>, the two counters, and the wait for the kernel's
  notifications that the buffers may be used again. The counters are \<^verbatim>\<open>int\<close>s that are never
  reset while the thread runs; they are unbounded here, which is the C++ program as long as a thread
  makes fewer than \<open>2 ^ 31\<close> calls of \<^verbatim>\<open>send\<close> (signed overflow is undefined after that).
\<close>

datatype TCP_SENDER_ZC_ERROR_CODES =
    CANT_CPU_AFFINITY | CANT_SOCKET_TIMEOUT | SENDING_ERROR | NOT_SUPPORTED_DATA_TYPE | NO_ERROR
  | CANT_SOCKET_BUFFERS | ZC_POLL_ERROR | ZC_RECVMSG_ERROR | ZC_NOTIFICATION_ERROR

fun zc_code_of :: "TCP_SENDER_ZC_ERROR_CODES \<Rightarrow> uint_fast8" where
  "zc_code_of CANT_CPU_AFFINITY = 0"
| "zc_code_of CANT_SOCKET_TIMEOUT = 1"
| "zc_code_of SENDING_ERROR = 2"
| "zc_code_of NOT_SUPPORTED_DATA_TYPE = 3"
| "zc_code_of NO_ERROR = 4"
| "zc_code_of CANT_SOCKET_BUFFERS = 5"
| "zc_code_of ZC_POLL_ERROR = 6"
| "zc_code_of ZC_RECVMSG_ERROR = 7"
| "zc_code_of ZC_NOTIFICATION_ERROR = 8"

definition zc_codes :: "TCP_SENDER_ZC_ERROR_CODES worker_codes" where
  "zc_codes = \<lparr>c_code = zc_code_of, c_affinity = CANT_CPU_AFFINITY, c_timeout = CANT_SOCKET_TIMEOUT,
     c_buffers = CANT_SOCKET_BUFFERS, c_sending = SENDING_ERROR,
     c_not_supported = NOT_SUPPORTED_DATA_TYPE, c_no_error = NO_ERROR\<rparr>"

section \<open>Notifications\<close>

text \<open>The constants of the Linux headers.\<close>

definition SOL_IP :: int where "SOL_IP = 0"
definition IP_RECVERR :: int where "IP_RECVERR = 11"
definition SO_EE_ORIGIN_ZEROCOPY :: byte where "SO_EE_ORIGIN_ZEROCOPY = 5"
definition POLLERR :: "16 word" where "POLLERR = 8"
definition MSG_CTRUNC :: c_int where "MSG_CTRUNC = 8"

text \<open>
  The length of the acknowledged range, in 32-bit unsigned arithmetic, or -1; the caller's
  \<^verbatim>\<open>int\<close> keeps its low 32 bits.
\<close>

definition read_notification_zc :: "msghdr \<Rightarrow> int" where
  "read_notification_zc msg =
     (case msg_first msg of
        None \<Rightarrow> -1
      | Some cm \<Rightarrow>
          if cmsg_level cm \<noteq> SOL_IP \<and> cmsg_type cm \<noteq> IP_RECVERR then -1
          else if ee_origin cm \<noteq> SO_EE_ORIGIN_ZEROCOPY then -1
          else uint (ee_data cm - ee_info cm + 1))"

definition int_of_int64 :: "int \<Rightarrow> int" where
  "int_of_int64 x = sint (word_of_int x :: c_int)"

section \<open>The thread\<close>

record Worker_Zc = "TCP_SENDER_ZC_ERROR_CODES Worker" +
  z_sending_counter :: int
  z_last_sending_counter :: int

definition tcp_zc_worker_start :: Worker_Zc where
  "tcp_zc_worker_start = \<lparr>w_pc = W_Alive, w_prot_lock = MutexRAII_ctor,
     w_prot_term_flag = AtomicValRAII_ctor True, w_data = [], w_i = 0, w_data_sent = 0,
     w_remaining = 0, w_offset = 0, z_sending_counter = 0, z_last_sending_counter = 0\<rparr>"

type_synonym zstate = "SenderWorkerData \<times> Worker_Zc \<times> os"

text \<open>One look at the error queue: \<^verbatim>\<open>poll\<close> with its time-out of a second, then \<^verbatim>\<open>recvmsg\<close>.\<close>

definition zc_poll_step :: "zstate \<Rightarrow> zstate" where
  "zc_poll_step = (\<lambda>(d, t, w).
     let n = length (log w); (r, w1) = syscall (PollCall (sock_fd d)) w in
     if r \<noteq> 1 \<or> and (revents w n) POLLERR = 0 then (d, goto (W_Exit True ZC_POLL_ERROR) t, w1)
     else (d, goto W_ZcRecv t, w1))"

definition zc_recv_step :: "zstate \<Rightarrow> zstate" where
  "zc_recv_step = (\<lambda>(d, t, w).
     let n = length (log w); (r, w1) = syscall (RecvmsgCall (sock_fd d)) w; msg = errqueue w n in
     if r = -1 \<or> and (msg_flags msg) MSG_CTRUNC \<noteq> 0
     then (d, goto (W_Exit True ZC_RECVMSG_ERROR) t, w1)
     else (let ret = int_of_int64 (read_notification_zc msg) in
           if ret < 1 then (d, goto (W_Exit True ZC_NOTIFICATION_ERROR) t, w1)
           else (d, goto W_ZcLoop (t\<lparr>z_last_sending_counter := z_last_sending_counter t + ret\<rparr>), w1)))"

definition tcp_zc_worker_step :: "zstate \<Rightarrow> zstate" where
  "tcp_zc_worker_step = (\<lambda>(d, t, w).
     case w_pc t of
       W_RcvBuf \<Rightarrow>
         (let (d1, t1, w1) = worker_step zc_codes True W_ZcLoop (d, t, w)
          in (d1, t1\<lparr>z_sending_counter := 0, z_last_sending_counter := 0\<rparr>, w1))
     | W_Send \<Rightarrow>
         (let (d1, t1, w1) = worker_step zc_codes True W_ZcLoop (d, t, w)
          in (d1, t1\<lparr>z_sending_counter := z_sending_counter t + (if w_remaining t \<noteq> 0 then 1 else 0)\<rparr>, w1))
     | W_ZcLoop \<Rightarrow>
         (if z_last_sending_counter t < z_sending_counter t then (d, goto W_ZcPoll t, w)
          else (d, goto W_Done t, w))
     | W_ZcPoll \<Rightarrow> zc_poll_step (d, t, w)
     | W_ZcRecv \<Rightarrow> zc_recv_step (d, t, w)
     | _ \<Rightarrow> worker_step zc_codes True W_ZcLoop (d, t, w))"

lemmas zc_step_defs = tcp_zc_worker_step_def zc_poll_step_def zc_recv_step_def syscall_def Let_def

lemma codes_ok_zc [simp]: "codes_ok zc_codes" "c_code zc_codes = zc_code_of" "c_no_error zc_codes = NO_ERROR"
  by (simp_all add: codes_ok_def zc_codes_def)

text \<open>Outside the wait, the thread is the shared one with counters.\<close>

lemma worker_step_more:
  fixes t :: Worker_Zc
  assumes "worker_step codes zc end_pc (d, t, w) = (d', t', w')"
  shows "z_sending_counter t' = z_sending_counter t \<and> z_last_sending_counter t' = z_last_sending_counter t"
  using assms
  by (cases "w_pc t") (auto simp: worker_defs Let_def split: worker_splits)

lemma tcp_zc_worker_step_shared:
  assumes "\<not> zc_place (w_pc t)" and "tcp_zc_worker_step (d, t, w) = (d', t', w')"
  obtains t1 where "worker_step zc_codes True W_ZcLoop (d, t, w) = (d', t1, w')"
    and "t' = t1\<lparr>z_sending_counter := z_sending_counter t', z_last_sending_counter := z_last_sending_counter t'\<rparr>"
    and "w_pc t \<noteq> W_RcvBuf \<longrightarrow> z_last_sending_counter t' = z_last_sending_counter t \<and>
      (w_pc t \<noteq> W_Send \<or> w_remaining t = 0 \<longrightarrow> z_sending_counter t' = z_sending_counter t)"
proof -
  obtain d1 t1 w1 where s: "worker_step zc_codes True W_ZcLoop (d, t, w) = (d1, t1, w1)"
    by (cases "worker_step zc_codes True W_ZcLoop (d, t, w)")
  note m = worker_step_more [OF s]
  have "d' = d1 \<and> w' = w1 \<and>
      t' = t1\<lparr>z_sending_counter := z_sending_counter t', z_last_sending_counter := z_last_sending_counter t'\<rparr> \<and>
      (w_pc t \<noteq> W_RcvBuf \<longrightarrow> z_last_sending_counter t' = z_last_sending_counter t \<and>
        (w_pc t \<noteq> W_Send \<or> w_remaining t = 0 \<longrightarrow> z_sending_counter t' = z_sending_counter t))"
    using assms s m by (cases "w_pc t") (auto simp: tcp_zc_worker_step_def)
  with s that show thesis by blast
qed

lemma zc_ignored [simp]:
  fixes t :: Worker_Zc
  shows "worker_inv d (t\<lparr>z_sending_counter := x, z_last_sending_counter := y\<rparr>) = worker_inv d t"
    "handover_inv d (t\<lparr>z_sending_counter := x, z_last_sending_counter := y\<rparr>) = handover_inv d t"
    "exit_inv c e d (t\<lparr>z_sending_counter := x, z_last_sending_counter := y\<rparr>) = exit_inv c e d t"
    "delivery base ps a d (t\<lparr>z_sending_counter := x, z_last_sending_counter := y\<rparr>) w = delivery base ps a d t w"
    "ending d (t\<lparr>z_sending_counter := x, z_last_sending_counter := y\<rparr>) = ending d t"
    "worker_rank n d (t\<lparr>z_sending_counter := x, z_last_sending_counter := y\<rparr>) w = worker_rank n d t w"
  by (cases "w_pc t"; simp add: spec_defs on_wire_def mem_progress_def file_progress_def worker_rank_def Let_def)+

text \<open>In the wait, a step moves between the three places, to the end of the send, or to an exit.\<close>

definition zc_extra :: "Worker_Zc \<Rightarrow> nat" where
  [spec_defs]: "zc_extra t = nat (z_sending_counter t - z_last_sending_counter t)"

text \<open>
  The thread reports a list as done only when as many sends are acknowledged as were made, so this
  holds as long as the flag says done; and it looks for a notification only when one is missing.
\<close>

definition acknowledged :: "SenderWorkerData \<Rightarrow> Worker_Zc \<Rightarrow> bool" where
  [spec_defs]: "acknowledged d t \<longleftrightarrow>
     (is_done d \<or> w_pc t = W_Done \<longrightarrow> z_sending_counter t \<le> z_last_sending_counter t) \<and>
     (w_pc t = W_ZcPoll \<or> w_pc t = W_ZcRecv \<longrightarrow> z_last_sending_counter t < z_sending_counter t)"

lemma tcp_zc_worker_step_wait:
  assumes "zc_place (w_pc t)" and "tcp_zc_worker_step (d, t, w) = (d', t', w')"
  shows "d' = d" "w' = w\<lparr>log := log w'\<rparr>" "user_calls w' = user_calls w"
    "t' = t\<lparr>w_pc := w_pc t', z_last_sending_counter := z_last_sending_counter t'\<rparr>"
    "zc_place (w_pc t') \<or> w_pc t' = W_Done \<or> (\<exists>c. w_pc t' = W_Exit True c \<and> c \<noteq> NO_ERROR)"
    "acknowledged d t \<Longrightarrow> \<not> is_done d \<Longrightarrow> acknowledged d' t'"
    "acknowledged d t \<Longrightarrow> worker_rank (zc_extra t') d' t' w' < worker_rank (zc_extra t) d t w"
proof -
  consider "w_pc t = W_ZcLoop" | "w_pc t = W_ZcPoll" | "w_pc t = W_ZcRecv"
    using assms(1) by (cases "w_pc t") auto
  note c = this
  show "d' = d" using c
    by cases (use assms(2) in \<open>auto simp: zc_step_defs split: if_splits\<close>)
  show "w' = w\<lparr>log := log w'\<rparr>" using c
    by cases (use assms(2) in \<open>auto simp: zc_step_defs split: if_splits\<close>)
  show "user_calls w' = user_calls w" using c
    by cases (use assms(2) in \<open>auto simp: zc_step_defs split: if_splits\<close>)
  show "t' = t\<lparr>w_pc := w_pc t', z_last_sending_counter := z_last_sending_counter t'\<rparr>" using c
    by cases (use assms(2) in \<open>auto simp: zc_step_defs split: if_splits\<close>)
  show "zc_place (w_pc t') \<or> w_pc t' = W_Done \<or> (\<exists>c. w_pc t' = W_Exit True c \<and> c \<noteq> NO_ERROR)" using c
    by cases (use assms(2) in \<open>auto simp: zc_step_defs split: if_splits\<close>)
  show "acknowledged d t \<Longrightarrow> \<not> is_done d \<Longrightarrow> acknowledged d' t'" using c
    by cases (use assms(2) in \<open>auto simp: zc_step_defs acknowledged_def split: if_splits\<close>)
  show "acknowledged d t \<Longrightarrow> worker_rank (zc_extra t') d' t' w' < worker_rank (zc_extra t) d t w" using c
    by cases (use assms(2) in \<open>auto simp: zc_step_defs acknowledged_def worker_rank_def zc_extra_def
      split: if_splits option.splits\<close>)
qed

lemma tcp_zc_worker_step_acknowledged:
  assumes "tcp_zc_worker_step (d, t, w) = (d', t', w')" and "is_done d \<longrightarrow> \<not> busy (w_pc t)"
    and "acknowledged d t"
  shows "acknowledged d' t'"
proof (cases "zc_place (w_pc t)")
  case True
  then have "busy (w_pc t)" by (cases "w_pc t") (simp_all add: busy_def)
  with assms(2) tcp_zc_worker_step_wait(6) [OF True assms(1,3)] show ?thesis by simp
next
  case False
  then obtain t1 where s: "worker_step zc_codes True W_ZcLoop (d, t, w) = (d', t1, w')"
    and t': "t' = t1\<lparr>z_sending_counter := z_sending_counter t', z_last_sending_counter := z_last_sending_counter t'\<rparr>"
    and c: "w_pc t \<noteq> W_RcvBuf \<longrightarrow> z_last_sending_counter t' = z_last_sending_counter t \<and>
      (w_pc t \<noteq> W_Send \<or> w_remaining t = 0 \<longrightarrow> z_sending_counter t' = z_sending_counter t)"
    using assms(1) by (rule tcp_zc_worker_step_shared)
  have "w_pc t1 \<noteq> W_Done" "w_pc t1 \<noteq> W_ZcPoll" "w_pc t1 \<noteq> W_ZcRecv"
    using False s by (cases "w_pc t"; auto simp: worker_defs Let_def split: worker_splits)+
  moreover have "w_pc t' = w_pc t1" by (subst t') simp
  moreover have "is_done d' \<longrightarrow> is_done d \<or> w_pc t = W_Done"
    using s by (cases "w_pc t"; auto simp: worker_defs Let_def split: worker_splits)
  moreover have "w_pc t = W_RcvBuf \<Longrightarrow> z_sending_counter t' = 0 \<and> z_last_sending_counter t' = 0"
    using assms(1) by (auto simp: tcp_zc_worker_step_def split: prod.splits)
  moreover have "w_pc t = W_Send \<Longrightarrow> \<not> is_done d" using assms(2) by (auto simp: busy_def)
  ultimately show ?thesis using assms(3) c by (cases "w_pc t = W_RcvBuf") (auto simp: acknowledged_def)
qed

section \<open>The contract\<close>

lemma zc_wait_busy:
  assumes "zc_place p"
  shows "\<not> sending p" "all_sent p" "busy p" "\<not> critical p" "\<not> blocked p" "\<not> exiting p" "\<not> dead p"
    "p \<noteq> W_Alive" "p \<noteq> W_Initialized" "p \<noteq> W_Exited" "p \<noteq> W_Unwind" "p \<noteq> W_Blocked" "p \<noteq> W_Wait" "p \<noteq> W_Copy"
  using assms by (cases p; simp add: busy_def)+

lemma tcp_zc_worker_step_wait_inv:
  assumes z: "zc_place (w_pc t)" and st: "tcp_zc_worker_step (d, t, w) = (d', t', w')"
  shows "worker_inv d t \<Longrightarrow> worker_inv d' t'" "handover_inv d t \<Longrightarrow> handover_inv d' t'"
    "exit_inv zc_code_of NO_ERROR d' t'" "ending d t \<Longrightarrow> ending d' t'"
    "delivery base ps a d t w \<Longrightarrow> delivery base ps a d' t' w'"
proof -
  note f = tcp_zc_worker_step_wait [OF z st]
  obtain p y where t': "t' = t\<lparr>w_pc := p, z_last_sending_counter := y\<rparr>" using f(4) by blast
  have p: "zc_place p \<or> p = W_Done \<or> (\<exists>c. p = W_Exit True c \<and> c \<noteq> NO_ERROR)"
    using f(5) t' by auto
  obtain l where w': "w' = w\<lparr>log := l\<rparr>" using f(2) by blast
  note zt = zc_wait_busy [OF z]
  show "worker_inv d t \<Longrightarrow> worker_inv d' t'"
    using p zt unfolding f(1) t'
    by (auto simp: worker_inv_def lock_inv_def life_inv_def packet_inv_def zc_wait_busy split: wpc.splits)
  show "handover_inv d t \<Longrightarrow> handover_inv d' t'"
    using zt unfolding f(1) t' by (auto simp: handover_inv_def)
  show "exit_inv zc_code_of NO_ERROR d' t'"
    using p unfolding t' by (cases p) (auto simp: exit_inv_def)
  show "ending d t \<Longrightarrow> ending d' t'"
    using p unfolding f(1) t' by (auto simp: ending_def zc_wait_busy)
  show "delivery base ps a d t w \<Longrightarrow> delivery base ps a d' t' w'"
    using p zt unfolding f(1) t' w'
    by (auto simp: delivery_def zc_wait_busy on_wire_all_sent partly_def)
qed

text \<open>
  A property of one step that does not see the counters, that the shared step function has, and
  that the wait has, is one of the thread.
\<close>

lemma tcp_zc_worker_step_cases:
  assumes "tcp_zc_worker_step (d, t, w) = (d', t', w')"
    and "\<And>t1 x y. \<not> zc_place (w_pc t) \<Longrightarrow> worker_step zc_codes True W_ZcLoop (d, t, w) = (d', t1, w') \<Longrightarrow>
      t' = t1\<lparr>z_sending_counter := x, z_last_sending_counter := y\<rparr> \<Longrightarrow>
      P (t1\<lparr>z_sending_counter := x, z_last_sending_counter := y\<rparr>)"
    and "zc_place (w_pc t) \<Longrightarrow> P t'"
  shows "P t'"
proof (cases "zc_place (w_pc t)")
  case False
  then obtain t1 where "worker_step zc_codes True W_ZcLoop (d, t, w) = (d', t1, w')"
    and t': "t' = t1\<lparr>z_sending_counter := z_sending_counter t', z_last_sending_counter := z_last_sending_counter t'\<rparr>"
    using assms(1) by (rule tcp_zc_worker_step_shared)
  with assms(2) [OF False] show ?thesis by (subst t') blast
qed (rule assms(3))

lemma tcp_zc_worker_step_rank:
  assumes st: "tcp_zc_worker_step (d, t, w) = (d', t', w')" and "worker_inv d t" and "acknowledged d t"
    and "terminate_thread d"
  shows "worker_rank (zc_extra t') d' t' w' < worker_rank (zc_extra t) d t w \<or>
    worker_rank (zc_extra t') d' t' w' \<le> worker_rank (zc_extra t) d t w \<and> w_pc t' = w_pc t \<and>
    (w_pc t = W_Exited \<or> w_pc t = W_Blocked \<and> packets_cond d \<or> packets_mutex d = Some MainThread)"
proof (cases "zc_place (w_pc t)")
  case True
  from tcp_zc_worker_step_wait(7) [OF this st assms(3)] show ?thesis by blast
next
  case False
  then obtain t1 where s: "worker_step zc_codes True W_ZcLoop (d, t, w) = (d', t1, w')"
    and t': "t' = t1\<lparr>z_sending_counter := z_sending_counter t', z_last_sending_counter := z_last_sending_counter t'\<rparr>"
    and c: "w_pc t \<noteq> W_RcvBuf \<longrightarrow> z_last_sending_counter t' = z_last_sending_counter t \<and>
      (w_pc t \<noteq> W_Send \<or> w_remaining t = 0 \<longrightarrow> z_sending_counter t' = z_sending_counter t)"
    by (rule tcp_zc_worker_step_shared [OF _ st])
  have "zc_extra t' \<le> zc_extra t \<or> w_pc t = W_Send \<and> w_remaining t \<noteq> 0 \<and> zc_extra t' \<le> Suc (zc_extra t)"
    using c st by (cases "w_pc t") (auto simp: zc_extra_def tcp_zc_worker_step_def split: prod.splits if_splits)
  from worker_step_down [OF disjI2 [OF refl] assms(2,4) s False this]
  have "worker_rank (zc_extra t') d' t1 w' < worker_rank (zc_extra t) d t w \<or>
    worker_rank (zc_extra t') d' t1 w' \<le> worker_rank (zc_extra t) d t w \<and> w_pc t1 = w_pc t \<and>
    (w_pc t = W_Exited \<or> w_pc t = W_Blocked \<and> packets_cond d \<or> packets_mutex d = Some MainThread)" .
  moreover have "worker_rank n d' t' w' = worker_rank n d' t1 w'" for n by (subst t') (rule zc_ignored(6))
  moreover have "w_pc t' = w_pc t1" by (subst t') simp
  ultimately show ?thesis by simp
qed

interpretation zw: worker_thread tcp_zc_worker_step zc_code_of NO_ERROR acknowledged zc_extra
proof
  fix d d' :: SenderWorkerData and t t' :: Worker_Zc and w w'
  assume st: "tcp_zc_worker_step (d, t, w) = (d', t', w')"
  note cs = tcp_zc_worker_step_cases [OF st]
  note wait = tcp_zc_worker_step_wait [OF _ st] and wait_inv = tcp_zc_worker_step_wait_inv [OF _ st]
  have "waits w' = waits w" if "zc_place (w_pc t)"
    by (subst wait(2) [OF that]) simp
  then show "w' = w\<lparr>log := log w', wire := wire w', waits := waits w'\<rparr>"
    by (rule_tac cs) (auto intro: worker_step_os dest: wait(2))
  show "user_calls w' = user_calls w"
    by (rule cs) (auto dest: worker_step_user_calls wait(3))
  show "terminate_thread d' = terminate_thread d \<and> sock_fd d' = sock_fd d"
    by (rule cs) (auto dest: worker_step_flags wait(1))
  show "worker_inv d t \<Longrightarrow> worker_inv d' t'"
    by (rule cs) (auto dest: worker_step_inv [OF disjI2, OF refl] wait_inv(1))
  show "(is_done d \<longrightarrow> \<not> busy (w_pc t)) \<Longrightarrow> acknowledged d t \<Longrightarrow> acknowledged d' t'"
    by (rule tcp_zc_worker_step_acknowledged [OF st])
  show "worker_inv d t \<Longrightarrow> handover_inv d t \<Longrightarrow> handover_inv d' t'"
    by (rule cs) (auto simp: worker_inv_def dest: worker_step_handover [OF disjI2, OF refl] wait_inv(2))
  show "exit_inv zc_code_of NO_ERROR d t \<Longrightarrow> exit_inv zc_code_of NO_ERROR d' t'"
    by (rule cs) (use worker_step_exit [of zc_codes, OF _ disjI2, OF _ refl] wait_inv(3) in auto)
  show "worker_inv d t \<Longrightarrow> delivery base ps a d t w \<Longrightarrow> delivery base ps a d' t' w'" for base ps a
    by (rule cs) (auto dest: worker_step_delivery [OF _ disjI2, OF _ refl] wait_inv(5))
  show "is_done d \<Longrightarrow> is_done d'" by (rule cs) (auto dest: worker_step_idle(1) wait(1))
  show "\<not> busy (w_pc t) \<Longrightarrow> wire w' = wire w"
    by (rule cs) (auto dest: worker_step_idle(2) zc_wait_busy(3))
  show "\<not> busy (w_pc t) \<Longrightarrow> packets_list d = None \<Longrightarrow> \<not> busy (w_pc t') \<and> packets_list d' = None"
    by (rule cs) (auto dest: worker_step_stays_idle zc_wait_busy(3))
  show "worker_inv d t \<Longrightarrow> packets_mutex d = Some MainThread \<Longrightarrow>
      packets_mutex d' = Some MainThread \<and> packets_list d' = packets_list d \<and>
      (packets_cond d' \<longrightarrow> packets_cond d) \<and>
      (\<not> busy (w_pc t) \<longrightarrow> \<not> busy (w_pc t') \<and> is_done d' = is_done d)"
    by (rule cs) (auto simp: worker_inv_def dest: worker_step_locked_out wait(1) zc_wait_busy(3))
  show "packets_mutex d \<noteq> Some MainThread \<Longrightarrow> packets_mutex d' \<noteq> Some MainThread"
    by (rule cs) (auto dest: worker_step_never_main wait(1))
  show "w_pc t = W_Alive \<Longrightarrow> w_pc t' = W_Initialized"
    by (rule cs) (auto dest: worker_step_life_cycle(1))
  show "worker_inv d t \<Longrightarrow> thread_initialized d \<or> w_pc t = W_Initialized \<Longrightarrow> thread_initialized d'"
    by (rule cs) (auto simp: worker_inv_def dest: worker_step_life_cycle(2) wait(1) zc_wait_busy(9))
  show "dead (w_pc t) \<Longrightarrow> dead (w_pc t') \<and> (w_pc t \<noteq> W_ExitFlag \<longrightarrow> w_pc t' = W_Exited) \<and>
      is_error d' = is_error d \<and> error_code d' = error_code d"
    by (rule cs) (auto dest: worker_step_life_cycle(3) zc_wait_busy(7))
  show "worker_inv d t \<Longrightarrow> ending d t \<Longrightarrow> ending d' t'"
    by (rule cs) (auto dest: worker_step_ending [OF disjI2, OF refl] wait_inv(4))
  show "worker_rank (zc_extra t') d' t' w' < worker_rank (zc_extra t) d t w \<or>
      worker_rank (zc_extra t') d' t' w' \<le> worker_rank (zc_extra t) d t w \<and> w_pc t' = w_pc t \<and>
      (w_pc t = W_Exited \<or> w_pc t = W_Blocked \<and> packets_cond d \<or> packets_mutex d = Some MainThread)"
    if "worker_inv d t" "acknowledged d t" "terminate_thread d"
    using that by (rule tcp_zc_worker_step_rank [OF st])
next
  fix d d' :: SenderWorkerData and t :: Worker_Zc
  show "acknowledged d t \<Longrightarrow> (is_done d' \<longrightarrow> is_done d) \<Longrightarrow> acknowledged d' t"
    by (auto simp: acknowledged_def)
qed

end
