(* ===== verification/Tcp_Sender_Zc.thy ===== *)
theory Tcp_Sender_Zc
  imports Tcp_Worker_Zc Sender_Termination Sender_Contract Sender_Copy
begin

text \<open>
  The class \<^verbatim>\<open>TCPSenderZC\<close> (\<^verbatim>\<open>includes/tcp_sender_zc.h\<close>, \<^verbatim>\<open>src/senders/tcp_sender_zc.cpp\<close>): the
  sender of \<open>Sender_Object\<close> with the zero-copy worker, the socket option \<^verbatim>\<open>SO_ZEROCOPY\<close>
  and one more case of the error switch. The interpretations give
  the class the contracts of a sender and of an error source.
\<close>

section \<open>The class\<close>

text \<open>The \<^verbatim>\<open>switch\<close> of \<^verbatim>\<open>send\<close> on the error code of a thread that ended.\<close>

definition TCPSenderZC_error_message :: "uint_fast8 \<Rightarrow> string" where
  "TCPSenderZC_error_message c =
     (if c = zc_code_of CANT_CPU_AFFINITY then ''Sender worker thread can't set CPU Affinity.''
      else if c = zc_code_of CANT_SOCKET_TIMEOUT then ''Sender worker thread can't set timeout on the socket.''
      else if c = zc_code_of SENDING_ERROR then ''Sender worker thread, error while sending the data. ''
      else if c = zc_code_of NOT_SUPPORTED_DATA_TYPE then ''Sender worker thread can't send that type of packets.''
      else if c = zc_code_of CANT_SOCKET_BUFFERS then ''Can't reserve the buffers needed for the socket.''
      else if c = zc_code_of ZC_POLL_ERROR \<or> c = zc_code_of ZC_RECVMSG_ERROR \<or>
        c = zc_code_of ZC_NOTIFICATION_ERROR then ''Error during zero-copy transmission.''
      else ''Unknown error in sender worker thread.'')"

definition tcp_zc_class :: "(TCP_SENDER_ZC_ERROR_CODES, unit Worker_Zc_ext) sender_class" where
  "tcp_zc_class = \<lparr>k_step = tcp_zc_worker_step, k_start = tcp_zc_worker_start, k_owner = ''TCPSenderZC'',
     k_error_message = TCPSenderZC_error_message, k_zerocopy = True\<rparr>"

type_synonym TCPSenderZC = "(TCP_SENDER_ZC_ERROR_CODES, unit Worker_Zc_ext) SenderObj"

definition TCPSenderZC_ctor :: "uint_fast16 \<Rightarrow> TCPSenderZC" where
  "TCPSenderZC_ctor port = Sender_ctor tcp_zc_class port"

definition TCPSenderZC_create_server :: "TCPSenderZC \<times> os \<Rightarrow> bool \<times> TCPSenderZC \<times> os" where
  "TCPSenderZC_create_server sw = create_server tcp_zc_class sw"

definition TCPSenderZC_get_client :: "TCPSenderZC \<times> os \<Rightarrow> bool \<times> TCPSenderZC \<times> os" where
  "TCPSenderZC_get_client sw = get_client sw"

definition TCPSenderZC_initialize :: "TCPSenderZC \<times> os \<Rightarrow> (bool \<times> TCPSenderZC \<times> os) option" where
  "TCPSenderZC_initialize sw = initialize tcp_zc_class sw"

definition TCPSenderZC_send :: "ptr \<Rightarrow> TCPSenderZC \<times> os \<Rightarrow> (bool \<times> TCPSenderZC \<times> os) option" where
  "TCPSenderZC_send list sw = send tcp_zc_class list sw"

definition TCPSenderZC_is_send_done :: "TCPSenderZC \<times> os \<Rightarrow> bool \<times> TCPSenderZC \<times> os" where
  "TCPSenderZC_is_send_done sw = is_send_done tcp_zc_class sw"

definition TCPSenderZC_end_sender :: "TCPSenderZC \<times> os \<Rightarrow> (bool \<times> TCPSenderZC \<times> os) option" where
  "TCPSenderZC_end_sender sw = end_sender tcp_zc_class sw"

definition TCPSenderZC_get_error :: "TCPSenderZC \<Rightarrow> string \<times> TCPSenderZC" where
  "TCPSenderZC_get_error s = get_error s"

definition TCPSenderZC_is_error :: "TCPSenderZC \<Rightarrow> bool" where
  "TCPSenderZC_is_error s = is_error_pending s"

definition TCPSenderZC_dtor :: "TCPSenderZC \<times> os \<Rightarrow> (TCPSenderZC \<times> os) option" where
  "TCPSenderZC_dtor sw = Sender_dtor tcp_zc_class sw"

definition TCPSenderZC_vtable :: "TCPSenderZC Sender" where
  "TCPSenderZC_vtable = Sender_vtable tcp_zc_class"

lemmas TCPSenderZC_methods = TCPSenderZC_ctor_def TCPSenderZC_create_server_def TCPSenderZC_get_client_def
  TCPSenderZC_initialize_def TCPSenderZC_send_def TCPSenderZC_is_send_done_def TCPSenderZC_end_sender_def
  TCPSenderZC_get_error_def TCPSenderZC_is_error_def TCPSenderZC_dtor_def

section \<open>The contracts\<close>

lemma tcp_zc_class_simps [simp]:
  "k_step tcp_zc_class = tcp_zc_worker_step" "k_start tcp_zc_class = tcp_zc_worker_start"
  "k_owner tcp_zc_class = ''TCPSenderZC''" "k_error_message tcp_zc_class = TCPSenderZC_error_message"
  "k_zerocopy tcp_zc_class = True"
  by (simp_all add: tcp_zc_class_def)

interpretation zc: sender_thread tcp_zc_class zc_code_of NO_ERROR acknowledged zc_extra
proof (unfold_locales, unfold tcp_zc_class_simps)
  show "w_pc tcp_zc_worker_start = W_Alive" "\<not> is_locked (w_prot_lock tcp_zc_worker_start)"
    "end_value (w_prot_term_flag tcp_zc_worker_start)" "acknowledged d tcp_zc_worker_start" for d
    by (simp_all add: tcp_zc_worker_start_def acknowledged_def MutexRAII_ctor_def AtomicValRAII_ctor_def)
  show "TCPSenderZC_error_message (zc_code_of c) \<noteq> ''Unknown error in sender worker thread.''"
    if "c \<noteq> NO_ERROR" for c
    using that by (cases c) (simp_all add: TCPSenderZC_error_message_def)
qed (fact zw.frame_os zw.no_user_call zw.frame_flags zw.keeps_worker_inv zw.keeps_own zw.own_shared zw.keeps_handover zw.keeps_exit
  zw.delivers zw.done_stays zw.idle_wire zw.stays_idle zw.locked_out zw.never_main zw.starts zw.initializes
  zw.dead_stays zw.keeps_ending zw.steps_down)+

interpretation zc_errors: error_source s_error_handler TCPSenderZC_get_error TCPSenderZC_is_error
  by unfold_locales (simp_all add: TCPSenderZC_methods get_error_def is_error_pending_def)

abbreviation zc_inv :: "TCPSenderZC \<Rightarrow> bool" where
  "zc_inv \<equiv> sender_inv acknowledged zc_code_of NO_ERROR"

end
