(* ===== verification/Sender_Trace.thy ===== *)
theory Sender_Trace
  imports Sender_Histories
begin

text \<open>
  What the variables of a worker thread say about the calls it has made: the contract
  \<open>thread_trace\<close> of a relation between the thread and the log of the machine. Each step of the
  thread keeps it, the calls of the main thread do not disturb it, and it holds when a thread is
  created; then it holds after every history of calls on the sender, in every interleaving.
\<close>

section \<open>The calls that count\<close>

text \<open>Sending, reading notifications, and the creation of a thread, where the counting begins.\<close>

fun traced :: "event \<Rightarrow> bool" where
  "traced (SendCall _ _ _ _) = True"
| "traced (RecvmsgCall _) = True"
| "traced PthreadCreate = True"
| "traced _ = False"

definition quiet :: "os \<Rightarrow> os \<Rightarrow> bool" where
  [spec_defs]: "quiet w w' \<longleftrightarrow> answer w' = answer w \<and> errqueue w' = errqueue w \<and>
     (\<exists>es. log w' = log w @ es \<and> (\<forall>e \<in> set es. \<not> traced e))"

lemma quiet_log:
  "answer w' = answer w \<Longrightarrow> errqueue w' = errqueue w \<Longrightarrow> log w' = log w @ es \<Longrightarrow>
   \<forall>e \<in> set es. \<not> traced e \<Longrightarrow> quiet w w'"
  by (auto simp: quiet_def)

lemma quiet_same: "answer w' = answer w \<Longrightarrow> errqueue w' = errqueue w \<Longrightarrow> log w' = log w \<Longrightarrow> quiet w w'"
  by (auto simp: quiet_def)

lemma quiet_trans: "quiet w w1 \<Longrightarrow> quiet w1 w2 \<Longrightarrow> quiet w w2"
  by (fastforce simp: quiet_def)

lemma slept_errqueue: "slept w naps w' \<Longrightarrow> errqueue w' = errqueue w"
  by (cases w; cases w') (simp add: slept_def)

lemma quiet_slept: "slept w naps w' \<Longrightarrow> quiet w w'"
  by (rule quiet_log) (auto simp: sleptD slept_errqueue)

lemma quiet_sleep: "milliseconds_sleep ms w = Some w' \<Longrightarrow> quiet w w'"
  using nanoseconds_sleep_slept quiet_slept unfolding milliseconds_sleep_def by blast

lemma quiet_close: "quiet w (shutdown_close fd w)"
  by (simp add: quiet_def shutdown_close_def syscall_def)

section \<open>The contract\<close>

locale thread_trace =
  sender_thread k code no_error own extra
  for k :: "('e, 'm) sender_class" and code :: "'e \<Rightarrow> uint_fast8" and no_error :: 'e
    and own :: "SenderWorkerData \<Rightarrow> ('e, 'm) Worker_scheme \<Rightarrow> bool" and extra :: "('e, 'm) Worker_scheme \<Rightarrow> nat" +
  fixes trace :: "('e, 'm) Worker_scheme \<Rightarrow> os \<Rightarrow> bool"
  assumes step_trace: "k_step k (d, t, w) = (d', t', w') \<Longrightarrow> trace t w \<Longrightarrow> trace t' w'"
    and quiet_trace: "quiet w w' \<Longrightarrow> trace t w \<Longrightarrow> trace t w'"
    and start_trace: "log w' = log w @ [PthreadCreate] \<Longrightarrow> trace (k_start k) w'"
begin

definition traces :: "('e, 'm) SenderObj \<Rightarrow> os \<Rightarrow> bool" where
  "traces s w \<longleftrightarrow> (\<forall>t. s_worker_thread s = Some t \<longrightarrow> trace t w)"

lemma traces_update [simp]:
  "traces (s\<lparr>s_shared_data := d\<rparr>) w = traces s w" "traces (s\<lparr>s_initialized := b\<rparr>) w = traces s w"
  "traces (s\<lparr>s_server_sock_fd := n\<rparr>) w = traces s w" "traces (s\<lparr>s_client_sock_fd := n\<rparr>) w = traces s w"
  "traces (s\<lparr>s_error_handler := e\<rparr>) w = traces s w" "traces (set_error m s) w = traces s w"
  by (simp_all add: traces_def set_error_def)

lemma traces_quiet: "traces s w \<Longrightarrow> quiet w w' \<Longrightarrow> traces s w'"
  using quiet_trace by (auto simp: traces_def)

lemma traces_no_thread: "s_worker_thread s = None \<Longrightarrow> traces s w"
  by (simp add: traces_def)

lemma traces_interfere:
  assumes "traces s w" and "interfere k (s, w) = (s', w')"
  shows "traces s' w'"
proof (cases "s_worker_thread s")
  case None
  with interfere_no_thread [OF None, of w] assms(2) show ?thesis by (auto simp: traces_def)
next
  case (Some th)
  let ?w = "w\<lparr>turns := Suc (turns w)\<rparr>"
  obtain d' t' v where st: "(k_step k ^^ schedule w (turns w)) (s_shared_data s, th, ?w) = (d', t', v)"
    by (cases "(k_step k ^^ schedule w (turns w)) (s_shared_data s, th, ?w)")
  have "quiet w ?w" by (simp add: quiet_same)
  from traces_quiet [OF assms(1) this] Some have "trace th ?w" by (simp add: traces_def)
  from steps_keep [OF st, of "\<lambda>_. trace"] this step_trace have "trace t' v" by blast
  with assms(2) st Some show ?thesis by (auto simp: interfere_def run_worker_def traces_def)
qed

lemma stable_traces: "stable k traces"
  using traces_interfere by (auto simp: stable_def)

lemma traces_read: "shared_read k f (s, w) = (b, s', w') \<Longrightarrow> traces s w \<Longrightarrow> traces s' w'"
  using traces_interfere by (auto simp: shared_read_def split: prod.splits)

lemma traces_write: "shared_write k g (s, w) = (s', w') \<Longrightarrow> traces s w \<Longrightarrow> traces s' w'"
  using traces_interfere by (auto simp: shared_write_def split: prod.splits)

lemma traces_unlock: "main_unlock k g (s, w) = (g', s', w') \<Longrightarrow> traces s w \<Longrightarrow> traces s' w'"
  using traces_interfere by (auto simp: main_unlock_def split: prod.splits)

lemma traces_dtor: "main_guard_dtor g (s, w) = (s', w') \<Longrightarrow> traces s w \<Longrightarrow> traces s' w'"
  by (auto simp: main_guard_dtor_def split: prod.splits)

lemma traces_lock: "main_lock k g (s, w) = Some (g', s', w') \<Longrightarrow> traces s w \<Longrightarrow> traces s' w'"
  using main_lock_result [OF _ stable_traces, of g "(s, w)" "(g', s', w')"] by auto

lemma traces_await: "await k flag ms (s, w) = Some (s', w') \<Longrightarrow> traces s w \<Longrightarrow> traces s' w'"
  using await_result [OF _ stable_traces, of flag ms "(s, w)" "(s', w')"] traces_quiet quiet_sleep by auto

section \<open>The methods\<close>

lemma traces_hand_over:
  assumes "hand_over k l (s, w) = Some (g, s', w')" and "traces s w"
  shows "traces s' w'"
proof -
  obtain g1 s1 w1 where l: "main_lock k MutexRAII_ctor (s, w) = Some (g1, s1, w1)"
    and u: "main_unlock k g1 (shared_write k pthread_cond_signal (shared_write k clear_is_done
      (shared_write k (set_packets_list l) (s1, w1)))) = (g, s', w')"
    using assms(1) by (auto simp: hand_over_def bind_eq_Some_conv)
  obtain s2 w2 where 2: "shared_write k (set_packets_list l) (s1, w1) = (s2, w2)"
    by (cases "shared_write k (set_packets_list l) (s1, w1)")
  obtain s3 w3 where 3: "shared_write k clear_is_done (s2, w2) = (s3, w3)"
    by (cases "shared_write k clear_is_done (s2, w2)")
  obtain s4 w4 where 4: "shared_write k pthread_cond_signal (s3, w3) = (s4, w4)"
    by (cases "shared_write k pthread_cond_signal (s3, w3)")
  from u 2 3 4 have "main_unlock k g1 (s4, w4) = (g, s', w')" by simp
  from traces_unlock [OF this traces_write [OF 4 traces_write [OF 3 traces_write [OF 2 traces_lock [OF l assms(2)]]]]]
  show ?thesis .
qed

lemma traces_end_sender:
  assumes "end_sender k (s, w) = Some (b, s', w')" and "traces s w"
  shows "traces s' w'"
proof -
  obtain c s1 w1 where r: "shared_read k is_terminated_thread (s\<lparr>s_initialized := False\<rparr>, w) = (c, s1, w1)"
    by (cases "shared_read k is_terminated_thread (s\<lparr>s_initialized := False\<rparr>, w)")
  with assms(1) obtain s2 w2 where e: "(if \<not> c then end_thread k (s1, w1) else Some (s1, w1)) = Some (s2, w2)"
    and cl: "close_client (close_server (s2, w2)) = (s', w')"
    by (auto simp: end_sender_def bind_eq_Some_conv split: if_splits)
  from traces_read [OF r] assms(2) have 1: "traces s1 w1" by simp
  have 2: "traces s2 w2"
  proof (cases c)
    case True
    with e 1 show ?thesis by simp
  next
    case False
    obtain s3 w3 where 3: "shared_write k set_terminate_thread (s1, w1) = (s3, w3)"
      by (cases "shared_write k set_terminate_thread (s1, w1)")
    with e False obtain g s4 w4 s5 w5 where h: "hand_over k None (s3, w3) = Some (g, s4, w4)"
      and a: "await k is_terminated_thread 50 (s4, w4) = Some (s5, w5)" and d: "main_guard_dtor g (s5, w5) = (s2, w2)"
      by (auto simp: end_thread_def bind_eq_Some_conv)
    from traces_dtor [OF d traces_await [OF a traces_hand_over [OF h traces_write [OF 3 1]]]] show ?thesis .
  qed
  have "traces s2 (shutdown_close a (shutdown_close b w2))" "traces s2 (shutdown_close a w2)" for a b
    using 2 traces_quiet quiet_close by blast+
  with cl 2 have "traces s2 w'"
    by (auto simp: close_client_def close_server_def simp del: traces_update split: if_splits)
  with close_result [OF cl] show ?thesis by simp
qed

lemma traces_initialize:
  assumes "initialize k (s, w) = Some (b, s', w')" and "traces s w"
  shows "traces s' w'"
proof -
  obtain c s1 w1 where e: "end_sender k (s, w) = Some (c, s1, w1)"
    using assms(1) by (auto simp: initialize_def bind_eq_Some_conv)
  obtain r2 s2 w2 where 2: "create_server k (reset_shared_data s1, w1) = (r2, s2, w2)"
    by (cases "create_server k (reset_shared_data s1, w1)")
  then have n2: "s_worker_thread s2 = None"
    using create_server_result [OF 2] by (simp add: set_up_def reset_shared_data_def)
  obtain r3 s3 w3 where 3: "get_client (s2, w2) = (r3, s3, w3)" by (cases "get_client (s2, w2)")
  with get_client_result [OF 3] n2 have n3: "s_worker_thread s3 = None" by (simp add: set_up_def)
  obtain s4 w4 where 4: "accepted (s3, w3) = (s4, w4)" by (cases "accepted (s3, w3)")
  with n3 have n4: "s_worker_thread s4 = None" by (auto simp: accepted_def)
  obtain r5 s5 w5 where 5: "set_attributes attr_calls (s4, w4) = (r5, s5, w5)"
    by (cases "set_attributes attr_calls (s4, w4)")
  have "\<forall>c \<in> set attr_calls. \<not> is_user_call (fst c)" by (simp add: attr_calls_def)
  with set_attributes_result [OF 5] n4 have n5: "s_worker_thread s5 = None" by (simp add: set_up_def)
  show ?thesis
  proof (cases b)
    case False
    with assms(1) e 2 3 4 5 n2 n3 n5 have "s_worker_thread s' = None"
      by (auto simp: initialize_def create_thread_def syscall_def bind_eq_Some_conv set_error_def
          split: if_splits prod.splits)
    then show ?thesis by (rule traces_no_thread)
  next
    case True
    with assms(1) e 2 3 4 5 obtain s6
      where a: "await k thread_initialized 5 (s5\<lparr>s_worker_thread := Some (k_start k)\<rparr>, w5\<lparr>log := log w5 @ [PthreadCreate]\<rparr>) = Some (s6, w')"
        and s': "s' = s6\<lparr>s_initialized := True\<rparr>"
      by (auto simp: initialize_def create_thread_def syscall_def bind_eq_Some_conv split: if_splits)
    have "traces (s5\<lparr>s_worker_thread := Some (k_start k)\<rparr>) (w5\<lparr>log := log w5 @ [PthreadCreate]\<rparr>)"
      using start_trace [of "w5\<lparr>log := log w5 @ [PthreadCreate]\<rparr>" w5] by (simp add: traces_def)
    from traces_await [OF a this] s' show ?thesis by simp
  qed
qed

lemma traces_send:
  assumes "send k a (s, w) = Some (b, s', w')" and "traces s w"
  shows "traces s' w'"
proof (cases "s_initialized s")
  case False
  with assms show ?thesis by (auto simp: send_def)
next
  case init: True
  obtain b1 s1 w1 where 1: "shared_read k is_terminated_thread (s, w) = (b1, s1, w1)"
    by (cases "shared_read k is_terminated_thread (s, w)")
  note t1 = traces_read [OF 1 assms(2)]
  show ?thesis
  proof (cases b1)
    case True
    obtain b2 s2 w2 where 2: "shared_read k is_error (s1, w1) = (b2, s2, w2)" by (cases "shared_read k is_error (s1, w1)")
    obtain c s3 w3 where 3: "shared_read k error_code (s2, w2) = (c, s3, w3)" by (cases "shared_read k error_code (s2, w2)")
    note t2 = traces_read [OF 2 t1]
    from traces_read [OF 3 t2] t2 assms(1) init True 1 2 3 show ?thesis by (auto simp: send_def split: if_splits)
  next
    case False
    obtain b2 s2 w2 where 2: "shared_read k is_done (s1, w1) = (b2, s2, w2)" by (cases "shared_read k is_done (s1, w1)")
    note t2 = traces_read [OF 2 t1]
    show ?thesis
    proof (cases b2)
      case True
      with assms(1) init False 1 2 obtain g s3 w3 where h: "hand_over k (Some a) (s2, w2) = Some (g, s3, w3)"
        and d: "main_guard_dtor g (s3, w3) = (s', w')"
        by (auto simp: send_def bind_eq_Some_conv)
      from traces_dtor [OF d traces_hand_over [OF h t2]] show ?thesis .
    next
      case nb: False
      with assms(1) init False 1 2 t2 show ?thesis by (auto simp: send_def)
    qed
  qed
qed

lemma traces_is_send_done: "is_send_done k (s, w) = (b, s', w') \<Longrightarrow> traces s w \<Longrightarrow> traces s' w'"
  unfolding is_send_done_def by (rule traces_read)

section \<open>Histories\<close>

lemma traces_poll_done: "poll_done k naps (s, w) = Some (b, s', w') \<Longrightarrow> traces s w \<Longrightarrow> traces s' w'"
proof (induction naps arbitrary: s w)
  case Nil
  then show ?case using traces_is_send_done [of s w b s' w'] by simp
next
  case (Cons ms naps)
  obtain c s1 w1 where r: "is_send_done k (s, w) = (c, s1, w1)" by (cases "is_send_done k (s, w)")
  note t1 = traces_is_send_done [OF r Cons.prems(2)]
  show ?case
  proof (cases c)
    case True
    with Cons.prems(1) r t1 show ?thesis by simp
  next
    case False
    with Cons.prems(1) r obtain w2 where w2: "milliseconds_sleep ms w1 = Some w2"
      and p: "poll_done k naps (s1, w2) = Some (b, s', w')" by (auto simp: bind_eq_Some_conv)
    from Cons.IH [OF p traces_quiet [OF t1 quiet_sleep [OF w2]]] show ?thesis .
  qed
qed

lemma traces_store: "traces s w \<Longrightarrow> traces s (w\<lparr>memory := m, lists := l\<rparr>)" "traces s w \<Longrightarrow> traces s (w\<lparr>lists := l\<rparr>)"
  by (auto elim!: traces_quiet intro: quiet_same)

lemma traces_call:
  assumes "do_call k c (s, w) = Some (s', w')" and "traces s w"
  shows "traces s' w'"
proof (cases c)
  case (Sleep ms)
  with assms traces_quiet quiet_sleep show ?thesis by auto
next
  case Is_Send_Done
  with assms traces_is_send_done [of s w] show ?thesis by (cases "is_send_done k (s, w)") auto
qed (use assms traces_initialize traces_send traces_end_sender traces_store in \<open>auto simp: get_error_def\<close>)

lemma traces_calls: "do_calls k cs (s, w) = Some (s', w') \<Longrightarrow> traces s w \<Longrightarrow> traces s' w'"
proof (induction cs arbitrary: s w)
  case Nil
  then show ?case by simp
next
  case (Cons c cs)
  then obtain s1 w1 where 1: "do_call k c (s, w) = Some (s1, w1)"
    and 2: "do_calls k cs (s1, w1) = Some (s', w')" by (auto simp: bind_eq_Some_conv)
  from Cons.IH [OF 2 traces_call [OF 1 Cons.prems(2)]] show ?case .
qed

lemma traces_lists: "send_lists k xs (s, w) = Some (s', w') \<Longrightarrow> traces s w \<Longrightarrow> traces s' w'"
proof (induction xs arbitrary: s w)
  case Nil
  then show ?case by simp
next
  case (Cons x xs)
  obtain a ps naps where x: "x = (a, ps, naps)" by (cases x)
  from Cons.prems(1) x obtain s1 w1 s2 w2 where 1: "send k a (s, w\<lparr>lists := (lists w)(a := ps)\<rparr>) = Some (True, s1, w1)"
    and 2: "poll_done k naps (s1, w1) = Some (True, s2, w2)" and 3: "send_lists k xs (s2, w2) = Some (s', w')"
    by (auto simp: bind_eq_Some_conv split: if_splits)
  from Cons.IH [OF 3 traces_poll_done [OF 2 traces_send [OF 1 traces_store(2) [OF Cons.prems(2)]]]] show ?case .
qed

end

end
