(* ===== verification/Zero_Copy_Trace.thy ===== *)
theory Zero_Copy_Trace
  imports Tcp_Sender_Zc Sender_Trace
begin

text \<open>
  The two counters of the zero-copy worker against the calls in the log: \<^verbatim>\<open>sending_counter\<close> is the
  number of calls of \<^verbatim>\<open>send\<close> with \<^verbatim>\<open>MSG_ZEROCOPY\<close> since the thread was created,
  \<^verbatim>\<open>last_sending_counter\<close> the number of such calls that the notifications read since then
  acknowledge, in every interleaving and after every history of calls.
\<close>

section \<open>Counting in the log\<close>

text \<open>Both functions read the log backwards and stop where the thread was created.\<close>

fun zc_sends :: "event list \<Rightarrow> int" where
  "zc_sends [] = 0"
| "zc_sends (e # es) =
     (case e of
        PthreadCreate \<Rightarrow> 0
      | SendCall _ _ _ zerocopy \<Rightarrow> (if zerocopy then 1 else 0) + zc_sends es
      | _ \<Rightarrow> zc_sends es)"

text \<open>
  How many calls of \<^verbatim>\<open>send\<close> the answer to the n-th call acknowledges when it is a \<^verbatim>\<open>recvmsg\<close>: none
  when it failed, was cut off, or is not a notification.
\<close>

definition acked_by :: "os \<Rightarrow> nat \<Rightarrow> int" where
  "acked_by w n =
     (if answer w n = -1 \<or> and (msg_flags (errqueue w n)) MSG_CTRUNC \<noteq> 0 then 0
      else max 0 (int_of_int64 (read_notification_zc (errqueue w n))))"

fun zc_acks :: "os \<Rightarrow> event list \<Rightarrow> int" where
  "zc_acks w [] = 0"
| "zc_acks w (e # es) =
     (case e of
        PthreadCreate \<Rightarrow> 0
      | RecvmsgCall _ \<Rightarrow> acked_by w (length es) + zc_acks w es
      | _ \<Rightarrow> zc_acks w es)"

definition zc_sends_made :: "os \<Rightarrow> int" where
  "zc_sends_made w = zc_sends (rev (log w))"

definition zc_sends_acked :: "os \<Rightarrow> int" where
  "zc_sends_acked w = zc_acks w (rev (log w))"

lemma zc_acks_frame: "answer w' = answer w \<Longrightarrow> errqueue w' = errqueue w \<Longrightarrow> zc_acks w' es = zc_acks w es"
  by (induction es) (simp_all add: acked_by_def split: event.split)

lemma untraced_counts:
  "\<forall>e \<in> set es. \<not> traced e \<Longrightarrow> zc_sends (es @ l) = zc_sends l \<and> zc_acks w (es @ l) = zc_acks w l"
  by (induction es) (auto split: event.split)

lemma quiet_counts:
  assumes "quiet w w'"
  shows "zc_sends_made w' = zc_sends_made w \<and> zc_sends_acked w' = zc_sends_acked w"
proof -
  from assms obtain es where w': "answer w' = answer w" "errqueue w' = errqueue w" "log w' = log w @ es"
    and es: "\<forall>e \<in> set (rev es). \<not> traced e" by (auto simp: quiet_def)
  from untraced_counts [OF es] zc_acks_frame [OF w'(1,2)] w'(3) show ?thesis
    by (simp add: zc_sends_made_def zc_sends_acked_def)
qed

section \<open>The counters of the thread\<close>

fun setting_up :: "'e wpc \<Rightarrow> bool" where
  "setting_up W_Alive = True"
| "setting_up W_Initialized = True"
| "setting_up W_Affinity = True"
| "setting_up W_Timeout = True"
| "setting_up W_SndBuf = True"
| "setting_up W_RcvBuf = True"
| "setting_up _ = False"

definition counted :: "Worker_Zc \<Rightarrow> os \<Rightarrow> bool" where
  "counted t w \<longleftrightarrow>
     z_sending_counter t = zc_sends_made w \<and> z_last_sending_counter t = zc_sends_acked w \<and>
     (setting_up (w_pc t) \<longrightarrow> zc_sends_made w = 0 \<and> zc_sends_acked w = 0)"

lemma counted_quiet: "counted t w \<Longrightarrow> quiet w w' \<Longrightarrow> w_pc t' = w_pc t \<or> \<not> setting_up (w_pc t') \<or> setting_up (w_pc t) \<Longrightarrow>
   z_sending_counter t' = z_sending_counter t \<Longrightarrow> z_last_sending_counter t' = z_last_sending_counter t \<Longrightarrow> counted t' w'"
  using quiet_counts [of w w'] by (auto simp: counted_def)

lemma shared_step_same:
  assumes "worker_step zc_codes True W_ZcLoop (d, t, w) = (d', t', w')"
  shows "answer w' = answer w" "errqueue w' = errqueue w"
  by (subst worker_step_os [OF assms], simp)+

lemma shared_step_quiet:
  assumes "worker_step zc_codes True W_ZcLoop (d, t, w) = (d', t', w')" and "w_pc t \<noteq> W_Send"
  shows "quiet w w'" and "setting_up (w_pc t') \<Longrightarrow> setting_up (w_pc t)"
proof -
  have "log w' = log w @ [] \<or> (\<exists>e. log w' = log w @ [e] \<and> \<not> traced e)"
  proof (cases "w_pc t")
    case W_Sendfile
    have "log w1 = log w @ [SendfileCall fd f n m]" if "sendfile_call fd f n m w = (x, y, w1)" for fd f n m x y w1
      using that by (auto simp: sendfile_call_eq Let_def)
    with assms(1) W_Sendfile show ?thesis by (fastforce simp: worker_defs split: prod.splits if_splits)
  qed (use assms in \<open>auto simp: worker_defs Let_def split: worker_splits\<close>)
  with shared_step_same [OF assms(1)] show "quiet w w'" by (auto intro: quiet_same quiet_log)
  show "setting_up (w_pc t') \<Longrightarrow> setting_up (w_pc t)"
    using assms by (cases "w_pc t") (auto simp: worker_defs Let_def split: worker_splits)
qed

lemma shared_step_counted:
  assumes "worker_step zc_codes True W_ZcLoop (d, t, w) = (d', t', w')" and "counted t w" and "w_pc t \<noteq> W_Send"
  shows "counted t' w'"
  by (rule counted_quiet [OF assms(2) shared_step_quiet(1) [OF assms(1,3)]])
    (use shared_step_quiet(2) [OF assms(1,3)] worker_step_more [OF assms(1)] in auto)

lemma send_counts:
  assumes "log w' = log w @ [SendCall fd b n True]" and "answer w' = answer w" and "errqueue w' = errqueue w"
  shows "zc_sends_made w' = zc_sends_made w + 1" "zc_sends_acked w' = zc_sends_acked w"
  using zc_acks_frame [OF assms(2,3)] assms(1) by (simp_all add: zc_sends_made_def zc_sends_acked_def)

lemma step_counted:
  assumes "tcp_zc_worker_step (d, t, w) = (d', t', w')" and "counted t w"
  shows "counted t' w'"
proof (cases "w_pc t")
  case W_Send
  obtain d1 t1 w1 where s: "worker_step zc_codes True W_ZcLoop (d, t, w) = (d1, t1, w1)"
    by (cases "worker_step zc_codes True W_ZcLoop (d, t, w)")
  note m = worker_step_more [OF s]
  have "w1 = w \<and> w_remaining t = 0 \<or>
      (\<exists>fd b n. log w1 = log w @ [SendCall fd b n True]) \<and> w_remaining t \<noteq> 0"
    and "\<not> setting_up (w_pc t1)"
    using s W_Send by (auto simp: worker_defs send_call_eq Let_def split: if_splits)
  then show ?thesis
    using assms s W_Send m send_counts [OF _ shared_step_same [OF s]]
    by (auto simp: tcp_zc_worker_step_def counted_def)
next
  case W_ZcRecv
  let ?n = "length (log w)" and ?w = "w\<lparr>log := log w @ [RecvmsgCall (sock_fd d)]\<rparr>"
  have c: "zc_sends_made ?w = zc_sends_made w" "zc_sends_acked ?w = zc_sends_acked w + acked_by w ?n"
    using zc_acks_frame [of ?w w] by (simp_all add: zc_sends_made_def zc_sends_acked_def acked_by_def)
  from assms W_ZcRecv c show ?thesis
    by (auto simp: zc_step_defs counted_def acked_by_def split: if_splits)
next
  case W_ZcLoop
  with assms show ?thesis by (auto simp: zc_step_defs counted_def split: if_splits)
next
  case W_ZcPoll
  have "quiet w (w\<lparr>log := log w @ [PollCall (sock_fd d)]\<rparr>)" by (rule quiet_log [where es = "[PollCall (sock_fd d)]"]) simp_all
  with assms(1) W_ZcPoll have "quiet w w'" "\<not> setting_up (w_pc t')" "z_sending_counter t' = z_sending_counter t"
    "z_last_sending_counter t' = z_last_sending_counter t"
    by (auto simp: zc_step_defs split: if_splits)
  with assms(2) show ?thesis by (auto intro: counted_quiet)
next
  case W_RcvBuf
  obtain d1 t1 w1 where s: "worker_step zc_codes True W_ZcLoop (d, t, w) = (d1, t1, w1)"
    by (cases "worker_step zc_codes True W_ZcLoop (d, t, w)")
  from shared_step_quiet(1) [OF s] W_RcvBuf have "quiet w w1" by simp
  from quiet_counts [OF this] assms s W_RcvBuf show ?thesis by (auto simp: tcp_zc_worker_step_def counted_def)
qed (use assms shared_step_counted in \<open>simp_all add: tcp_zc_worker_step_def\<close>)

lemma start_counted: "log w' = log w @ [PthreadCreate] \<Longrightarrow> counted tcp_zc_worker_start w'"
  by (simp add: counted_def tcp_zc_worker_start_def zc_sends_made_def zc_sends_acked_def)

interpretation zc_trace: thread_trace tcp_zc_class zc_code_of NO_ERROR acknowledged zc_extra counted
proof (intro thread_trace.intro zc.sender_thread_axioms thread_trace_axioms.intro, unfold tcp_zc_class_simps)
  show "tcp_zc_worker_step (d, t, w) = (d', t', w') \<Longrightarrow> counted t w \<Longrightarrow> counted t' w'" for d t w d' t' w'
    by (rule step_counted)
  show "quiet w w' \<Longrightarrow> counted t w \<Longrightarrow> counted t w'" for w w' t
    by (rule counted_quiet) simp_all
  show "log w' = log w @ [PthreadCreate] \<Longrightarrow> counted tcp_zc_worker_start w'" for w w'
    by (rule start_counted)
qed

text \<open>After every history of calls, the counters of the thread are what the log says.\<close>

lemma zc_counters:
  assumes "do_calls tcp_zc_class cs (TCPSenderZC_ctor port, w0) = Some (s, w)"
  shows "zc_trace.traces s w"
  by (rule zc_trace.traces_calls [OF assms])
    (simp add: zc_trace.traces_no_thread TCPSenderZC_ctor_def Sender_ctor_def)

lemma zc_acknowledged:
  assumes "zc_trace.traces s w" and "zc_inv s" and "is_done (s_shared_data s)" and "s_initialized s"
  shows "zc_sends_made w \<le> zc_sends_acked w \<and>
    (\<exists>t. s_worker_thread s = Some t \<and> z_sending_counter t = zc_sends_made w \<and> z_last_sending_counter t = zc_sends_acked w)"
proof -
  from assms(2,4) obtain t where t: "s_worker_thread s = Some t" "acknowledged (s_shared_data s) t"
    by (auto simp: sender_inv_def thread_wf_def Let_def split: option.splits)
  with assms(1) have "counted t w" by (simp add: zc_trace.traces_def)
  with t assms(3) show ?thesis by (auto simp: counted_def acknowledged_def)
qed

end
