(* ===== verification/Sender_Properties.thy ===== *)
theory Sender_Properties
  imports Tcp_Sender Zero_Copy_Trace
begin

text \<open>
  The properties of the two senders, over the facts of the interpretations \<open>tcp\<close> and \<open>zc\<close> of
  the contract of a sender with a worker thread, each applied to concrete runs of both threads.
\<close>

section \<open>A concrete machine\<close>

lemma holds_Some: "(case x of None \<Rightarrow> False | Some y \<Rightarrow> P y) \<longleftrightarrow> (\<exists>y. x = Some y \<and> P y)"
  by (simp split: option.splits)

lemma holds_triple: "(case x of (a, b, c) \<Rightarrow> P a b c) \<longleftrightarrow> (\<exists>a b c. x = (a, b, c) \<and> P a b c)"
  by (simp split: prod.splits)

lemmas holds = holds_Some holds_triple split_paired_Ex prod.case

text \<open>
  Every call succeeds, \<^verbatim>\<open>send\<close> takes two bytes at a time, the byte at an address is the address
  modulo 256, and each notification of the kernel acknowledges one call of \<^verbatim>\<open>send\<close>. The worker
  makes 30 steps at each turn.
\<close>

definition server_os :: os where
  "server_os = demo_os\<lparr>memory := (\<lambda>p. word_of_int (uint p)),
     addrinfos := [\<lparr>ai_family = 2, ai_socktype = 1, ai_protocol = 0\<rparr>],
     answer := (\<lambda>n. if n < 21 then 0 else if n = 23 \<or> n = 25 then 1 else 2), schedule := (\<lambda>_. 30),
     revents := (\<lambda>_. 8),
     errqueue := (\<lambda>_. \<lparr>msg_flags = 0, msg_first = Some \<lparr>cmsg_level = 0, cmsg_type = 11,
       ee_origin = 5, ee_info = 0, ee_data = 0\<rparr>\<rparr>)\<rparr>"

definition hello :: "DataPacket list" where
  "hello = [\<lparr>data_ptr_type = DATA_PTR_MEMORY_LOCATION, data_ptr = 5, data_size = 3, data_offset = 1\<rparr>]"

definition demo_lists :: "(ptr \<times> DataPacket list \<times> uint_fast32 list) list" where
  "demo_lists = [(1000, hello, []), (1000, [], [])]"

definition tcp_ready :: "TCPSender \<times> os" where
  "tcp_ready = snd (the (TCPSender_initialize (TCPSender_ctor 80, server_os)))"

definition zc_ready :: "TCPSenderZC \<times> os" where
  "zc_ready = snd (the (TCPSenderZC_initialize (TCPSenderZC_ctor 80, server_os)))"

lemma tcp_ready_eq: "TCPSender_initialize (TCPSender_ctor 80, server_os) = Some (True, tcp_ready)"
proof -
  have "case TCPSender_initialize (TCPSender_ctor 80, server_os) of Some (b, _) \<Rightarrow> b | None \<Rightarrow> False" by code_simp
  then show ?thesis by (auto simp: tcp_ready_def split: option.splits)
qed

lemma zc_ready_eq: "TCPSenderZC_initialize (TCPSenderZC_ctor 80, server_os) = Some (True, zc_ready)"
proof -
  have "case TCPSenderZC_initialize (TCPSenderZC_ctor 80, server_os) of Some (b, _) \<Rightarrow> b | None \<Rightarrow> False" by code_simp
  then show ?thesis by (auto simp: zc_ready_def split: option.splits)
qed

lemma server_os_simps [simp]:
  "clock server_os = demo_clock" "reads server_os = 0" "wire server_os = []" "lists server_os = (\<lambda>_. [])"
  "schedule server_os = (\<lambda>_. 30)"
  by (simp_all add: server_os_def demo_os_def)

lemma demo_clock_steps: "clock_steps (10 ^ 6) demo_clock"
  by (auto simp: clock_steps_def demo_clock_def ts_ns_ns_ts min_def)

lemma ctor_invs: "tcp_inv (TCPSender_ctor port)" "zc_inv (TCPSenderZC_ctor port)"
  by (simp_all only: TCPSender_ctor_def TCPSenderZC_ctor_def tcp.ctor_inv zc.ctor_inv)

lemmas tcp_reached = tcp.do_calls_inv [OF _ ctor_invs(1)]
lemmas zc_reached = zc.do_calls_inv [OF _ ctor_invs(2)]
lemmas tcp_init_result = tcp.initialize_result [folded TCPSender_initialize_def]
lemmas zc_init_result = zc.initialize_result [folded TCPSenderZC_initialize_def]

lemma ready_facts:
  "tcp_inv (fst tcp_ready)" "clock (snd tcp_ready) = demo_clock" "fair (snd tcp_ready)"
  "zc_inv (fst zc_ready)" "clock (snd zc_ready) = demo_clock" "fair (snd zc_ready)"
proof -
  obtain s w where t: "tcp_ready = (s, w)" by (cases tcp_ready)
  from tcp_init_result [OF tcp_ready_eq [unfolded t] ctor_invs(1)]
  show "tcp_inv (fst tcp_ready)" "clock (snd tcp_ready) = demo_clock" "fair (snd tcp_ready)"
    unfolding t by (auto simp: thread_frameD fair_def)
next
  obtain s w where t: "zc_ready = (s, w)" by (cases zc_ready)
  from zc_init_result [OF zc_ready_eq [unfolded t] ctor_invs(2)]
  show "zc_inv (fst zc_ready)" "clock (snd zc_ready) = demo_clock" "fair (snd zc_ready)"
    unfolding t by (auto simp: thread_frameD fair_def)
qed

section \<open>Delivery\<close>

text \<open>
  C2: A \<^verbatim>\<open>TCPSender\<close>, in whatever state earlier calls left it, is initialised and then given
  one list after the other, each when the one before was reported as sent: when the last one is
  reported, the bytes on the wire are exactly the payloads of the lists, in order, whatever the
  interleaving of the two threads and however the kernel splits the transfers.
\<close>

theorem tcp_delivers:
  assumes "do_calls tcp_class cs (TCPSender_ctor port, w0) = Some (s0, w1)"
    and "TCPSender_initialize (s0, w1) = Some (True, s, w)" and "send_lists tcp_class xs (s, w) = Some (s', w')"
  shows "wire w' = wire w @ concat (map (\<lambda>(_, ps, _). payload w ps) xs)"
  using tcp_init_result [OF assms(2) tcp_reached [OF assms(1)]] tcp.send_lists_result [OF assms(3)] by simp

theorem tcp_delivers_witness:
  "\<exists>s' w'. send_lists tcp_class demo_lists tcp_ready = Some (s', w') \<and>
     wire w' = wire (snd tcp_ready) @ concat (map (\<lambda>(_, ps, _). payload (snd tcp_ready) ps) demo_lists) \<and> wire w' = [6, 7, 8]"
proof -
  have "case send_lists tcp_class demo_lists tcp_ready of Some (s', w') \<Rightarrow> wire w' = [6, 7, 8] | None \<Rightarrow> False"
    by code_simp
  then obtain s' w' where s: "send_lists tcp_class demo_lists (fst tcp_ready, snd tcp_ready) = Some (s', w')"
    and w: "wire w' = [6, 7, 8]" by (auto split: option.splits)
  have "do_calls tcp_class [] (TCPSender_ctor 80, server_os) = Some (TCPSender_ctor 80, server_os)" by simp
  from tcp_delivers [OF this _ s] tcp_ready_eq s w show ?thesis by simp
qed

text \<open>
  C3: Likewise for a \<^verbatim>\<open>TCPSenderZC\<close>; in addition, when the last list is reported, the kernel has
  acknowledged every call of \<^verbatim>\<open>send\<close> with \<^verbatim>\<open>MSG_ZEROCOPY\<close> in the log since the thread was
  created: the notifications read since then cover at least as many calls as were made, so the
  application may write its buffers again. The two counters of the thread hold exactly these two
  numbers (they are \<^verbatim>\<open>int\<close>s: as long as the numbers are below \<open>2 ^ 31\<close>).
\<close>

theorem zc_delivers:
  assumes "do_calls tcp_zc_class cs (TCPSenderZC_ctor port, w0) = Some (s0, w1)"
    and "TCPSenderZC_initialize (s0, w1) = Some (True, s, w)" and "send_lists tcp_zc_class xs (s, w) = Some (s', w')"
  shows "wire w' = wire w @ concat (map (\<lambda>(_, ps, _). payload w ps) xs) \<and>
    zc_sends_made w' \<le> zc_sends_acked w' \<and>
    (\<exists>t. s_worker_thread s' = Some t \<and> z_sending_counter t = zc_sends_made w' \<and> z_last_sending_counter t = zc_sends_acked w')"
proof -
  have i: "zc_inv s" "is_done (s_shared_data s)" "s_initialized s"
    using zc_init_result [OF assms(2) zc_reached [OF assms(1)]] by auto
  note r = zc.send_lists_result [OF assms(3) i(1,2)]
  have "zc_trace.traces s w"
    using zc_trace.traces_initialize [OF _ zc_counters [OF assms(1)]] assms(2) by (simp add: TCPSenderZC_initialize_def)
  from zc_trace.traces_lists [OF assms(3) this] zc_acknowledged [of s' w'] r i(3) show ?thesis by simp
qed

theorem zc_delivers_witness:
  "\<exists>s' w'. send_lists tcp_zc_class demo_lists zc_ready = Some (s', w') \<and>
     wire w' = wire (snd zc_ready) @ concat (map (\<lambda>(_, ps, _). payload (snd zc_ready) ps) demo_lists) \<and>
     wire w' = [6, 7, 8] \<and> zc_sends_made w' = 2 \<and> zc_sends_made w' \<le> zc_sends_acked w'"
proof -
  have "case send_lists tcp_zc_class demo_lists zc_ready of
      Some (s', w') \<Rightarrow> wire w' = [6, 7, 8] \<and> zc_sends_made w' = 2
    | None \<Rightarrow> False"
    by code_simp
  then obtain s' w' where s: "send_lists tcp_zc_class demo_lists (fst zc_ready, snd zc_ready) = Some (s', w')"
    and w: "wire w' = [6, 7, 8]" "zc_sends_made w' = 2"
    by (auto split: option.splits)
  have "do_calls tcp_zc_class [] (TCPSenderZC_ctor 80, server_os) = Some (TCPSenderZC_ctor 80, server_os)" by simp
  from zc_delivers [OF this _ s] zc_ready_eq s w show ?thesis by simp
qed

section \<open>Parts of a list, errors, and the end\<close>

text \<open>The machine with the list \<open>hello\<close> stored at every address.\<close>

abbreviation hello_store :: sender_call where
  "hello_store \<equiv> Store (memory server_os) (\<lambda>_. hello)"

text \<open>
  C6: At any time after a list was accepted, however often the application asks, what is on the
  wire of a \<^verbatim>\<open>TCPSender\<close> is what was there before and a beginning of the payload of the list,
  also when the thread gives up because of an error; and all of it when the answer is true.
\<close>

theorem tcp_prefix:
  assumes "do_calls tcp_class cs (TCPSender_ctor port, w0) = Some (s0, w1)"
    and "TCPSender_is_send_done (s0, w1) = (True, s, w)" and "TCPSender_send a (s, w) = Some (True, s1, w2)"
    and "poll_done tcp_class naps (s1, w2) = Some (b, s', w')"
  shows "prefix (wire w) (wire w') \<and> prefix (wire w') (wire w @ payload w (lists w a)) \<and>
    (b \<longrightarrow> wire w' = wire w @ payload w (lists w a))"
  using tcp.send_poll_prefix [OF _ _ _ assms(4)] tcp_reached [OF assms(1)] assms(2,3)
  by (simp add: TCPSender_is_send_done_def TCPSender_send_def)

theorem tcp_prefix_witness:
  "\<exists>s w s1 w2 s' w'. TCPSender_send 1000 (s, w) = Some (True, s1, w2) \<and>
     poll_done tcp_class [] (s1, w2) = Some (True, s', w') \<and> wire w' = wire w @ payload w (lists w 1000) \<and> wire w' = [6, 7, 8]"
proof -
  let ?sw = "do_calls tcp_class [Initialize, hello_store] (TCPSender_ctor 80, server_os)"
  have "case ?sw of None \<Rightarrow> False | Some sw \<Rightarrow>
      (case TCPSender_is_send_done sw of (b, s, w) \<Rightarrow> b \<and>
      (case TCPSender_send 1000 (s, w) of None \<Rightarrow> False | Some (c, s1, w2) \<Rightarrow> c \<and>
        (case poll_done tcp_class [] (s1, w2) of None \<Rightarrow> False | Some (d, s', w') \<Rightarrow> d \<and> wire w' = [6, 7, 8])))"
    by code_simp
  then obtain s0 w0 s w s1 w2 s' w' where h: "?sw = Some (s0, w0)"
    and 1: "TCPSender_is_send_done (s0, w0) = (True, s, w)" and 2: "TCPSender_send 1000 (s, w) = Some (True, s1, w2)"
    and 3: "poll_done tcp_class [] (s1, w2) = Some (True, s', w')" and w: "wire w' = [6, 7, 8]"
    by (auto simp only: holds)
  from tcp_prefix [OF h 1 2 3] 2 3 w show ?thesis by blast
qed

text \<open>
  C7: At any time after a list was accepted, however often the application asks, what is on the
  wire of a \<^verbatim>\<open>TCPSenderZC\<close> is what was there before and a beginning of the payload of the list,
  also when the thread gives up because of an error; and all of it when the answer is true.
\<close>

theorem zc_prefix:
  assumes "do_calls tcp_zc_class cs (TCPSenderZC_ctor port, w0) = Some (s0, w1)"
    and "TCPSenderZC_is_send_done (s0, w1) = (True, s, w)" and "TCPSenderZC_send a (s, w) = Some (True, s1, w2)"
    and "poll_done tcp_zc_class naps (s1, w2) = Some (b, s', w')"
  shows "prefix (wire w) (wire w') \<and> prefix (wire w') (wire w @ payload w (lists w a)) \<and>
    (b \<longrightarrow> wire w' = wire w @ payload w (lists w a))"
  using zc.send_poll_prefix [OF _ _ _ assms(4)] zc_reached [OF assms(1)] assms(2,3)
  by (simp add: TCPSenderZC_is_send_done_def TCPSenderZC_send_def)

theorem zc_prefix_witness:
  "\<exists>s w s1 w2 s' w'. TCPSenderZC_send 1000 (s, w) = Some (True, s1, w2) \<and>
     poll_done tcp_zc_class [] (s1, w2) = Some (True, s', w') \<and> wire w' = wire w @ payload w (lists w 1000) \<and> wire w' = [6, 7, 8]"
proof -
  let ?sw = "do_calls tcp_zc_class [Initialize, hello_store] (TCPSenderZC_ctor 80, server_os)"
  have "case ?sw of None \<Rightarrow> False | Some sw \<Rightarrow>
      (case TCPSenderZC_is_send_done sw of (b, s, w) \<Rightarrow> b \<and>
      (case TCPSenderZC_send 1000 (s, w) of None \<Rightarrow> False | Some (c, s1, w2) \<Rightarrow> c \<and>
        (case poll_done tcp_zc_class [] (s1, w2) of None \<Rightarrow> False | Some (d, s', w') \<Rightarrow> d \<and> wire w' = [6, 7, 8])))"
    by code_simp
  then obtain s0 w0 s w s1 w2 s' w' where h: "?sw = Some (s0, w0)"
    and 1: "TCPSenderZC_is_send_done (s0, w0) = (True, s, w)" and 2: "TCPSenderZC_send 1000 (s, w) = Some (True, s1, w2)"
    and 3: "poll_done tcp_zc_class [] (s1, w2) = Some (True, s', w')" and w: "wire w' = [6, 7, 8]"
    by (auto simp only: holds)
  from zc_prefix [OF h 1 2 3] 2 3 w show ?thesis by blast
qed

text \<open>
  C8: After \<^verbatim>\<open>end_sender\<close> of a \<^verbatim>\<open>TCPSender\<close> (in whatever state) the object is not initialised, its
  thread has ended, both descriptors are -1 and its error is as before; and until the next
  \<^verbatim>\<open>initialize\<close> no call of any method puts a byte on the wire or changes that.
\<close>

theorem tcp_silent_after_end:
  assumes "do_calls tcp_class cs (TCPSender_ctor port, w0) = Some (s, w)"
    and "TCPSender_end_sender (s, w) = Some (r, s1, w1)"
    and "do_calls tcp_class cs' (s1, w1) = Some (s2, w2)" and "Initialize \<notin> set cs'"
  shows "r \<and> ended s1 \<and> s_error_handler s1 = s_error_handler s \<and> ended s2 \<and> wire w2 = wire w1"
  using tcp.end_sender_result [of s w r s1 w1] tcp.ended_calls [OF assms(3) _ _ assms(4)] tcp_reached [OF assms(1)] assms(2)
  by (simp add: TCPSender_end_sender_def)

theorem tcp_silent_after_end_witness:
  "\<exists>s1 w1 s2 w2. TCPSender_end_sender tcp_ready = Some (True, s1, w1) \<and>
     do_calls tcp_class [Send 1000, Is_Send_Done, End_Sender, Get_Error] (s1, w1) = Some (s2, w2) \<and>
     ended s2 \<and> wire w2 = wire w1"
proof -
  have "case TCPSender_end_sender tcp_ready of None \<Rightarrow> False | Some (r, s1, w1) \<Rightarrow>
      do_calls tcp_class [Send 1000, Is_Send_Done, End_Sender, Get_Error] (s1, w1) \<noteq> None"
    by code_simp
  then obtain r s1 w1 s2 w2 where 1: "TCPSender_end_sender (fst tcp_ready, snd tcp_ready) = Some (r, s1, w1)"
    and 2: "do_calls tcp_class [Send 1000, Is_Send_Done, End_Sender, Get_Error] (s1, w1) = Some (s2, w2)"
    by (auto split: option.splits)
  have "do_calls tcp_class [Initialize] (TCPSender_ctor 80, server_os) = Some (fst tcp_ready, snd tcp_ready)"
    using tcp_ready_eq by (simp add: TCPSender_initialize_def)
  from tcp_silent_after_end [OF this 1 2] 1 2 show ?thesis by auto
qed

text \<open>
  C9: After \<^verbatim>\<open>end_sender\<close> of a \<^verbatim>\<open>TCPSenderZC\<close> (in whatever state) the object is not initialised, its
  thread has ended, both descriptors are -1 and its error is as before; and until the next
  \<^verbatim>\<open>initialize\<close> no call of any method puts a byte on the wire or changes that.
\<close>

theorem zc_silent_after_end:
  assumes "do_calls tcp_zc_class cs (TCPSenderZC_ctor port, w0) = Some (s, w)"
    and "TCPSenderZC_end_sender (s, w) = Some (r, s1, w1)"
    and "do_calls tcp_zc_class cs' (s1, w1) = Some (s2, w2)" and "Initialize \<notin> set cs'"
  shows "r \<and> ended s1 \<and> s_error_handler s1 = s_error_handler s \<and> ended s2 \<and> wire w2 = wire w1"
  using zc.end_sender_result [of s w r s1 w1] zc.ended_calls [OF assms(3) _ _ assms(4)] zc_reached [OF assms(1)] assms(2)
  by (simp add: TCPSenderZC_end_sender_def)

theorem zc_silent_after_end_witness:
  "\<exists>s1 w1 s2 w2. TCPSenderZC_end_sender zc_ready = Some (True, s1, w1) \<and>
     do_calls tcp_zc_class [Send 1000, Is_Send_Done, End_Sender, Get_Error] (s1, w1) = Some (s2, w2) \<and>
     ended s2 \<and> wire w2 = wire w1"
proof -
  have "case TCPSenderZC_end_sender zc_ready of None \<Rightarrow> False | Some (r, s1, w1) \<Rightarrow>
      do_calls tcp_zc_class [Send 1000, Is_Send_Done, End_Sender, Get_Error] (s1, w1) \<noteq> None"
    by code_simp
  then obtain r s1 w1 s2 w2 where 1: "TCPSenderZC_end_sender (fst zc_ready, snd zc_ready) = Some (r, s1, w1)"
    and 2: "do_calls tcp_zc_class [Send 1000, Is_Send_Done, End_Sender, Get_Error] (s1, w1) = Some (s2, w2)"
    by (auto split: option.splits)
  have "do_calls tcp_zc_class [Initialize] (TCPSenderZC_ctor 80, server_os) = Some (fst zc_ready, snd zc_ready)"
    using zc_ready_eq by (simp add: TCPSenderZC_initialize_def)
  from zc_silent_after_end [OF this 1 2] 1 2 show ?thesis by auto
qed

text \<open>
  C10: \<^verbatim>\<open>end_sender\<close> of a \<^verbatim>\<open>TCPSender\<close> returns, in whatever state earlier calls left the object and
  the thread: when the thread makes a step between two accesses of the main thread, the clock runs
  with steps of at most \<open>b\<close> and is far enough from its end (146 years) for as many naps of 50 ms as
  the thread has steps left.
\<close>

theorem tcp_end_returns:
  assumes "do_calls tcp_class cs (TCPSender_ctor port, w0) = Some (s, w)"
    and "fair w" and "clock_runs (clock w)" and "clock_steps b (clock w)"
    and "ts_ns (clock w (reads w)) + int (end_rounds (\<lambda>_. 0) tcp_class (s, w)) * (50 * 10 ^ 6 + 2 * b) < 2 ^ 62"
  shows "\<exists>s' w'. TCPSender_end_sender (s, w) = Some (True, s', w')"
proof -
  note i = tcp_reached [OF assms(1)]
  from tcp.end_sender_returns [OF i assms(2-5)] obtain r s' w'
    where "TCPSender_end_sender (s, w) = Some (r, s', w')" by (auto simp: TCPSender_end_sender_def)
  with tcp.end_sender_result [of s w r s' w'] i show ?thesis by (simp add: TCPSender_end_sender_def)
qed

theorem tcp_end_returns_witness: "\<exists>s' w'. TCPSender_end_sender (fst tcp_ready, snd tcp_ready) = Some (True, s', w')"
proof -
  have n: "end_rounds (\<lambda>_. 0) tcp_class (fst tcp_ready, snd tcp_ready) = 9" "reads (snd tcp_ready) = 0" by code_simp+
  have h: "do_calls tcp_class [Initialize] (TCPSender_ctor 80, server_os) = Some (fst tcp_ready, snd tcp_ready)"
    using tcp_ready_eq by (simp add: TCPSender_initialize_def)
  from n have "ts_ns (clock (snd tcp_ready) (reads (snd tcp_ready))) +
      int (end_rounds (\<lambda>_. 0) tcp_class (fst tcp_ready, snd tcp_ready)) * (50 * 10 ^ 6 + 2 * 10 ^ 6) < 2 ^ 62"
    by (simp add: ready_facts demo_clock_def ts_ns_ns_ts)
  with tcp_end_returns [OF h, of "10 ^ 6"] show ?thesis
    by (simp only: ready_facts clock_runs_demo demo_clock_steps)
qed

text \<open>
  C11: \<^verbatim>\<open>end_sender\<close> of a \<^verbatim>\<open>TCPSenderZC\<close> returns, in whatever state earlier calls left the object and
  the thread: when the thread makes a step between two accesses of the main thread, the clock runs
  with steps of at most \<open>b\<close> and is far enough from its end (146 years) for as many naps of 50 ms as
  the thread has steps left.
\<close>

theorem zc_end_returns:
  assumes "do_calls tcp_zc_class cs (TCPSenderZC_ctor port, w0) = Some (s, w)"
    and "fair w" and "clock_runs (clock w)" and "clock_steps b (clock w)"
    and "ts_ns (clock w (reads w)) + int (end_rounds zc_extra tcp_zc_class (s, w)) * (50 * 10 ^ 6 + 2 * b) < 2 ^ 62"
  shows "\<exists>s' w'. TCPSenderZC_end_sender (s, w) = Some (True, s', w')"
proof -
  note i = zc_reached [OF assms(1)]
  from zc.end_sender_returns [OF i assms(2-5)] obtain r s' w'
    where "TCPSenderZC_end_sender (s, w) = Some (r, s', w')" by (auto simp: TCPSenderZC_end_sender_def)
  with zc.end_sender_result [of s w r s' w'] i show ?thesis by (simp add: TCPSenderZC_end_sender_def)
qed

theorem zc_end_returns_witness: "\<exists>s' w'. TCPSenderZC_end_sender (fst zc_ready, snd zc_ready) = Some (True, s', w')"
proof -
  have n: "end_rounds zc_extra tcp_zc_class (fst zc_ready, snd zc_ready) = 9" "reads (snd zc_ready) = 0" by code_simp+
  have h: "do_calls tcp_zc_class [Initialize] (TCPSenderZC_ctor 80, server_os) = Some (fst zc_ready, snd zc_ready)"
    using zc_ready_eq by (simp add: TCPSenderZC_initialize_def)
  from n have "ts_ns (clock (snd zc_ready) (reads (snd zc_ready))) +
      int (end_rounds zc_extra tcp_zc_class (fst zc_ready, snd zc_ready)) * (50 * 10 ^ 6 + 2 * 10 ^ 6) < 2 ^ 62"
    by (simp add: ready_facts demo_clock_def ts_ns_ns_ts)
  with zc_end_returns [OF h, of "10 ^ 6"] show ?thesis
    by (simp only: ready_facts clock_runs_demo demo_clock_steps)
qed

text \<open>
  C12: Every history of calls keeps the invariant of a \<^verbatim>\<open>TCPSender\<close> and its thread: the mutex is
  free or held by the worker in its critical section, the flags agree with the place of the
  thread, no list is waiting while one is being sent, an initialised object has a started thread that
  was not told to end, and one that is not has none that runs.
\<close>

theorem tcp_invariant:
  assumes "do_calls tcp_class cs (TCPSender_ctor port, w) = Some (s, w')"
  shows "tcp_inv s"
  by (rule tcp_reached [OF assms])

theorem tcp_invariant_witness: "tcp_inv (fst tcp_ready)"
proof -
  have "do_calls tcp_class [Initialize] (TCPSender_ctor 80, server_os) = Some (fst tcp_ready, snd tcp_ready)"
    using tcp_ready_eq by (simp add: TCPSender_initialize_def)
  then show ?thesis by (rule tcp_invariant)
qed

text \<open>
  C13: Every history of calls keeps the invariant of a \<^verbatim>\<open>TCPSenderZC\<close> and its thread: the mutex is
  free or held by the worker in its critical section, the flags agree with the place of the
  thread, no list is waiting while one is being sent, an initialised object has a started thread that
  was not told to end, and one that is not has none that runs.
\<close>

theorem zc_invariant:
  assumes "do_calls tcp_zc_class cs (TCPSenderZC_ctor port, w) = Some (s, w')"
  shows "zc_inv s"
  by (rule zc_reached [OF assms])

theorem zc_invariant_witness: "zc_inv (fst zc_ready)"
proof -
  have "do_calls tcp_zc_class [Initialize] (TCPSenderZC_ctor 80, server_os) = Some (fst zc_ready, snd zc_ready)"
    using zc_ready_eq by (simp add: TCPSenderZC_initialize_def)
  then show ?thesis by (rule zc_invariant)
qed

text \<open>
  C25: When \<^verbatim>\<open>send\<close> of a \<^verbatim>\<open>TCPSender\<close> refuses a list there is an error to be fetched, and the
  switch on the worker's error code never reaches its default: a thread that ended with an error
  has reported one of its codes. The object stays as initialised as it was.
\<close>

theorem tcp_send_refused:
  assumes "do_calls tcp_class cs (TCPSender_ctor port, w0) = Some (s, w)" and "TCPSender_send a (s, w) = Some (False, s', w')"
  shows "TCPSender_is_error s' \<and> fst (TCPSender_get_error s') \<noteq> ''Unknown error in sender worker thread.'' \<and>
    s_initialized s' = s_initialized s \<and>
    (\<not> s_initialized s \<longrightarrow> fst (TCPSender_get_error s') = ''You must initialize the sender object first'')"
proof -
  have "\<not> s_initialized s \<Longrightarrow> s' = set_error ''You must initialize the sender object first'' s"
    using assms(2) by (simp add: TCPSender_send_def send_def)
  with tcp.send_result [of a s w False s' w'] tcp_reached [OF assms(1)] assms(2) show ?thesis
    by (auto simp: TCPSender_send_def TCPSender_is_error_def TCPSender_get_error_def is_error_pending_def get_error_def)
qed

theorem tcp_send_refused_witness:
  "\<exists>s' w'. TCPSender_send 0 (TCPSender_ctor 80, server_os) = Some (False, s', w') \<and>
     fst (TCPSender_get_error s') = ''You must initialize the sender object first''"
proof -
  have h: "do_calls tcp_class [] (TCPSender_ctor 80, server_os) = Some (TCPSender_ctor 80, server_os)" by simp
  have n: "\<not> s_initialized (TCPSender_ctor 80)" by (simp add: TCPSender_ctor_def Sender_ctor_def)
  then obtain s' w' where s: "TCPSender_send 0 (TCPSender_ctor 80, server_os) = Some (False, s', w')"
    by (simp add: TCPSender_send_def send_def)
  from tcp_send_refused [OF h s] n s show ?thesis by blast
qed

text \<open>
  C26: When \<^verbatim>\<open>send\<close> of a \<^verbatim>\<open>TCPSenderZC\<close> refuses a list there is an error to be fetched, and the
  switch on the worker's error code never reaches its default: a thread that ended with an error
  has reported one of its codes. The object stays as initialised as it was.
\<close>

theorem zc_send_refused:
  assumes "do_calls tcp_zc_class cs (TCPSenderZC_ctor port, w0) = Some (s, w)" and "TCPSenderZC_send a (s, w) = Some (False, s', w')"
  shows "TCPSenderZC_is_error s' \<and> fst (TCPSenderZC_get_error s') \<noteq> ''Unknown error in sender worker thread.'' \<and>
    s_initialized s' = s_initialized s \<and>
    (\<not> s_initialized s \<longrightarrow> fst (TCPSenderZC_get_error s') = ''You must initialize the sender object first'')"
proof -
  have "\<not> s_initialized s \<Longrightarrow> s' = set_error ''You must initialize the sender object first'' s"
    using assms(2) by (simp add: TCPSenderZC_send_def send_def)
  with zc.send_result [of a s w False s' w'] zc_reached [OF assms(1)] assms(2) show ?thesis
    by (auto simp: TCPSenderZC_send_def TCPSenderZC_is_error_def TCPSenderZC_get_error_def is_error_pending_def get_error_def)
qed

theorem zc_send_refused_witness:
  "\<exists>s' w'. TCPSenderZC_send 0 (TCPSenderZC_ctor 80, server_os) = Some (False, s', w') \<and>
     fst (TCPSenderZC_get_error s') = ''You must initialize the sender object first''"
proof -
  have h: "do_calls tcp_zc_class [] (TCPSenderZC_ctor 80, server_os) = Some (TCPSenderZC_ctor 80, server_os)" by simp
  have n: "\<not> s_initialized (TCPSenderZC_ctor 80)" by (simp add: TCPSenderZC_ctor_def Sender_ctor_def)
  then obtain s' w' where s: "TCPSenderZC_send 0 (TCPSenderZC_ctor 80, server_os) = Some (False, s', w')"
    by (simp add: TCPSenderZC_send_def send_def)
  from zc_send_refused [OF h s] n s show ?thesis by blast
qed

text \<open>
  C27: \<^verbatim>\<open>initialize\<close> of a \<^verbatim>\<open>TCPSender\<close>, called in whatever state: the object is initialised exactly
  when the answer is true, the answer false comes with an error to be fetched, and after the answer
  true no list is on its way and the new thread runs in the invariant.
\<close>

theorem tcp_initialize:
  assumes "do_calls tcp_class cs (TCPSender_ctor port, w0) = Some (s, w)" and "TCPSender_initialize (s, w) = Some (r, s', w')"
  shows "tcp_inv s' \<and> s_initialized s' = r \<and> (r \<longrightarrow> is_done (s_shared_data s') \<and> s_worker_thread s' \<noteq> None) \<and>
    (\<not> r \<longrightarrow> TCPSender_is_error s')"
  using tcp_init_result [OF assms(2) tcp_reached [OF assms(1)]]
  by (auto simp: TCPSender_is_error_def is_error_pending_def sender_inv_def Let_def split: option.splits if_splits)

theorem tcp_initialize_witness:
  "is_done (s_shared_data (fst tcp_ready)) \<and> s_worker_thread (fst tcp_ready) \<noteq> None \<and>
   (\<exists>s w. TCPSender_initialize (TCPSender_ctor 80, server_os\<lparr>addrinfos := []\<rparr>) = Some (False, s, w) \<and> TCPSender_is_error s)"
proof -
  have h: "do_calls tcp_class [] (TCPSender_ctor 80, w) = Some (TCPSender_ctor 80, w)" for w by simp
  have "case TCPSender_initialize (TCPSender_ctor 80, server_os\<lparr>addrinfos := []\<rparr>) of Some (b, _) \<Rightarrow> \<not> b | None \<Rightarrow> False" by code_simp
  then obtain s w where i: "TCPSender_initialize (TCPSender_ctor 80, server_os\<lparr>addrinfos := []\<rparr>) = Some (False, s, w)"
    by (auto split: option.splits)
  have "TCPSender_initialize (TCPSender_ctor 80, server_os) = Some (True, fst tcp_ready, snd tcp_ready)" using tcp_ready_eq by simp
  from tcp_initialize [OF h this] tcp_initialize [OF h i] i show ?thesis by blast
qed

text \<open>
  C28: \<^verbatim>\<open>initialize\<close> of a \<^verbatim>\<open>TCPSenderZC\<close>, called in whatever state: the object is initialised exactly
  when the answer is true, the answer false comes with an error to be fetched, and after the answer
  true no list is on its way and the new thread runs in the invariant.
\<close>

theorem zc_initialize:
  assumes "do_calls tcp_zc_class cs (TCPSenderZC_ctor port, w0) = Some (s, w)" and "TCPSenderZC_initialize (s, w) = Some (r, s', w')"
  shows "zc_inv s' \<and> s_initialized s' = r \<and> (r \<longrightarrow> is_done (s_shared_data s') \<and> s_worker_thread s' \<noteq> None) \<and>
    (\<not> r \<longrightarrow> TCPSenderZC_is_error s')"
  using zc_init_result [OF assms(2) zc_reached [OF assms(1)]]
  by (auto simp: TCPSenderZC_is_error_def is_error_pending_def sender_inv_def Let_def split: option.splits if_splits)

theorem zc_initialize_witness:
  "is_done (s_shared_data (fst zc_ready)) \<and> s_worker_thread (fst zc_ready) \<noteq> None \<and>
   (\<exists>s w. TCPSenderZC_initialize (TCPSenderZC_ctor 80, server_os\<lparr>addrinfos := []\<rparr>) = Some (False, s, w) \<and> TCPSenderZC_is_error s)"
proof -
  have h: "do_calls tcp_zc_class [] (TCPSenderZC_ctor 80, w) = Some (TCPSenderZC_ctor 80, w)" for w by simp
  have "case TCPSenderZC_initialize (TCPSenderZC_ctor 80, server_os\<lparr>addrinfos := []\<rparr>) of Some (b, _) \<Rightarrow> \<not> b | None \<Rightarrow> False" by code_simp
  then obtain s w where i: "TCPSenderZC_initialize (TCPSenderZC_ctor 80, server_os\<lparr>addrinfos := []\<rparr>) = Some (False, s, w)"
    by (auto split: option.splits)
  have "TCPSenderZC_initialize (TCPSenderZC_ctor 80, server_os) = Some (True, fst zc_ready, snd zc_ready)" using zc_ready_eq by simp
  from zc_initialize [OF h this] zc_initialize [OF h i] i show ?thesis by blast
qed

section \<open>When a list is read\<close>



end
