(* ===== verification/System_Properties.thy ===== *)
theory System_Properties
  imports System_Contract Timer_Properties Sender_Properties
begin

text \<open>
  The properties of \<^verbatim>\<open>RealTimeSystem\<close> over the timers and the senders of the library: each of the six
  systems that can be put together keeps the specifications of \<open>System_Contract\<close>.
\<close>

section \<open>The six systems\<close>

abbreviation tcp_fresh :: "TCPSender \<Rightarrow> bool" where
  "tcp_fresh s \<equiv> tcp_inv s \<and> is_done (s_shared_data s)"

abbreviation zc_fresh :: "TCPSenderZC \<Rightarrow> bool" where
  "zc_fresh s \<equiv> zc_inv s \<and> is_done (s_shared_data s)"

interpretation bw_tcp: rt_system BusyWaitTimer_vtable bw_error_handler BusyWaitTimer_view
  TCPSender_vtable s_error_handler tcp_inv s_initialized "\<lambda>s. is_done (s_shared_data s)" ended tcp.accepted_list
  unfolding TCPSender_vtable_def by (intro rt_system.intro bw.tick_timer_axioms tcp.contract.sender_contract_axioms)

interpretation fw_tcp: rt_system FreeWaitTimer_vtable fw_error_handler FreeWaitTimer_view
  TCPSender_vtable s_error_handler tcp_inv s_initialized "\<lambda>s. is_done (s_shared_data s)" ended tcp.accepted_list
  unfolding TCPSender_vtable_def by (intro rt_system.intro fw.tick_timer_axioms tcp.contract.sender_contract_axioms)

interpretation wc_tcp: rt_system WorstCaseTimer_vtable wc_error_handler WorstCaseTimer_view
  TCPSender_vtable s_error_handler tcp_inv s_initialized "\<lambda>s. is_done (s_shared_data s)" ended tcp.accepted_list
  unfolding TCPSender_vtable_def by (intro rt_system.intro wc.tick_timer_axioms tcp.contract.sender_contract_axioms)

interpretation bw_zc: rt_system BusyWaitTimer_vtable bw_error_handler BusyWaitTimer_view
  TCPSenderZC_vtable s_error_handler zc_inv s_initialized "\<lambda>s. is_done (s_shared_data s)" ended zc.accepted_list
  unfolding TCPSenderZC_vtable_def by (intro rt_system.intro bw.tick_timer_axioms zc.contract.sender_contract_axioms)

interpretation fw_zc: rt_system FreeWaitTimer_vtable fw_error_handler FreeWaitTimer_view
  TCPSenderZC_vtable s_error_handler zc_inv s_initialized "\<lambda>s. is_done (s_shared_data s)" ended zc.accepted_list
  unfolding TCPSenderZC_vtable_def by (intro rt_system.intro fw.tick_timer_axioms zc.contract.sender_contract_axioms)

interpretation wc_zc: rt_system WorstCaseTimer_vtable wc_error_handler WorstCaseTimer_view
  TCPSenderZC_vtable s_error_handler zc_inv s_initialized "\<lambda>s. is_done (s_shared_data s)" ended zc.accepted_list
  unfolding TCPSenderZC_vtable_def by (intro rt_system.intro wc.tick_timer_axioms zc.contract.sender_contract_axioms)

section \<open>A concrete system\<close>

text \<open>
  A system at 100 Hz with a tolerance of 1 ms over a \<^verbatim>\<open>BusyWaitTimer\<close> and a \<^verbatim>\<open>TCPSender\<close>; the user
  function hands over the list \<open>hello\<close> twice and asks to stop at the third tick.
\<close>

definition demo_user :: user_fn where
  "demo_user i w = (hello, get_sequence_number i = 2, memory w)"

definition demo_system :: "user_fn \<Rightarrow> bool \<Rightarrow> (BusyWaitTimer, TCPSender) RealTimeSystem" where
  "demo_system f skip =
     skip_mode skip (set_ms_tolerance 1 (snd (set_frequency 100 (snd (set_user_data_fn (Some f)
       (snd (set_sender (Some (TCPSender_ctor 80)) (snd (set_timer (Some (BusyWaitTimer_ctor bw_raw))
         RealTimeSystem_ctor)))))))))"

definition system_os :: os where
  "system_os = server_os\<lparr>answer := (\<lambda>n. if n < 24 then 0 else 2)\<rparr>"

definition demo_start :: "(BusyWaitTimer, TCPSender) rstate" where
  "demo_start = snd (the (RealTimeSystem_initialize BusyWaitTimer_vtable TCPSender_vtable (demo_system demo_user False, system_os)))"

abbreviation bw_tcp_run :: "(BusyWaitTimer, TCPSender) rstate \<Rightarrow> (bool \<times> (BusyWaitTimer, TCPSender) rstate) option" where
  "bw_tcp_run \<equiv> run BusyWaitTimer_vtable TCPSender_vtable 1000"

abbreviation bw_tcp_ticks where
  "bw_tcp_ticks n rw \<equiv> ticks BusyWaitTimer_vtable TCPSender_vtable 1000 n (snd (begin_run BusyWaitTimer_vtable 1000 rw))"

lemma demo_start_eq:
  "RealTimeSystem_initialize BusyWaitTimer_vtable TCPSender_vtable (demo_system demo_user False, system_os) = Some (True, demo_start)"
proof -
  have "case RealTimeSystem_initialize BusyWaitTimer_vtable TCPSender_vtable (demo_system demo_user False, system_os) of
      Some (b, _) \<Rightarrow> b | None \<Rightarrow> False" by code_simp
  then show ?thesis by (auto simp: demo_start_def split: option.splits)
qed

lemma demo_system_simps [simp]:
  "r_sender (demo_system f skip) = Some (TCPSender_ctor 80)" "r_allow_skip_mode (demo_system f skip) = skip"
  "r_frequency (demo_system f skip) = 100" "r_user_app_func (demo_system f skip) = Some f"
  "r_timer (demo_system f skip) = Some (BusyWaitTimer_ctor bw_raw)"
  by (simp_all add: demo_system_def RealTimeSystem_ctor_def set_timer_def set_sender_def set_user_data_fn_def
      set_frequency_def set_ms_tolerance_def skip_mode_def)

lemma demo_start_ready:
  obtains r w s t0 t where "demo_start = (r, w)" "r_initialized r" "\<not> r_allow_skip_mode r" "r_sender r = Some s" "tcp_fresh s"
    "r_timer r = Some t" "tm_set_frequency BusyWaitTimer_vtable 100 t0 = Some (True, t)" "\<not> v_started (BusyWaitTimer_view t0)"
    "clock w = demo_clock"
proof -
  obtain r w where rw: "demo_start = (r, w)" by (cases demo_start)
  have "RealTimeSystem_initialize BusyWaitTimer_vtable TCPSender_vtable (demo_system demo_user False, system_os) = Some (True, r, w)
      \<and> r_sender (demo_system demo_user False) = Some (TCPSender_ctor 80) \<and> tcp_inv (TCPSender_ctor 80)"
    using demo_start_eq rw ctor_invs by simp
  from bw_tcp.system_initializes [unfolded initializes_well_def, rule_format, OF this] that [OF rw] show ?thesis
    by (auto simp: clock_goes_on_def system_os_def)
qed

lemma demo_run:
  obtains r' w' where "bw_tcp_run demo_start = Some (True, r', w')" and "wire w' = [6, 7, 8, 6, 7, 8]"
    and "fst (begin_run BusyWaitTimer_vtable 1000 demo_start)"
proof -
  have "fst (begin_run BusyWaitTimer_vtable 1000 demo_start) \<and>
      (case bw_tcp_run demo_start of None \<Rightarrow> False | Some (b, r', w') \<Rightarrow> b \<and> wire w' = [6, 7, 8, 6, 7, 8])"
    by code_simp
  with that show ?thesis by (auto split: option.splits)
qed

text \<open>
  The same in skip mode, on a machine where the worker thread is not scheduled for a while, so that
  the list of tick 0 is not sent at tick 1; the user function has nothing to send when told of a skip.
\<close>

definition skipping_user :: user_fn where
  "skipping_user i w = (if is_skipped_data i then [] else hello, get_sequence_number i = 2, memory w)"

definition skip_start :: "(BusyWaitTimer, TCPSender) rstate" where
  "skip_start = snd (the (RealTimeSystem_initialize BusyWaitTimer_vtable TCPSender_vtable
     (demo_system skipping_user True, system_os\<lparr>schedule := (\<lambda>n. if 2 < n \<and> n < 16 then 0 else 30)\<rparr>)))"

lemma skip_start_ready:
  obtains r w s where "skip_start = (r, w)" "r_sender r = Some s" "tcp_inv s" "r_timer r \<noteq> None"
proof -
  let ?w = "system_os\<lparr>schedule := (\<lambda>n. if 2 < n \<and> n < 16 then 0 else 30)\<rparr>"
  obtain r w where rw: "skip_start = (r, w)" by (cases skip_start)
  have "case RealTimeSystem_initialize BusyWaitTimer_vtable TCPSender_vtable (demo_system skipping_user True, ?w) of
      Some (b, _) \<Rightarrow> b | None \<Rightarrow> False" by code_simp
  then have "RealTimeSystem_initialize BusyWaitTimer_vtable TCPSender_vtable (demo_system skipping_user True, ?w) = Some (True, r, w)"
    using rw by (auto simp: skip_start_def split: option.splits)
  moreover have "r_sender (demo_system skipping_user True) = Some (TCPSender_ctor 80) \<and> tcp_inv (TCPSender_ctor 80)"
    using ctor_invs by simp
  ultimately show thesis
    using bw_tcp.system_initializes [unfolded initializes_well_def, rule_format, of "demo_system skipping_user True" ?w True r w "TCPSender_ctor 80"]
      that [OF rw] by auto
qed

section \<open>Delivery, the end, and the schedule\<close>

text \<open>
  C1: Whichever timer and whichever sender of the library a \<^verbatim>\<open>RealTimeSystem\<close> is put together from,
  and whatever the application, the kernel, the clock and the worker thread do: a run without skip
  mode that comes to its end has put the lists of its ticks on the wire in order, each completely,
  except that a part of the last one may be missing.
\<close>

theorem systems_deliver:
  "delivers_in_order BusyWaitTimer_vtable TCPSender_vtable tcp_fresh \<and>
   delivers_in_order FreeWaitTimer_vtable TCPSender_vtable tcp_fresh \<and>
   delivers_in_order WorstCaseTimer_vtable TCPSender_vtable tcp_fresh \<and>
   delivers_in_order BusyWaitTimer_vtable TCPSenderZC_vtable zc_fresh \<and>
   delivers_in_order FreeWaitTimer_vtable TCPSenderZC_vtable zc_fresh \<and>
   delivers_in_order WorstCaseTimer_vtable TCPSenderZC_vtable zc_fresh"
  by (intro conjI bw_tcp.system_delivers fw_tcp.system_delivers wc_tcp.system_delivers
      bw_zc.system_delivers fw_zc.system_delivers wc_zc.system_delivers)

theorem systems_deliver_witness:
  "\<exists>r' w' n ps seq skip rw1. bw_tcp_run demo_start = Some (True, r', w') \<and> wire w' = [6, 7, 8, 6, 7, 8] \<and>
     bw_tcp_ticks n demo_start = Some (ps, seq, skip, rw1) \<and>
     prefix (wire w') (wire (snd demo_start) @ concat (ps @ [payload w' (lists w' 1000)]))"
proof -
  obtain r w s where d: "demo_start = (r, w)" "r_initialized r" "\<not> r_allow_skip_mode r" "r_sender r = Some s" "tcp_fresh s"
    using demo_start_ready by metis
  obtain r' w' where e: "bw_tcp_run (r, w) = Some (True, r', w')" and w': "wire w' = [6, 7, 8, 6, 7, 8]"
    and b: "fst (begin_run BusyWaitTimer_vtable 1000 (r, w))" using demo_run d(1) by metis
  have "delivers_in_order BusyWaitTimer_vtable TCPSender_vtable tcp_fresh" using systems_deliver by blast
  from this [unfolded delivers_in_order_def, rule_format, of 1000 r w True r' w' s] b e d(2-)
  obtain n ps seq skip rw1 qs where t: "bw_tcp_ticks n (r, w) = Some (ps, seq, skip, rw1)"
    and q: "qs = ps \<or> qs = ps @ [payload w' (lists w' 1000)]" "prefix (wire w') (wire w @ concat qs)" by blast
  have "prefix (wire w') (wire w @ concat (ps @ [payload w' (lists w' 1000)]))"
    using q by (auto intro: prefix_order.trans)
  with t e w' show ?thesis unfolding d(1) snd_conv by blast
qed

text \<open>
  C5: A run of any of the six systems that returns ends cleanly, with or without skip mode: the
  system is not initialised any more; if it was initialised when \<^verbatim>\<open>run\<close> was called and the timer
  started, the sender was ended, and otherwise the answer is false and the sender was not touched; the
  answer false comes with an error to be fetched; and the answer true comes only when the last
  call of the user function in this run asked to stop.
\<close>

theorem systems_end:
  "ends_cleanly BusyWaitTimer_vtable TCPSender_vtable tcp_inv ended \<and>
   ends_cleanly FreeWaitTimer_vtable TCPSender_vtable tcp_inv ended \<and>
   ends_cleanly WorstCaseTimer_vtable TCPSender_vtable tcp_inv ended \<and>
   ends_cleanly BusyWaitTimer_vtable TCPSenderZC_vtable zc_inv ended \<and>
   ends_cleanly FreeWaitTimer_vtable TCPSenderZC_vtable zc_inv ended \<and>
   ends_cleanly WorstCaseTimer_vtable TCPSenderZC_vtable zc_inv ended"
  by (intro conjI bw_tcp.system_ends fw_tcp.system_ends wc_tcp.system_ends bw_zc.system_ends fw_zc.system_ends wc_zc.system_ends)

theorem systems_end_witness:
  "\<exists>r' w' s'. bw_tcp_run demo_start = Some (True, r', w') \<and> \<not> r_initialized r' \<and> r_sender r' = Some s' \<and> ended s' \<and>
     (\<exists>f i v us. r_user_app_func (fst demo_start) = Some f \<and> fst (snd (f i v)) \<and>
        user_calls v = user_calls (snd demo_start) @ us \<and> user_calls w' = user_calls v @ [told i])"
proof -
  obtain r w s where d: "demo_start = (r, w)" "r_initialized r" "r_sender r = Some s" "tcp_inv s"
    using demo_start_ready by metis
  obtain r' w' where e: "bw_tcp_run (r, w) = Some (True, r', w')" and b: "fst (begin_run BusyWaitTimer_vtable 1000 (r, w))"
    using demo_run d(1) by metis
  have "ends_cleanly BusyWaitTimer_vtable TCPSender_vtable tcp_inv ended" using systems_end by blast
  from this [unfolded ends_cleanly_def, rule_format, of 1000 r w True r' w' s] b e d(2-) show ?thesis unfolding d(1) fst_conv snd_conv by auto
qed

text \<open>
  C4: The ticks of a run come at their time: tick \<open>n\<close> at frequency \<open>f\<close> ends, on a reading of the clock,
  not earlier than \<open>n / f\<close> seconds after the start, but for \<open>n\<close> picoseconds, and the deadline of the
  next is at most \<open>n div 2 ^ 23 + 1\<close> nanoseconds later than \<open>(n + 1) / f\<close> seconds, for every
  timer and sender, however long sending, tolerating and the user function take.
\<close>

theorem systems_keep_schedule:
  "keeps_schedule BusyWaitTimer_vtable BusyWaitTimer_view TCPSender_vtable tcp_inv \<and>
   keeps_schedule FreeWaitTimer_vtable FreeWaitTimer_view TCPSender_vtable tcp_inv \<and>
   keeps_schedule WorstCaseTimer_vtable WorstCaseTimer_view TCPSender_vtable tcp_inv \<and>
   keeps_schedule BusyWaitTimer_vtable BusyWaitTimer_view TCPSenderZC_vtable zc_inv \<and>
   keeps_schedule FreeWaitTimer_vtable FreeWaitTimer_view TCPSenderZC_vtable zc_inv \<and>
   keeps_schedule WorstCaseTimer_vtable WorstCaseTimer_view TCPSenderZC_vtable zc_inv"
  by (intro conjI bw_tcp.system_keeps_schedule fw_tcp.system_keeps_schedule wc_tcp.system_keeps_schedule
      bw_zc.system_keeps_schedule fw_zc.system_keeps_schedule wc_zc.system_keeps_schedule)

theorem systems_keep_schedule_witness:
  "\<exists>ps seq skip r' w'. bw_tcp_ticks 1 demo_start = Some (ps, seq, skip, r', w') \<and>
     10 ^ 12 \<le> 100 * (1000 * (ts_ns (demo_clock (reads w' - 1)) - ts_ns (demo_clock (reads (snd demo_start)))) + 1)"
proof -
  obtain r w s t0 t where d: "demo_start = (r, w)" "r_sender r = Some s" "tcp_inv s" "r_timer r = Some t"
    "tm_set_frequency BusyWaitTimer_vtable 100 t0 = Some (True, t)" "\<not> v_started (BusyWaitTimer_view t0)" "clock w = demo_clock"
    using demo_start_ready by metis
  have "case bw_tcp_ticks 1 demo_start of None \<Rightarrow> False | Some _ \<Rightarrow> True" by code_simp
  then obtain ps seq skip r' w' where e: "bw_tcp_ticks 1 (r, w) = Some (ps, seq, skip, r', w')"
    unfolding d(1) by (auto split: option.splits)
  have "keeps_schedule BusyWaitTimer_vtable BusyWaitTimer_view TCPSender_vtable tcp_inv" using systems_keep_schedule by blast
  from this [unfolded keeps_schedule_def, rule_format, of r s t 100 t0 w 1000 1 ps seq skip r' w'] d(2-) e
  show ?thesis unfolding d(1) by auto
qed

text \<open>
  C15: \<^verbatim>\<open>initialize\<close> of any of the six systems: after the answer true the flag is set, timer and sender
  are as a run needs them, the frequency is between 1 and 100, and the tolerance was cut to leave 5 ms
  of each period, without wrap-around; the answer false comes with an error to be fetched, and leaves
  the flag as it was before.
\<close>

theorem systems_initialize:
  "initializes_well BusyWaitTimer_vtable BusyWaitTimer_view TCPSender_vtable tcp_inv s_initialized (\<lambda>s. is_done (s_shared_data s)) \<and>
   initializes_well FreeWaitTimer_vtable FreeWaitTimer_view TCPSender_vtable tcp_inv s_initialized (\<lambda>s. is_done (s_shared_data s)) \<and>
   initializes_well WorstCaseTimer_vtable WorstCaseTimer_view TCPSender_vtable tcp_inv s_initialized (\<lambda>s. is_done (s_shared_data s)) \<and>
   initializes_well BusyWaitTimer_vtable BusyWaitTimer_view TCPSenderZC_vtable zc_inv s_initialized (\<lambda>s. is_done (s_shared_data s)) \<and>
   initializes_well FreeWaitTimer_vtable FreeWaitTimer_view TCPSenderZC_vtable zc_inv s_initialized (\<lambda>s. is_done (s_shared_data s)) \<and>
   initializes_well WorstCaseTimer_vtable WorstCaseTimer_view TCPSenderZC_vtable zc_inv s_initialized (\<lambda>s. is_done (s_shared_data s))"
  by (intro conjI bw_tcp.system_initializes fw_tcp.system_initializes wc_tcp.system_initializes
      bw_zc.system_initializes fw_zc.system_initializes wc_zc.system_initializes)

theorem systems_initialize_witness:
  "\<exists>r w s. RealTimeSystem_initialize BusyWaitTimer_vtable TCPSender_vtable (demo_system demo_user False, system_os) = Some (True, r, w) \<and>
     r_initialized r \<and> r_sender r = Some s \<and> s_initialized s \<and> unat (r_ms_tolerance r) = 1"
proof -
  obtain r w where rw: "demo_start = (r, w)" by (cases demo_start)
  have "RealTimeSystem_initialize BusyWaitTimer_vtable TCPSender_vtable (demo_system demo_user False, system_os) = Some (True, r, w)
      \<and> r_sender (demo_system demo_user False) = Some (TCPSender_ctor 80) \<and> tcp_inv (TCPSender_ctor 80)"
    using demo_start_eq rw ctor_invs by simp
  moreover have "initializes_well BusyWaitTimer_vtable BusyWaitTimer_view TCPSender_vtable tcp_inv s_initialized (\<lambda>s. is_done (s_shared_data s))"
    using systems_initialize by blast
  note this [unfolded initializes_well_def, rule_format, of "demo_system demo_user False" system_os True r w "TCPSender_ctor 80"]
  moreover have "unat (r_ms_tolerance (demo_system demo_user False)) = 1"
    by (simp add: demo_system_def skip_mode_def set_ms_tolerance_def)
  ultimately show ?thesis by auto
qed

section \<open>Sending before the run\<close>

text \<open>
  C16: \<^verbatim>\<open>send_before_run\<close>, called when the sender has nothing on its way: after the answer true the
  system is initialised, nothing is on its way, and the list is on the wire or the sender refused it
  and has an error to be fetched. After the answer false the flag is down and an error is set; if the
  system was initialised, the sender was ended and a beginning of the list is on the wire; if it was
  not, neither the sender nor the wire has changed.
\<close>

theorem systems_send_before_run:
  "sends_before_run TCPSender_vtable tcp_inv (\<lambda>s. is_done (s_shared_data s)) ended BusyWaitTimer_vtable \<and>
   sends_before_run TCPSender_vtable tcp_inv (\<lambda>s. is_done (s_shared_data s)) ended FreeWaitTimer_vtable \<and>
   sends_before_run TCPSender_vtable tcp_inv (\<lambda>s. is_done (s_shared_data s)) ended WorstCaseTimer_vtable \<and>
   sends_before_run TCPSenderZC_vtable zc_inv (\<lambda>s. is_done (s_shared_data s)) ended BusyWaitTimer_vtable \<and>
   sends_before_run TCPSenderZC_vtable zc_inv (\<lambda>s. is_done (s_shared_data s)) ended FreeWaitTimer_vtable \<and>
   sends_before_run TCPSenderZC_vtable zc_inv (\<lambda>s. is_done (s_shared_data s)) ended WorstCaseTimer_vtable"
  by (intro conjI bw_tcp.system_sends_before_run fw_tcp.system_sends_before_run wc_tcp.system_sends_before_run
      bw_zc.system_sends_before_run fw_zc.system_sends_before_run wc_zc.system_sends_before_run)

theorem systems_send_before_run_witness:
  "\<exists>r' w' s'. send_before_run TCPSender_vtable 2000 hello 10 demo_start = Some (True, r', w') \<and>
     wire w' = [6, 7, 8] \<and> r_initialized r' \<and> r_sender r' = Some s' \<and> is_done (s_shared_data s')"
proof -
  obtain r w s where d: "demo_start = (r, w)" "r_sender r = Some s" "tcp_inv s" "is_done (s_shared_data s)"
    using demo_start_ready by metis
  have "case send_before_run TCPSender_vtable 2000 hello 10 demo_start of None \<Rightarrow> False | Some (b, r', w') \<Rightarrow> b \<and> wire w' = [6, 7, 8]"
    by code_simp
  then obtain r' w' where e: "send_before_run TCPSender_vtable 2000 hello 10 (r, w) = Some (True, r', w')" and w': "wire w' = [6, 7, 8]"
    unfolding d(1) by (auto split: option.splits)
  have "sends_before_run TCPSender_vtable tcp_inv (\<lambda>s. is_done (s_shared_data s)) ended BusyWaitTimer_vtable"
    using systems_send_before_run by blast
  from this [unfolded sends_before_run_def, rule_format, of 2000 hello 10 r w True r' w' s] d(2-) e w' show ?thesis
    unfolding d(1) by auto
qed

text \<open>
  The reference for the wait of \<^verbatim>\<open>send_before_run\<close>: the naps of \<open>n\<close> milliseconds, each a half of
  what is left plus one, and sleeping through them until the sender is done.
\<close>

fun halving_naps :: "nat \<Rightarrow> nat list" where
  "halving_naps n = (if n = 0 then [] else (n div 2 + 1) # halving_naps (n - (n div 2 + 1)))"

declare halving_naps.simps [simp del]

fun wait_naps :: "'s Sender \<Rightarrow> nat list \<Rightarrow> ('t, 's) rstate \<Rightarrow> ('t, 's) rstate option" where
  "wait_naps S [] rw = Some rw"
| "wait_naps S (x # xs) (r, w) =
     do { w1 \<leftarrow> milliseconds_sleep (of_nat x) w;
          (b, rw2) \<leftarrow> ask_sender S (r, w1);
          if b then Some rw2 else wait_naps S xs rw2 }"

lemma halving_naps_sum: "sum_list (halving_naps n) = n"
  by (induction n rule: halving_naps.induct) (subst halving_naps.simps, simp)

lemma halving_naps_length: "0 < n \<Longrightarrow> 2 ^ (length (halving_naps n) - 1) \<le> n"
proof (induction n rule: halving_naps.induct)
  case (1 n)
  let ?m = "n - (n div 2 + 1)"
  show ?case
  proof (cases "?m = 0")
    case True
    with 1 show ?thesis by (simp add: halving_naps.simps)
  next
    case False
    with 1 have "2 ^ (length (halving_naps ?m) - 1) \<le> ?m" by simp
    moreover have "2 * ?m \<le> n" by linarith
    moreover have "0 < length (halving_naps ?m)" using False by (subst halving_naps.simps) simp
    then obtain l where "length (halving_naps ?m) = Suc l" by (cases "length (halving_naps ?m)") auto
    ultimately show ?thesis using 1 by (subst halving_naps.simps) simp
  qed
qed

lemma halving_wait_naps:
  fixes rw :: "('t, 's) rstate"
  shows "halving_wait S n rw = wait_naps S (halving_naps (unat n)) rw"
proof (induction "unat n" arbitrary: n rw rule: less_induct)
  case less
  obtain r w where rw: "rw = (r, w)" by (cases rw)
  show ?case
  proof (cases "n = 0")
    case True
    then show ?thesis by (simp add: rw halving_naps.simps)
  next
    case False
    let ?x = "n div 2 + 1"
    note t = halving_time [OF False]
    have x: "word_of_nat (unat n div 2 + 1) = ?x" unfolding t(1) [symmetric] by simp
    have "0 < unat n" using False by (simp add: unat_gt_0)
    then have h: "halving_naps (unat n) = (unat n div 2 + 1) # halving_naps (unat (n - ?x))"
      unfolding t(3) by (subst halving_naps.simps) simp
    have "halving_wait S (n - ?x) rw2 = wait_naps S (halving_naps (unat (n - ?x))) rw2" for rw2 :: "('t, 's) rstate"
      by (rule less) (rule t(4))
    then show ?thesis unfolding h rw wait_naps.simps x using False by (simp add: Let_def cong: if_cong)
  qed
qed

text \<open>
  C29: The wait of \<^verbatim>\<open>send_before_run\<close> is the wait through a list of naps that depends on the limit
  only: their sum is the limit, and there are at most \<open>log2 limit + 1\<close> of them (the comment in the
  code says log(n)); the 64-bit arithmetic of the loop never wraps around.
\<close>

theorem halving_wait_is_logarithmic:
  "halving_wait S time_limit_ms rw = wait_naps S (halving_naps (unat time_limit_ms)) rw \<and>
   sum_list (halving_naps (unat time_limit_ms)) = unat time_limit_ms \<and>
   (time_limit_ms \<noteq> 0 \<longrightarrow> 2 ^ (length (halving_naps (unat time_limit_ms)) - 1) \<le> unat time_limit_ms)"
  using halving_wait_naps halving_naps_sum halving_naps_length by (simp add: unat_gt_0)

theorem halving_wait_is_logarithmic_witness:
  "halving_wait TCPSender_vtable 1000 demo_start = wait_naps TCPSender_vtable [501, 250, 125, 63, 31, 16, 8, 4, 2] demo_start \<and>
   sum_list [501, 250, 125, 63, 31, 16, 8, 4, 2] = (1000 :: nat) \<and> 2 ^ (9 - 1) \<le> (1000 :: nat)"
proof -
  have "halving_naps 1000 = [501, 250, 125, 63, 31, 16, 8, 4, 2]" by (simp add: halving_naps.simps)
  with halving_wait_is_logarithmic [of TCPSender_vtable 1000 demo_start] show ?thesis by simp
qed

section \<open>Counters and skipped ticks\<close>

text \<open>
  C17: The numbers of a run of any of the six systems, as the user function sees them: after
  \<open>n\<close> whole ticks it was called \<open>n\<close> times, with the sequence numbers 0, 1, 2 up to \<open>n - 1\<close>, and was told of a skip
  in skip mode only; the counter of skipped ticks is the number of calls since the last one that was
  not told of a skip; there are never more than three seconds' worth of them in a row (three times
  the frequency, as long as that fits 64 bits), and after so many the next tick answers false with
  the error ``The client disconnected.'' and does not call the user function.
\<close>

theorem run_counters:
  "numbers_ticks BusyWaitTimer_vtable TCPSender_vtable tcp_inv \<and>
   numbers_ticks FreeWaitTimer_vtable TCPSender_vtable tcp_inv \<and>
   numbers_ticks WorstCaseTimer_vtable TCPSender_vtable tcp_inv \<and>
   numbers_ticks BusyWaitTimer_vtable TCPSenderZC_vtable zc_inv \<and>
   numbers_ticks FreeWaitTimer_vtable TCPSenderZC_vtable zc_inv \<and>
   numbers_ticks WorstCaseTimer_vtable TCPSenderZC_vtable zc_inv"
  by (intro conjI bw_tcp.system_numbers_ticks fw_tcp.system_numbers_ticks wc_tcp.system_numbers_ticks
      bw_zc.system_numbers_ticks fw_zc.system_numbers_ticks wc_zc.system_numbers_ticks)

theorem run_counters_witness:
  "\<exists>ps r w is. bw_tcp_ticks 2 skip_start = Some (ps, 1, 1, r, w) \<and> length ps = 2 \<and>
     user_calls w = user_calls (snd skip_start) @ map told is \<and> map get_sequence_number is = [0, 1] \<and> skipped_in_a_row is = 1"
proof -
  obtain r w s where d: "skip_start = (r, w)" "r_sender r = Some s" "tcp_inv s" "r_timer r \<noteq> None"
    using skip_start_ready by metis
  obtain t r0 w0 where b: "begin_run BusyWaitTimer_vtable 1000 (r, w) = (t, r0, w0)" by (cases "begin_run BusyWaitTimer_vtable 1000 (r, w)")
  obtain tm where "r_timer r = Some tm" using d(4) by blast
  note br = bw_tcp.begin_run_result [OF b this]
  have "r_frequency (fst (snd (begin_run BusyWaitTimer_vtable 1000 skip_start))) = 100 \<and>
    (case bw_tcp_ticks 2 skip_start of None \<Rightarrow> False | Some (ps, seq, skip, _) \<Rightarrow> seq = 1 \<and> skip = 1)" by code_simp
  then obtain ps r' w' where f: "r_frequency r0 = 100" and t: "ticks BusyWaitTimer_vtable TCPSender_vtable 1000 2 (r0, w0) = Some (ps, 1, 1, r', w')"
    unfolding d(1) b by (auto split: option.splits)
  have "numbers_ticks BusyWaitTimer_vtable TCPSender_vtable tcp_inv" using run_counters by blast
  from this [unfolded numbers_ticks_def, rule_format, of r0 s 1000 2 w0 ps 1 1 r' w'] f t br d(2,3)
  obtain "is" where "length ps = 2" "user_calls w' = user_calls w @ map told is"
    "map get_sequence_number is = map of_nat [0..<2]" "skipped_in_a_row is = 1" by auto
  with t show ?thesis unfolding d(1) b snd_conv by (auto simp: upt_rec)
qed

section \<open>Where the promises end\<close>

definition refused_start :: "(BusyWaitTimer, TCPSender) rstate" where
  "refused_start = snd (the (RealTimeSystem_initialize BusyWaitTimer_vtable TCPSender_vtable
     (demo_system demo_user False, system_os\<lparr>answer := (\<lambda>n. if n = 19 then 1 else 0)\<rparr>)))"

text \<open>
  C38: \<^verbatim>\<open>send_before_run\<close> of any of the six systems ignores the answer of \<^verbatim>\<open>send\<close>: when nothing is on its
  way and the sender refuses the list (for example because its worker thread has ended), a call that returns answers
  true, although nothing was sent; the system has no error of its own, and the message of the refusal
  is left in the sender.
\<close>

theorem send_before_run_refused:
  "hides_refusal TCPSender_vtable tcp_inv (\<lambda>s. is_done (s_shared_data s)) BusyWaitTimer_vtable \<and>
   hides_refusal TCPSender_vtable tcp_inv (\<lambda>s. is_done (s_shared_data s)) FreeWaitTimer_vtable \<and>
   hides_refusal TCPSender_vtable tcp_inv (\<lambda>s. is_done (s_shared_data s)) WorstCaseTimer_vtable \<and>
   hides_refusal TCPSenderZC_vtable zc_inv (\<lambda>s. is_done (s_shared_data s)) BusyWaitTimer_vtable \<and>
   hides_refusal TCPSenderZC_vtable zc_inv (\<lambda>s. is_done (s_shared_data s)) FreeWaitTimer_vtable \<and>
   hides_refusal TCPSenderZC_vtable zc_inv (\<lambda>s. is_done (s_shared_data s)) WorstCaseTimer_vtable"
  by (intro conjI bw_tcp.system_hides_refusal fw_tcp.system_hides_refusal wc_tcp.system_hides_refusal
      bw_zc.system_hides_refusal fw_zc.system_hides_refusal wc_zc.system_hides_refusal)

text \<open>Here the worker thread could not set its CPU affinity.\<close>

theorem send_before_run_refused_witness:
  "\<exists>r' w' s'. send_before_run TCPSender_vtable 2000 hello 10 refused_start = Some (True, r', w') \<and>
     wire w' = wire (snd refused_start) \<and> r_error_handler r' = r_error_handler (fst refused_start) \<and>
     r_sender r' = Some s' \<and> TCPSender_is_error s'"
proof -
  let ?w = "system_os\<lparr>answer := (\<lambda>n. if n = 19 then 1 else 0)\<rparr>"
  obtain r w where rw: "refused_start = (r, w)" by (cases refused_start)
  have "case RealTimeSystem_initialize BusyWaitTimer_vtable TCPSender_vtable (demo_system demo_user False, ?w) of
      Some (b, _) \<Rightarrow> b | None \<Rightarrow> False" by code_simp
  then have "RealTimeSystem_initialize BusyWaitTimer_vtable TCPSender_vtable (demo_system demo_user False, ?w) = Some (True, r, w)"
    using rw by (auto simp: refused_start_def split: option.splits)
  moreover have "r_sender (demo_system demo_user False) = Some (TCPSender_ctor 80) \<and> tcp_inv (TCPSender_ctor 80)"
    using ctor_invs by simp
  ultimately obtain s where s: "r_initialized r" "r_sender r = Some s" "tcp_inv s" "is_done (s_shared_data s)"
    using bw_tcp.system_initializes [unfolded initializes_well_def, rule_format, of "demo_system demo_user False" ?w True r w "TCPSender_ctor 80"]
    by auto
  have "case send_before_run TCPSender_vtable 2000 hello 10 refused_start of None \<Rightarrow> False | Some _ \<Rightarrow> True" by code_simp
  then obtain b r' w' where e: "send_before_run TCPSender_vtable 2000 hello 10 (r, w) = Some (b, r', w')"
    unfolding rw by (auto split: option.splits)
  have "case r_sender (fst refused_start) of None \<Rightarrow> False | Some s \<Rightarrow>
      (case sn_send TCPSender_vtable 2000 s ((snd refused_start)\<lparr>lists := (lists (snd refused_start))(2000 := hello)\<rparr>) of
         None \<Rightarrow> False | Some (c, _, _) \<Rightarrow> \<not> c)" by code_simp
  then obtain s1 w1 where n: "sn_send TCPSender_vtable 2000 s (w\<lparr>lists := (lists w)(2000 := hello)\<rparr>) = Some (False, s1, w1)"
    using s(2) unfolding rw by (auto split: option.splits)
  have "hides_refusal TCPSender_vtable tcp_inv (\<lambda>s. is_done (s_shared_data s)) BusyWaitTimer_vtable"
    using send_before_run_refused by blast
  from this [unfolded hides_refusal_def, rule_format, of r s 2000 w hello s1 w1 10 b r' w'] s n e show ?thesis unfolding rw fst_conv snd_conv
    by (auto simp: TCPSender_vtable_def Sender_vtable_def TCPSender_is_error_def)
qed

end
