(* ===== verification/Packet_Heap.thy ===== *)
theory Packet_Heap
  imports Data_Packets
begin

text \<open>
  The class \<^verbatim>\<open>DataPacketsList\<close> as a type of values: constructing, copying, assigning, destroying
  and writing lists on the heap does what the same operations do on a map from objects to lists.
\<close>

section \<open>Lists as values\<close>

type_synonym list_values = "ptr \<rightharpoonup> DataPacket list"

text \<open>The object \<open>d\<close> points to a block with the packets \<open>xs\<close>, as many as it was allocated for.\<close>

definition points_to :: "DataPacketsList \<Rightarrow> (ptr \<rightharpoonup> DataPacket list) \<Rightarrow> DataPacket list \<Rightarrow> bool" where
  [spec_defs]: "points_to d h xs \<longleftrightarrow>
     (\<exists>p. dl_packets d = Some p \<and> h p = Some xs \<and>
        length xs = unat (dl_num_packets d * sizeof_DataPacket) div unat sizeof_DataPacket)"

text \<open>The heap holds the lists \<open>v\<close>: each object points to a block of its own, and there is no other block.\<close>

definition represents :: "list_values \<Rightarrow> store \<Rightarrow> bool" where
  [spec_defs]: "represents v m \<longleftrightarrow>
     (\<forall>a xs. v a = Some xs \<longrightarrow> points_to (objs m a) (blocks m) xs) \<and>
     (\<forall>a b xs ys. v a = Some xs \<longrightarrow> v b = Some ys \<longrightarrow> dl_packets (objs m a) = dl_packets (objs m b) \<longrightarrow> a = b) \<and>
     (\<forall>p xs. blocks m p = Some xs \<longrightarrow> (\<exists>a. v a = Some xs \<and> dl_packets (objs m a) = Some p))"

lemma points_to_other:
  "points_to d h xs \<Longrightarrow> dl_packets d \<noteq> Some p \<Longrightarrow> points_to d (h(p := z)) xs"
  by (auto simp: points_to_def)

lemma points_to_fresh: "points_to d h xs \<Longrightarrow> h p = None \<Longrightarrow> dl_packets d \<noteq> Some p"
  by (auto simp: points_to_def)

lemma points_toE:
  assumes "represents v m" and "v a = Some xs"
  obtains p where "dl_packets (objs m a) = Some p" and "blocks m p = Some xs"
    and "length xs = unat (dl_num_packets (objs m a) * sizeof_DataPacket) div unat sizeof_DataPacket"
  using assms unfolding represents_def points_to_def by blast

lemma represents_points: "represents v m \<Longrightarrow> v a = Some xs \<Longrightarrow> points_to (objs m a) (blocks m) xs"
  unfolding represents_def by blast

lemma represents_inj:
  "represents v m \<Longrightarrow> v a = Some xs \<Longrightarrow> v b = Some ys \<Longrightarrow> dl_packets (objs m a) = dl_packets (objs m b) \<Longrightarrow> a = b"
  unfolding represents_def by blast

lemma represents_block:
  "represents v m \<Longrightarrow> blocks m p = Some xs \<Longrightarrow> \<exists>a. v a = Some xs \<and> dl_packets (objs m a) = Some p"
  unfolding represents_def by blast

lemma represents_other:
  assumes "represents v m" and "v a = Some xs" and "dl_packets (objs m a) = Some p" and "v b = Some ys" and "b \<noteq> a"
  shows "dl_packets (objs m b) \<noteq> Some p"
  using represents_inj [OF assms(1) assms(4) assms(2)] assms(3,5) by auto

lemma representsI:
  assumes "\<And>a xs. v a = Some xs \<Longrightarrow> points_to (objs m a) (blocks m) xs"
    and "\<And>a b xs ys. v a = Some xs \<Longrightarrow> v b = Some ys \<Longrightarrow> dl_packets (objs m a) = dl_packets (objs m b) \<Longrightarrow> a = b"
    and "\<And>p xs. blocks m p = Some xs \<Longrightarrow> \<exists>a. v a = Some xs \<and> dl_packets (objs m a) = Some p"
  shows "represents v m"
  unfolding represents_def using assms by blast

text \<open>Adding, changing and removing the block of one object.\<close>

lemma represents_put:
  assumes "represents v m" and "\<And>b ys. v b = Some ys \<Longrightarrow> b \<noteq> a \<Longrightarrow> dl_packets (objs m b) \<noteq> Some p"
    and "\<And>b. b \<noteq> a \<Longrightarrow> objs m' b = objs m b" and "blocks m' = (blocks m)(p \<mapsto> xs)" and "points_to (objs m' a) (blocks m') xs"
    and "dl_packets (objs m' a) = Some p" and "v a \<noteq> None \<Longrightarrow> dl_packets (objs m a) = Some p"
  shows "represents (v(a \<mapsto> xs)) m'"
proof (rule representsI)
  fix b ys assume b: "(v(a \<mapsto> xs)) b = Some ys"
  show "points_to (objs m' b) (blocks m') ys"
  proof (cases "b = a")
    case True
    with b assms(5) show ?thesis by simp
  next
    case False
    with b have "v b = Some ys" by simp
    with points_to_other [OF represents_points [OF assms(1) this] assms(2) [OF this False]] False assms(3,4)
    show ?thesis by simp
  qed
next
  fix b c ys zs assume bc: "(v(a \<mapsto> xs)) b = Some ys" "(v(a \<mapsto> xs)) c = Some zs" "dl_packets (objs m' b) = dl_packets (objs m' c)"
  show "b = c"
  proof (cases "b = a \<or> c = a")
    case True
    with bc assms(2,3,6) show ?thesis by (metis fun_upd_apply)
  next
    case False
    with bc assms(3) represents_inj [OF assms(1), of b ys c zs] show ?thesis by simp
  qed
next
  fix q ys assume q: "blocks m' q = Some ys"
  show "\<exists>b. (v(a \<mapsto> xs)) b = Some ys \<and> dl_packets (objs m' b) = Some q"
  proof (cases "q = p")
    case True
    with q assms(4,6) show ?thesis by (intro exI [of _ a]) simp
  next
    case False
    with q assms(4) have "blocks m q = Some ys" by simp
    from represents_block [OF assms(1) this] obtain b where b: "v b = Some ys" "dl_packets (objs m b) = Some q" by blast
    with assms(7) False have "b \<noteq> a" by auto
    with b assms(3) show ?thesis by (intro exI [of _ b]) simp
  qed
qed

lemma represents_remove:
  assumes "represents v m" and "v a = Some xs" and "dl_packets (objs m a) = Some p"
    and "\<And>b. b \<noteq> a \<Longrightarrow> objs m' b = objs m b" and "blocks m' = (blocks m)(p := None)"
  shows "represents (v(a := None)) m'"
proof (rule representsI)
  fix b ys assume "(v(a := None)) b = Some ys"
  then have b: "v b = Some ys" "b \<noteq> a" by (auto split: if_splits)
  from points_to_other [OF represents_points [OF assms(1) b(1)] represents_other [OF assms(1,2,3) b]] b(2) assms(4,5)
  show "points_to (objs m' b) (blocks m') ys" by simp
next
  fix b c ys zs assume "(v(a := None)) b = Some ys" "(v(a := None)) c = Some zs" "dl_packets (objs m' b) = dl_packets (objs m' c)"
  then show "b = c" using represents_inj [OF assms(1), of b ys c zs] assms(4) by (simp split: if_splits)
next
  fix q ys assume "blocks m' q = Some ys"
  then have q: "q \<noteq> p" "blocks m q = Some ys" using assms(5) by (auto split: if_splits)
  from represents_block [OF assms(1) q(2)] obtain b where b: "v b = Some ys" "dl_packets (objs m b) = Some q" by blast
  with q(1) assms(3) have "b \<noteq> a" by auto
  with b assms(4) show "\<exists>b. (v(a := None)) b = Some ys \<and> dl_packets (objs m' b) = Some q" by (intro exI [of _ b]) simp
qed

section \<open>The operations\<close>

datatype list_op = Construct ptr uint_fast32 | Copy_Construct ptr ptr | Assign ptr ptr | Destroy ptr
  | Write ptr nat DataPacket

text \<open>\<open>Write a i x\<close> is the application's \<^verbatim>\<open>a.packets[i] = x\<close>, within the block.\<close>

fun exec_op :: "malloc_fn \<Rightarrow> list_op \<Rightarrow> store \<Rightarrow> store option" where
  "exec_op malloc (Construct a n) m = DataPacketsList_ctor malloc a n m"
| "exec_op malloc (Copy_Construct a b) m = DataPacketsList_copy_ctor malloc a b m"
| "exec_op malloc (Assign a b) m = DataPacketsList_assign malloc a b m"
| "exec_op malloc (Destroy a) m = DataPacketsList_dtor a m"
| "exec_op malloc (Write a i x) m =
     do { p \<leftarrow> dl_packets (objs m a);
          xs \<leftarrow> blocks m p;
          if i < length xs then Some (m\<lparr>blocks := (blocks m)(p \<mapsto> xs[i := x])\<rparr>) else None }"

text \<open>What the operations mean on values; the packets of a new list are not specified.\<close>

inductive list_step :: "list_op \<Rightarrow> list_values \<Rightarrow> list_values \<Rightarrow> bool" where
  construct: "v a = None \<Longrightarrow> length xs = unat (n * sizeof_DataPacket) div unat sizeof_DataPacket \<Longrightarrow>
    list_step (Construct a n) v (v(a \<mapsto> xs))"
| copy: "v a = None \<Longrightarrow> v b = Some xs \<Longrightarrow> list_step (Copy_Construct a b) v (v(a \<mapsto> xs))"
| assign: "a \<noteq> b \<Longrightarrow> v a \<noteq> None \<Longrightarrow> v b = Some xs \<Longrightarrow> list_step (Assign a b) v (v(a \<mapsto> xs))"
| destroy: "v a \<noteq> None \<Longrightarrow> list_step (Destroy a) v (v(a := None))"
| overwrite: "v a = Some xs \<Longrightarrow> i < length xs \<Longrightarrow> list_step (Write a i x) v (v(a \<mapsto> xs[i := x]))"

inductive_simps list_step_simps [simp]:
  "list_step (Construct a n) v v'" "list_step (Copy_Construct a b) v v'" "list_step (Assign a b) v v'"
  "list_step (Destroy a) v v'" "list_step (Write a i x) v v'"

text \<open>
  The life of the objects, which the language enforces: constructed before use and once, destroyed
  once. An object is not assigned to itself (that would lose its packets).
\<close>

fun allowed :: "list_op \<Rightarrow> ptr set \<Rightarrow> bool" where
  "allowed (Construct a n) L \<longleftrightarrow> a \<notin> L"
| "allowed (Copy_Construct a b) L \<longleftrightarrow> a \<notin> L \<and> b \<in> L"
| "allowed (Assign a b) L \<longleftrightarrow> a \<noteq> b \<and> a \<in> L \<and> b \<in> L"
| "allowed (Destroy a) L \<longleftrightarrow> a \<in> L"
| "allowed (Write a i x) L \<longleftrightarrow> a \<in> L"

fun live_after :: "list_op \<Rightarrow> ptr set \<Rightarrow> ptr set" where
  "live_after (Construct a n) L = insert a L"
| "live_after (Copy_Construct a b) L = insert a L"
| "live_after (Destroy a) L = L - {a}"
| "live_after _ L = L"

section \<open>Each operation refines its meaning\<close>

lemma alloc_represents:
  assumes "alloc_packets malloc a n m = Some m'" and "malloc_ok malloc" and "represents v m" and "v a = None"
  shows "\<exists>xs. length xs = unat (n * sizeof_DataPacket) div unat sizeof_DataPacket \<and> represents (v(a \<mapsto> xs)) m' \<and>
    dl_num_packets (objs m' a) = n \<and> (\<forall>b. b \<noteq> a \<longrightarrow> objs m' b = objs m b)"
proof -
  from assms(1) obtain p xs where c: "malloc (blocks m) (n * sizeof_DataPacket) = Some (p, xs)"
    and m': "m' = set_obj a \<lparr>dl_packets = Some p, dl_num_packets = n\<rparr> (m\<lparr>blocks := (blocks m)(p \<mapsto> xs)\<rparr>)"
    by (auto simp: alloc_packets_def split: option.splits)
  from c assms(2) have p: "blocks m p = None" "length xs = unat (n * sizeof_DataPacket) div unat sizeof_DataPacket"
    unfolding malloc_ok_def by blast+
  have o: "objs m' a = \<lparr>dl_packets = Some p, dl_num_packets = n\<rparr>" "b \<noteq> a \<Longrightarrow> objs m' b = objs m b"
    "blocks m' = (blocks m)(p \<mapsto> xs)" for b
    by (simp_all add: m' set_obj_def)
  have fresh: "dl_packets (objs m b) \<noteq> Some p" if "v b = Some ys" for b ys
    using points_to_fresh [OF represents_points [OF assms(3) that] p(1)] .
  have "represents (v(a \<mapsto> xs)) m'"
    by (rule represents_put [OF assms(3) fresh o(2,3)]) (simp_all add: o points_to_def p(2) assms(4))
  with p(2) o(1,2) show ?thesis by (intro exI [of _ xs]) simp
qed

lemma dtor_represents:
  assumes "represents v m" and "v a = Some xs"
  shows "\<exists>m'. DataPacketsList_dtor a m = Some m' \<and> represents (v(a := None)) m' \<and> (\<forall>b. b \<noteq> a \<longrightarrow> objs m' b = objs m b)"
proof -
  obtain p where p: "dl_packets (objs m a) = Some p" "blocks m p = Some xs" using points_toE [OF assms] .
  define m' where "m' = set_obj a ((objs m a)\<lparr>dl_packets := None\<rparr>) (m\<lparr>blocks := (blocks m)(p := None)\<rparr>)"
  have o: "b \<noteq> a \<Longrightarrow> objs m' b = objs m b" "blocks m' = (blocks m)(p := None)" for b
    by (simp_all add: m'_def set_obj_def)
  have "DataPacketsList_dtor a m = Some m'"
    by (simp add: DataPacketsList_dtor_def p free_block_def m'_def)
  with represents_remove [OF assms p(1) o] o(1) show ?thesis by blast
qed

lemma overwrite_represents:
  assumes "represents v m" and "v a = Some xs" and "dl_packets (objs m a) = Some p" and "length ys = length xs"
  shows "represents (v(a \<mapsto> ys)) (m\<lparr>blocks := (blocks m)(p \<mapsto> ys)\<rparr>)"
proof -
  have "length xs = unat (dl_num_packets (objs m a) * sizeof_DataPacket) div unat sizeof_DataPacket"
    using points_toE [OF assms(1,2)] .
  then show ?thesis
    by (intro represents_put [OF assms(1) represents_other [OF assms(1-3)]]) (simp_all add: assms(3,4) points_to_def)
qed

lemma copy_represents:
  assumes "represents v m" and "v a = Some ys" and "v b = Some xs"
    and "dl_num_packets (objs m a) = dl_num_packets (objs m b)"
  shows "\<exists>m'. copy_packets a b m = Some m' \<and> represents (v(a \<mapsto> xs)) m'"
proof -
  obtain p where p: "dl_packets (objs m a) = Some p" "blocks m p = Some ys"
    "length ys = unat (dl_num_packets (objs m a) * sizeof_DataPacket) div unat sizeof_DataPacket"
    using points_toE [OF assms(1,2)] .
  obtain q where q: "dl_packets (objs m b) = Some q" "blocks m q = Some xs"
    "length xs = unat (dl_num_packets (objs m b) * sizeof_DataPacket) div unat sizeof_DataPacket"
    using points_toE [OF assms(1,3)] .
  have l: "length ys = length xs" using p(3) q(3) assms(4) by simp
  have "copy_packets a b m = Some (m\<lparr>blocks := (blocks m)(p \<mapsto> xs)\<rparr>)"
    using p q l by (simp add: copy_packets_def memcpy_packets_def Let_def)
  with overwrite_represents [OF assms(1,2) p(1)] l show ?thesis by simp
qed

text \<open>The two copying operations: both are defined once the allocation is, and copy the packets.\<close>

lemma copy_ctor_represents:
  assumes "represents v m" and "v a = None" and "v b = Some xs" and "malloc_ok malloc"
    and "alloc_packets malloc a (dl_num_packets (objs m b)) m = Some m1"
  shows "\<exists>m'. DataPacketsList_copy_ctor malloc a b m = Some m' \<and> represents (v(a \<mapsto> xs)) m'"
proof -
  from assms(2,3) have ab: "b \<noteq> a" by auto
  obtain ys where r: "represents (v(a \<mapsto> ys)) m1" and n: "dl_num_packets (objs m1 a) = dl_num_packets (objs m b)"
    and o: "objs m1 b = objs m b" using alloc_represents [OF assms(5,4,1,2)] ab by blast
  have "(v(a \<mapsto> ys)) a = Some ys" "(v(a \<mapsto> ys)) b = Some xs" using ab assms(3) by simp_all
  from copy_represents [OF r this, unfolded fun_upd_upd] n o assms(5) show ?thesis by (auto simp: DataPacketsList_copy_ctor_def)
qed

lemma assign_represents:
  assumes "represents v m" and "a \<noteq> b" and "v a = Some ys" and "v b = Some xs" and "malloc_ok malloc"
    and "DataPacketsList_dtor a m = Some m1" and "alloc_packets malloc a (dl_num_packets (objs m1 b)) m1 = Some m2"
  shows "\<exists>m'. DataPacketsList_assign malloc a b m = Some m' \<and> represents (v(a \<mapsto> xs)) m'"
proof -
  have 1: "represents (v(a := None)) m1" using dtor_represents [OF assms(1,3)] assms(6) by auto
  have "(v(a := None)) a = None" "(v(a := None)) b = Some xs" using assms(2,4) by simp_all
  from copy_ctor_represents [OF 1 this assms(5,7), unfolded fun_upd_upd] assms(6,7) show ?thesis
    by (auto simp: DataPacketsList_assign_def DataPacketsList_copy_ctor_def)
qed

text \<open>
  An object assigned to itself: the block is freed first, so that what is copied, onto itself, is the
  new block as \<^verbatim>\<open>malloc\<close> delivered it.
\<close>

lemma self_assign_represents:
  assumes "represents v m" and "v a = Some xs" and "dl_packets (objs m a) = Some p" and "malloc_ok malloc"
    and "DataPacketsList_assign malloc a a m = Some m'"
  shows "\<exists>q ys. malloc ((blocks m)(p := None)) (dl_num_packets (objs m a) * sizeof_DataPacket) = Some (q, ys) \<and>
    length ys = length xs \<and> represents (v(a \<mapsto> ys)) m'"
proof -
  let ?n = "dl_num_packets (objs m a)"
  have b: "blocks m p = Some xs" and l: "length xs = unat (?n * sizeof_DataPacket) div unat sizeof_DataPacket"
    using points_toE [OF assms(1,2)] assms(3) by auto
  define m1 where "m1 = set_obj a ((objs m a)\<lparr>dl_packets := None\<rparr>) (m\<lparr>blocks := (blocks m)(p := None)\<rparr>)"
  have d: "DataPacketsList_dtor a m = Some m1" by (simp add: DataPacketsList_dtor_def assms(3) b free_block_def m1_def)
  have 1: "represents (v(a := None)) m1" "dl_num_packets (objs m1 a) = ?n" "blocks m1 = (blocks m)(p := None)"
    using dtor_represents [OF assms(1,2)] d by (auto simp: m1_def set_obj_def)
  obtain m2 where 2: "alloc_packets malloc a ?n m1 = Some m2" and c: "copy_packets a a m2 = Some m'"
    using assms(5) d 1(2) by (auto simp: DataPacketsList_assign_def bind_eq_Some_conv)
  from 2 1(3) obtain q ys where q: "malloc ((blocks m)(p := None)) (?n * sizeof_DataPacket) = Some (q, ys)"
    and m2: "m2 = set_obj a \<lparr>dl_packets = Some q, dl_num_packets = ?n\<rparr> (m1\<lparr>blocks := (blocks m1)(q \<mapsto> ys)\<rparr>)"
    by (auto simp: alloc_packets_def split: option.splits)
  have "(v(a := None)) a = None" by simp
  then obtain zs where r: "represents (v(a \<mapsto> zs)) m2"
    using alloc_represents [OF 2 assms(4) 1(1)] unfolding fun_upd_upd by blast
  have "points_to (objs m2 a) (blocks m2) zs" by (rule represents_points [OF r]) simp
  then have "zs = ys" by (simp add: points_to_def m2 set_obj_def)
  with r have "represents (v(a \<mapsto> ys)) m2" "(v(a \<mapsto> ys)) a = Some ys" by simp_all
  from copy_represents [OF this(1,2,2) refl, unfolded fun_upd_upd] c have "represents (v(a \<mapsto> ys)) m'" by simp
  moreover have "length ys = length xs" using q assms(4) l unfolding malloc_ok_def by metis
  ultimately show ?thesis using q by blast
qed

lemma exec_op_refines:
  assumes "represents v m" and "allowed op (dom v)" and "malloc_ok malloc" and "exec_op malloc op m = Some m'"
  shows "\<exists>v'. list_step op v v' \<and> represents v' m' \<and> dom v' = live_after op (dom v)"
proof (cases op)
  case (Construct a n)
  then have a: "v a = None" and "alloc_packets malloc a n m = Some m'"
    using assms(2,4) by (auto simp: DataPacketsList_ctor_def)
  from alloc_represents [OF this(2) assms(3,1) a] obtain xs
    where "length xs = unat (n * sizeof_DataPacket) div unat sizeof_DataPacket" "represents (v(a \<mapsto> xs)) m'" by blast
  with Construct a show ?thesis by (intro exI [of _ "v(a \<mapsto> xs)"]) auto
next
  case (Copy_Construct a b)
  with assms(2) obtain xs where a: "v a = None" and b: "v b = Some xs" by auto
  from assms(4) Copy_Construct obtain m1 where 1: "alloc_packets malloc a (dl_num_packets (objs m b)) m = Some m1"
    by (auto simp: DataPacketsList_copy_ctor_def bind_eq_Some_conv)
  from copy_ctor_represents [OF assms(1) a b assms(3) 1] assms(4) Copy_Construct have "represents (v(a \<mapsto> xs)) m'" by simp
  with Copy_Construct a b show ?thesis by (intro exI [of _ "v(a \<mapsto> xs)"]) simp
next
  case (Assign a b)
  with assms(2) obtain xs ys where ab: "a \<noteq> b" and a: "v a = Some ys" and b: "v b = Some xs" by auto
  from assms(4) Assign obtain m1 m2 where "DataPacketsList_dtor a m = Some m1"
    and "alloc_packets malloc a (dl_num_packets (objs m1 b)) m1 = Some m2"
    by (auto simp: DataPacketsList_assign_def bind_eq_Some_conv)
  from assign_represents [OF assms(1) ab a b assms(3) this] assms(4) Assign have "represents (v(a \<mapsto> xs)) m'" by simp
  with Assign ab a b show ?thesis by (intro exI [of _ "v(a \<mapsto> xs)"]) auto
next
  case (Destroy a)
  with assms(2) obtain xs where a: "v a = Some xs" by auto
  from dtor_represents [OF assms(1) a] assms(4) Destroy a show ?thesis by auto
next
  case (Write a i x)
  with assms(2) obtain xs where a: "v a = Some xs" by auto
  obtain p where p: "dl_packets (objs m a) = Some p" "blocks m p = Some xs" using points_toE [OF assms(1) a] .
  with assms(4) Write overwrite_represents [OF assms(1) a p(1), of "xs[i := x]"] a show ?thesis
    by (intro exI [of _ "v(a \<mapsto> xs[i := x])"]) (auto split: if_splits)
qed

text \<open>
  Nothing but a failed allocation, and a write past the end, stops an operation. The allocator has to
  answer for the heap at hand and for smaller ones.
\<close>

lemma exec_op_defined:
  assumes "represents v m" and "allowed op (dom v)" and "malloc_ok malloc" and "\<And>h n. dom h \<subseteq> dom (blocks m) \<Longrightarrow> malloc h n \<noteq> None"
    and "\<And>a i x xs. op = Write a i x \<Longrightarrow> v a = Some xs \<Longrightarrow> i < length xs"
  shows "exec_op malloc op m \<noteq> None"
proof -
  have alloc: "\<exists>m2. alloc_packets malloc a n m1 = Some m2" if "dom (blocks m1) \<subseteq> dom (blocks m)" for a n m1
    using assms(4) [OF that] by (auto simp: alloc_packets_def split: option.splits)
  show ?thesis
  proof (cases op)
    case (Construct a n)
    with alloc [of m a n] show ?thesis by (auto simp: DataPacketsList_ctor_def)
  next
    case (Copy_Construct a b)
    with assms(2) obtain xs where a: "v a = None" and b: "v b = Some xs" by auto
    obtain m1 where "alloc_packets malloc a (dl_num_packets (objs m b)) m = Some m1" using alloc [OF subset_refl] by blast
    from copy_ctor_represents [OF assms(1) a b assms(3) this] Copy_Construct show ?thesis by auto
  next
    case (Assign a b)
    with assms(2) obtain xs ys where ab: "a \<noteq> b" and a: "v a = Some ys" and b: "v b = Some xs" by auto
    obtain m1 where 1: "DataPacketsList_dtor a m = Some m1" using dtor_represents [OF assms(1) a] by blast
    then have "dom (blocks m1) \<subseteq> dom (blocks m)"
      by (auto simp: DataPacketsList_dtor_def free_block_def set_obj_def split: option.splits if_splits)
    then obtain m2 where "alloc_packets malloc a (dl_num_packets (objs m1 b)) m1 = Some m2" using alloc by blast
    from assign_represents [OF assms(1) ab a b assms(3) 1 this] Assign show ?thesis by auto
  next
    case (Destroy a)
    with assms(2) obtain xs where a: "v a = Some xs" by auto
    from dtor_represents [OF assms(1) a] Destroy show ?thesis by auto
  next
    case (Write a i x)
    with assms(2) obtain xs where a: "v a = Some xs" by auto
    obtain p where p: "dl_packets (objs m a) = Some p" "blocks m p = Some xs" using points_toE [OF assms(1) a] .
    with assms(5) [OF Write a] Write show ?thesis by simp
  qed
qed

section \<open>Histories\<close>

fun exec_ops :: "malloc_fn \<Rightarrow> list_op list \<Rightarrow> store \<Rightarrow> store option" where
  "exec_ops malloc [] m = Some m"
| "exec_ops malloc (op # ops) m = do { m1 \<leftarrow> exec_op malloc op m; exec_ops malloc ops m1 }"

inductive list_steps :: "list_op list \<Rightarrow> list_values \<Rightarrow> list_values \<Rightarrow> bool" where
  nil: "list_steps [] v v"
| cons: "list_step op v v1 \<Longrightarrow> list_steps ops v1 v2 \<Longrightarrow> list_steps (op # ops) v v2"

fun legal :: "list_op list \<Rightarrow> ptr set \<Rightarrow> bool" where
  "legal [] L \<longleftrightarrow> True"
| "legal (op # ops) L \<longleftrightarrow> allowed op L \<and> legal ops (live_after op L)"

fun live_objects :: "list_op list \<Rightarrow> ptr set \<Rightarrow> ptr set" where
  "live_objects [] L = L"
| "live_objects (op # ops) L = live_objects ops (live_after op L)"

lemma exec_ops_refine:
  assumes "exec_ops malloc ops m = Some m'" and "represents v m" and "legal ops (dom v)" and "malloc_ok malloc"
  shows "\<exists>v'. list_steps ops v v' \<and> represents v' m' \<and> dom v' = live_objects ops (dom v)"
  using assms(1-3)
proof (induction ops arbitrary: v m)
  case Nil
  then show ?case by (auto intro: list_steps.nil)
next
  case (Cons op ops)
  from Cons.prems(1) obtain m1 where 1: "exec_op malloc op m = Some m1" and 2: "exec_ops malloc ops m1 = Some m'"
    by (auto simp: bind_eq_Some_conv)
  from Cons.prems(3) have l: "allowed op (dom v)" "legal ops (live_after op (dom v))" by simp_all
  from exec_op_refines [OF Cons.prems(2) l(1) assms(4) 1] obtain v1 where v1: "list_step op v v1" "represents v1 m1"
    and d: "dom v1 = live_after op (dom v)" by blast
  from Cons.IH [OF 2 v1(2)] l(2) d obtain v' where "list_steps ops v1 v'" "represents v' m'" "dom v' = live_objects ops (dom v1)"
    by auto
  with v1(1) d show ?case by (auto intro: list_steps.cons)
qed

lemma represents_empty [simp]: "represents Map.empty m \<longleftrightarrow> blocks m = Map.empty"
  by (auto simp: represents_def)

end
