(* ===== verification/Failed_Bind.thy ===== *)
theory Failed_Bind
  imports Sender_Histories Tcp_Sender Tcp_Sender_Zc
begin

text \<open>
  What is left of the server socket when no address can be bound: \<^verbatim>\<open>create_server\<close> closes the
  descriptor and keeps its number, so the next \<^verbatim>\<open>end_sender\<close> shuts it down and closes it again.
\<close>

definition message_of :: "('e, 'm) SenderObj \<Rightarrow> string" where
  [simp]: "message_of s = fst (get_error s)"

text \<open>
  After any history of a new object, when \<^verbatim>\<open>initialize\<close> fails to bind and the last thing it did was to close
  the descriptor of the last address and to free the addresses: the object still holds that
  descriptor, and ending the object shuts it down and closes it.
\<close>

definition closes_again :: "('e, 'm) sender_class \<Rightarrow> ('e, 'm) SenderObj \<Rightarrow> bool" where
  [spec_defs]: "closes_again k s0 \<longleftrightarrow>
     (\<forall>cs w0 s w s' w' l fd. do_calls k cs (s0, w0) = Some (s, w) \<and> initialize k (s, w) = Some (False, s', w') \<and>
        fst (get_error s') = ''server: failed to bind'' \<and> log w' = l @ [CloseCall fd, Freeaddrinfo] \<longrightarrow>
        s_server_sock_fd s' = fd \<and>
        (\<exists>s'' w''. end_sender k (s', w') = Some (True, s'', w'') \<and>
           log w'' = log w' @ [ShutdownCall fd, CloseCall fd]))"

section \<open>Binding\<close>

text \<open>A descriptor that was closed last is the one the object holds.\<close>

definition closed_last :: "('e, 'm) SenderObj \<Rightarrow> os \<Rightarrow> bool" where
  "closed_last s w \<longleftrightarrow> (\<forall>l fd. log w = l @ [CloseCall fd] \<longrightarrow> s_server_sock_fd s = fd \<and> fd \<noteq> -1)"

lemma bind_first_no_address:
  "bind_first k ps (s, w) = (No_Address, s', w') \<Longrightarrow> closed_last s w \<Longrightarrow>
   closed_last s' w' \<and> s_client_sock_fd s' = s_client_sock_fd s"
proof (induction ps arbitrary: s w)
  case Nil
  then show ?case by simp
next
  case (Cons p ps)
  let ?fd = "answer w (length (log w))"
  have again: ?case if "bind_first k ps (s\<lparr>s_server_sock_fd := ?fd\<rparr>, w\<lparr>log := l\<rparr>) = (No_Address, s', w')"
      "\<forall>l0 fd. l = l0 @ [CloseCall fd] \<longrightarrow> ?fd = fd \<and> fd \<noteq> -1" for l
    using Cons.IH [OF that(1)] that(2) by (auto simp: closed_last_def)
  show ?case
    using Cons.prems(1) again by (auto simp: syscall_def Let_def split: if_splits)
qed

lemma bind_first_given_up:
  "bind_first k ps (s, w) = (Given_Up, s', w') \<Longrightarrow> message_of s' \<noteq> ''server: failed to bind''"
proof (induction ps arbitrary: s w)
  case Nil
  then show ?case by simp
next
  case (Cons p ps)
  then show ?case by (auto simp: syscall_def set_error_def get_error_def Let_def split: if_splits)
qed

lemma create_server_bind_message:
  assumes "create_server k (s, w) = (False, s', w')" and "message_of s' = ''server: failed to bind''"
    and "log w' = l @ [CloseCall fd, Freeaddrinfo]"
  shows "s_server_sock_fd s' = fd \<and> fd \<noteq> -1 \<and> s_client_sock_fd s' = s_client_sock_fd s"
proof -
  let ?w1 = "w\<lparr>log := log w @ [Getaddrinfo (dec_nat (unat (s_port s)))]\<rparr>"
  obtain b s2 w2 where b: "bind_first k (addrinfos w) (s, ?w1) = (b, s2, w2)"
    by (cases "bind_first k (addrinfos w) (s, ?w1)")
  have n: "b = No_Address \<and> s' = set_error ''server: failed to bind'' s2 \<and> w' = w2\<lparr>log := log w2 @ [Freeaddrinfo]\<rparr>"
  proof (cases b)
    case Given_Up
    with bind_first_given_up [OF b [unfolded Given_Up]] assms(1,2) b show ?thesis
      by (auto simp: create_server_def syscall_def get_error_def set_error_def Let_def split: if_splits)
  qed (use assms(1,2) b in \<open>auto simp: create_server_def syscall_def get_error_def set_error_def Let_def split: if_splits\<close>)
  from bind_first_no_address [of k "addrinfos w" s ?w1 s2 w2] b n assms(3) show ?thesis
    by (auto simp: closed_last_def set_error_def)
qed

section \<open>Initialising and ending\<close>

lemma get_client_message:
  "get_client (s, w) = (False, s', w') \<Longrightarrow> message_of s' \<noteq> ''server: failed to bind''"
  by (auto simp: get_client_def syscall_def get_error_def set_error_def Let_def split: if_splits)

lemma set_attributes_message:
  "set_attributes calls (s, w) = (False, s', w') \<Longrightarrow> message_of s' \<in> snd ` set calls"
proof (induction calls arbitrary: w)
  case Nil
  then show ?case by simp
next
  case (Cons c calls)
  obtain e m where c: "c = (e, m)" by (cases c)
  show ?case using Cons.prems Cons.IH c
    by (auto simp: syscall_def get_error_def set_error_def Let_def split: if_splits)
qed

lemma attr_messages: "''server: failed to bind'' \<notin> snd ` set attr_calls"
  by (simp add: attr_calls_def)

lemma create_thread_message:
  "create_thread k (s, w) = (False, s', w') \<Longrightarrow> message_of s' \<noteq> ''server: failed to bind''"
  by (auto simp: create_thread_def syscall_def get_error_def set_error_def Let_def split: if_splits)

lemma initialize_bind_message:
  assumes "initialize k (s, w) = Some (False, s', w')" and "message_of s' = ''server: failed to bind''"
  obtains b s1 w1 where "end_sender k (s, w) = Some (b, s1, w1)"
    and "create_server k (reset_shared_data s1, w1) = (False, s', w')"
proof -
  obtain b s1 w1 where e: "end_sender k (s, w) = Some (b, s1, w1)"
    using assms(1) by (auto simp: initialize_def bind_eq_Some_conv)
  obtain r2 s2 w2 where 2: "create_server k (reset_shared_data s1, w1) = (r2, s2, w2)"
    by (cases "create_server k (reset_shared_data s1, w1)")
  obtain r3 s3 w3 where 3: "get_client (s2, w2) = (r3, s3, w3)" by (cases "get_client (s2, w2)")
  obtain s4 w4 where 4: "accepted (s3, w3) = (s4, w4)" by (cases "accepted (s3, w3)")
  obtain r5 s5 w5 where 5: "set_attributes attr_calls (s4, w4) = (r5, s5, w5)"
    by (cases "set_attributes attr_calls (s4, w4)")
  obtain r6 s6 w6 where 6: "create_thread k (s5, w5) = (r6, s6, w6)" by (cases "create_thread k (s5, w5)")
  have "\<not> r2"
  proof
    assume "r2"
    consider (client) "\<not> r3" | (attributes) "r3" "\<not> r5" | (thread) "r3" "r5" "\<not> r6" | (fine) "r3" "r5" "r6" by blast
    then show False
    proof cases
      case client
      with get_client_message [of s2 w2 s3 w3] assms e 2 3 \<open>r2\<close> show False by (auto simp: initialize_def)
    next
      case attributes
      with set_attributes_message [of attr_calls s4 w4 s5 w5] attr_messages assms e 2 3 4 5 \<open>r2\<close> show False
        by (simp add: initialize_def)
    next
      case thread
      with create_thread_message [of k s5 w5 s6 w6] assms e 2 3 4 5 6 \<open>r2\<close> show False by (auto simp: initialize_def)
    next
      case fine
      with assms(1) e 2 3 4 5 6 \<open>r2\<close> show False by (auto simp: initialize_def bind_eq_Some_conv)
    qed
  qed
  with assms(1) e 2 that show thesis by (auto simp: initialize_def)
qed

context sender_thread
begin

text \<open>An object that has neither a thread nor a client is ended by closing its server.\<close>

lemma end_prepared:
  assumes "prepared s" and "s_client_sock_fd s = -1" and "s_server_sock_fd s \<noteq> -1"
  shows "\<exists>s' w'. end_sender k (s, w) = Some (True, s', w') \<and>
    log w' = log w @ [ShutdownCall (s_server_sock_fd s), CloseCall (s_server_sock_fd s)]"
  using assms
  by (simp add: end_sender_def shared_read_def interfere_def run_worker_def prepared_def fresh_shared_def
      close_server_def close_client_def shutdown_close_def syscall_def)

lemma failed_bind_closes_again:
  assumes "initialize k (s, w) = Some (False, s', w')" and "inv s"
    and "fst (get_error s') = ''server: failed to bind''" and "log w' = l @ [CloseCall fd, Freeaddrinfo]"
  shows "s_server_sock_fd s' = fd \<and>
    (\<exists>s'' w''. end_sender k (s', w') = Some (True, s'', w'') \<and> log w'' = log w' @ [ShutdownCall fd, CloseCall fd])"
proof -
  obtain b s1 w1 where e: "end_sender k (s, w) = Some (b, s1, w1)"
    and c: "create_server k (reset_shared_data s1, w1) = (False, s', w')"
    using initialize_bind_message [OF assms(1)] assms(3) unfolding message_of_def by blast
  have en: "ended s1" using end_sender_result [OF e assms(2)] by blast
  then have f: "s_client_sock_fd (reset_shared_data s1) = -1" by (simp add: ended_def reset_shared_data_def)
  note b = create_server_bind_message [OF c _ assms(4), unfolded message_of_def, OF assms(3)]
  have "prepared s'" using prepared_set_up [OF prepared_reset [OF en]] create_server_result [OF c] by blast
  with end_prepared [of s' w'] b f show ?thesis by simp
qed

lemma closes_again: "closes_again k (Sender_ctor k port)"
  unfolding closes_again_def
  using failed_bind_closes_again do_calls_inv [OF _ ctor_inv] by blast

end

end
