(* ===== verification/Library_Properties.thy ===== *)
theory Library_Properties
  imports Packet_Heap Failed_Bind Sender_Properties Timer_Properties Real_Time_System
begin

text \<open>
  The properties of the parts the timers, the senders and the system are made of: packet lists, scope
  guards, error handlers, time arithmetic and sleeping.
\<close>

section \<open>Packet lists\<close>

definition demo_malloc :: malloc_fn where
  "demo_malloc h n =
     (let xs = replicate (unat n div unat sizeof_DataPacket) DataPacket_default in
      if h 4096 = None then Some (4096, xs) else if h 8192 = None then Some (8192, xs) else None)"

definition empty_store :: store where
  "empty_store = \<lparr>objs = (\<lambda>_. \<lparr>dl_packets = None, dl_num_packets = 0\<rparr>), blocks = Map.empty\<rparr>"

lemma demo_malloc_ok: "malloc_ok demo_malloc"
  by (auto simp: malloc_ok_def demo_malloc_def Let_def split: if_splits)

abbreviation packet_of :: "ptr \<Rightarrow> DataPacket" where
  "packet_of p \<equiv> \<lparr>data_ptr_type = DATA_PTR_MEMORY_LOCATION, data_ptr = p, data_size = 1, data_offset = 0\<rparr>"

definition demo_ops :: "list_op list" where
  "demo_ops = [Construct 1 1, Write 1 0 (packet_of 7), Copy_Construct 2 1, Write 1 0 (packet_of 9)]"

text \<open>
  C14: \<^verbatim>\<open>DataPacketsList\<close> is a type of values: whatever lists a program constructs, copies, assigns,
  writes and destroys (no object assigned to itself), its heap holds at the end exactly the lists
  that the same operations give on values, each in a block of its own, whatever the sizes and
  wherever \<^verbatim>\<open>malloc\<close> puts the blocks.
\<close>

theorem packet_lists_are_values:
  assumes "exec_ops malloc ops m = Some m'" and "blocks m = Map.empty" and "legal ops {}" and "malloc_ok malloc"
  shows "\<exists>v. list_steps ops Map.empty v \<and> represents v m' \<and> dom v = live_objects ops {}"
  using exec_ops_refine [OF assms(1) _ _ assms(4), of Map.empty] assms(2,3) by simp

theorem packet_lists_are_values_witness:
  "\<exists>m v. exec_ops demo_malloc demo_ops empty_store = Some m \<and> represents v m \<and> dom v = {1, 2} \<and>
     blocks m 4096 = Some [packet_of 9] \<and> blocks m 8192 = Some [packet_of 7]"
proof -
  have "case exec_ops demo_malloc demo_ops empty_store of None \<Rightarrow> False | Some m \<Rightarrow>
      blocks m 4096 = Some [packet_of 9] \<and> blocks m 8192 = Some [packet_of 7]" by code_simp
  then obtain m where e: "exec_ops demo_malloc demo_ops empty_store = Some m"
    and b: "blocks m 4096 = Some [packet_of 9]" "blocks m 8192 = Some [packet_of 7]" by (auto split: option.splits)
  have "legal demo_ops {}" "live_objects demo_ops {} = {1, 2}" by (auto simp: demo_ops_def)
  with packet_lists_are_values [OF e _ _ demo_malloc_ok] e b show ?thesis by (auto simp: empty_store_def)
qed

text \<open>
  C34: No leak, no double free, no access outside a block: a program that keeps to the life of its
  lists and writes within them is only ever stopped by a failing \<^verbatim>\<open>malloc\<close>, and when its
  lists are all destroyed, the heap is empty again.
\<close>

theorem packet_lists_never_leak:
  assumes "exec_ops malloc ops m = Some m'" and "blocks m = Map.empty" and "legal ops {}" and "malloc_ok malloc"
    and "\<And>h n. dom h \<subseteq> dom (blocks m') \<Longrightarrow> malloc h n \<noteq> None" and "allowed op (live_objects ops {})"
    and "\<And>a i x. op \<noteq> Write a i x"
  shows "exec_op malloc op m' \<noteq> None \<and> (live_objects ops {} = {} \<longrightarrow> blocks m' = Map.empty)"
proof -
  obtain v where v: "represents v m'" "dom v = live_objects ops {}"
    using exec_ops_refine [OF assms(1) _ _ assms(4), of Map.empty] assms(2,3) by auto
  have "exec_op malloc op m' \<noteq> None"
    by (rule exec_op_defined [OF v(1) _ assms(4,5)]) (use assms(6,7) v(2) in auto)
  with v show ?thesis by auto
qed

theorem packet_lists_never_leak_witness:
  "\<exists>m. exec_ops demo_malloc (demo_ops @ [Destroy 1, Destroy 2]) empty_store = Some m \<and> blocks m = Map.empty \<and>
     exec_op demo_malloc (Construct 3 5) m \<noteq> None"
proof -
  let ?ops = "demo_ops @ [Destroy 1, Destroy 2]"
  have "case exec_ops demo_malloc ?ops empty_store of None \<Rightarrow> False | Some m \<Rightarrow> True" by code_simp
  then obtain m where e: "exec_ops demo_malloc ?ops empty_store = Some m" by (auto split: option.splits)
  have l: "legal ?ops {}" "live_objects ?ops {} = {}" by (auto simp: demo_ops_def)
  obtain v where "represents v m" "dom v = live_objects ?ops {}"
    using exec_ops_refine [OF e _ _ demo_malloc_ok, of Map.empty] l by (auto simp: empty_store_def)
  with l have "blocks m = Map.empty" by simp
  then have "\<And>h n. dom h \<subseteq> dom (blocks m) \<Longrightarrow> demo_malloc h n \<noteq> None" by (auto simp: demo_malloc_def Let_def)
  from packet_lists_never_leak [OF e _ l(1) demo_malloc_ok this, of "Construct 3 5"] l e show ?thesis
    by (auto simp: empty_store_def)
qed

text \<open>
  C39: The assignment of a list to itself loses its packets. For every history of lists and every
  list \<open>a\<close> alive after it, with the packets \<open>xs\<close> in the block \<open>p\<close>: after \<^verbatim>\<open>a = a\<close> the list has, instead
  of \<open>xs\<close>, as many packets that are the uninitialised contents \<open>ys\<close> of the block \<^verbatim>\<open>malloc\<close> delivered after
  \<open>p\<close> was freed; the other lists are as before.
\<close>

theorem self_assignment_loses_data:
  assumes "exec_ops malloc ops m = Some m1" and "blocks m = Map.empty" and "legal ops {}" and "malloc_ok malloc"
    and "a \<in> live_objects ops {}" and "DataPacketsList_assign malloc a a m1 = Some m2"
  shows "\<exists>v xs p q ys. list_steps ops Map.empty v \<and> represents v m1 \<and> v a = Some xs \<and>
    dl_packets (objs m1 a) = Some p \<and> blocks m1 p = Some xs \<and>
    malloc ((blocks m1)(p := None)) (dl_num_packets (objs m1 a) * sizeof_DataPacket) = Some (q, ys) \<and>
    length ys = length xs \<and> represents (v(a \<mapsto> ys)) m2"
proof -
  obtain v where v: "list_steps ops Map.empty v" "represents v m1" "dom v = live_objects ops {}"
    using exec_ops_refine [OF assms(1) _ _ assms(4), of Map.empty] assms(2,3) by auto
  with assms(5) obtain xs where a: "v a = Some xs" by auto
  obtain p where p: "dl_packets (objs m1 a) = Some p" "blocks m1 p = Some xs" using points_toE [OF v(2) a] .
  from self_assign_represents [OF v(2) a p(1) assms(4,6)] v(1,2) a p show ?thesis by blast
qed

theorem self_assignment_loses_data_witness:
  "\<exists>m1 m2. exec_ops demo_malloc [Construct 1 1, Write 1 0 (packet_of 7)] empty_store = Some m1 \<and>
     DataPacketsList_assign demo_malloc 1 1 m1 = Some m2 \<and>
     blocks m1 4096 = Some [packet_of 7] \<and> blocks m2 4096 = Some [DataPacket_default] \<and>
     (\<exists>v. represents (v(1 \<mapsto> [DataPacket_default])) m2)"
proof -
  let ?ops = "[Construct 1 1, Write 1 0 (packet_of 7)]"
  have "case exec_ops demo_malloc ?ops empty_store of None \<Rightarrow> False | Some m1 \<Rightarrow>
      blocks m1 4096 = Some [packet_of 7] \<and> dl_packets (objs m1 1) = Some 4096 \<and>
      dl_num_packets (objs m1 1) = 1 \<and> blocks m1 8192 = None \<and>
      (case DataPacketsList_assign demo_malloc 1 1 m1 of None \<Rightarrow> False | Some m2 \<Rightarrow>
         blocks m2 4096 = Some [DataPacket_default])" by code_simp
  then obtain m1 m2 where e: "exec_ops demo_malloc ?ops empty_store = Some m1"
    and s: "DataPacketsList_assign demo_malloc 1 1 m1 = Some m2"
    and b: "blocks m1 4096 = Some [packet_of 7]" "blocks m2 4096 = Some [DataPacket_default]"
    and o: "dl_packets (objs m1 1) = Some 4096" "dl_num_packets (objs m1 1) = 1"
    by (auto split: option.splits)
  have "legal ?ops {}" "1 \<in> live_objects ?ops {}" "blocks empty_store = Map.empty" by (auto simp: empty_store_def)
  from self_assignment_loses_data [OF e this(3,1) demo_malloc_ok this(2) s] o obtain v q ys where
    "demo_malloc ((blocks m1)(4096 := None)) (1 * sizeof_DataPacket) = Some (q, ys)" "represents (v(1 \<mapsto> ys)) m2" by auto
  moreover from this(1) have "ys = [DataPacket_default]" by (auto simp: demo_malloc_def Let_def sizeof_DataPacket_def)
  ultimately show ?thesis using e s b by blast
qed

section \<open>Scope guards\<close>

text \<open>
  C35: A \<^verbatim>\<open>MutexRAII\<close>, whatever its thread calls on it and whatever other threads do with the mutex in
  between: it says locked exactly when its thread holds the mutex, so that its destructor leaves the
  mutex released if the thread held it, and as it is otherwise, and destroying it twice
  is destroying it once.
\<close>

theorem mutex_guard_releases:
  assumes "guard_history me cs (MutexRAII_ctor, m) = Some (g, m')" and "m \<noteq> Some me"
  shows "(is_locked g \<longleftrightarrow> m' = Some me) \<and>
    snd (MutexRAII_dtor g m') = (if m' = Some me then PTHREAD_MUTEX_INITIALIZER else m') \<and>
    MutexRAII_dtor (fst (MutexRAII_dtor g m')) (snd (MutexRAII_dtor g m')) = MutexRAII_dtor g m'"
proof -
  have "guard_ok me MutexRAII_ctor m" using assms(2) by (simp add: guard_ok_def MutexRAII_ops)
  then show ?thesis using guard_dtor_releases [of me g m'] guard_history_ok [OF _ assms(1)]
    by (auto simp: guard_ok_def MutexRAII_ops PTHREAD_MUTEX_INITIALIZER_def)
qed

theorem mutex_guard_releases_witness:
  "\<exists>g. guard_history MainThread [(Some WorkerThread, LockNonBlock), (None, LockBlock), (Some WorkerThread, LockNonBlock)]
       (MutexRAII_ctor, None) = Some (g, Some MainThread) \<and> is_locked g \<and> snd (MutexRAII_dtor g (Some MainThread)) = None"
proof -
  obtain g where g: "guard_history MainThread [(Some WorkerThread, LockNonBlock), (None, LockBlock), (Some WorkerThread, LockNonBlock)]
      (MutexRAII_ctor, None) = Some (g, Some MainThread)" by (simp add: MutexRAII_ops Let_def)
  with mutex_guard_releases [OF g] show ?thesis by (simp add: PTHREAD_MUTEX_INITIALIZER_def)
qed

section \<open>Errors\<close>

text \<open>
  An error handler that is drained by \<^verbatim>\<open>get_error\<close>: what the latest \<^verbatim>\<open>set_error\<close> said is reported by
  \<^verbatim>\<open>is_error\<close> and \<^verbatim>\<open>get_error\<close>, and after \<^verbatim>\<open>get_error\<close> there is no error and no message.
\<close>

definition reports_latest :: "('o \<Rightarrow> Error) \<Rightarrow> ('o \<Rightarrow> string \<times> 'o) \<Rightarrow> ('o \<Rightarrow> bool) \<Rightarrow> bool" where
  [spec_defs]: "reports_latest handler get is_err \<longleftrightarrow>
     (\<forall>x. \<not> is_err (snd (get x)) \<and> fst (get (snd (get x))) = '''' \<and>
        (\<forall>m e. handler x = Error_set_error m e \<longrightarrow> is_err x \<and> fst (get x) = m))"

lemma reports_latestI: "error_source handler get is_err \<Longrightarrow> reports_latest handler get is_err"
  unfolding reports_latest_def
  by (simp add: error_source.drained error_source.second_get_empty error_source.reported_once)

text \<open>The methods of the system that refuse a null argument, with what they report.\<close>

definition refuses_null :: "('o \<Rightarrow> bool \<times> ('t, 's) RealTimeSystem) \<Rightarrow> string \<Rightarrow> 'o \<Rightarrow> bool" where
  [spec_defs]: "refuses_null setter m x \<longleftrightarrow>
     (\<not> fst (setter x) \<and> RealTimeSystem_is_error (snd (setter x)) \<and> fst (RealTimeSystem_get_error (snd (setter x))) = m)"

lemma handlers_constructed [simp]:
  "bw_error_handler (BusyWaitTimer_ctor r1) = Error_ctor ''BusyWaitTimer''"
  "fw_error_handler (FreeWaitTimer_ctor r2) = Error_ctor ''FreeWaitTimer''"
  "wc_error_handler (WorstCaseTimer_ctor d r3) = Error_ctor ''WorstCaseTimer''"
  by (simp_all add: BusyWaitTimer_ctor_def FreeWaitTimer_ctor_def WorstCaseTimer_ctor_def)

lemma null_refused:
  "refuses_null (\<lambda>t. set_timer t r) ''Null Timer provided'' None"
  "refuses_null (\<lambda>s. set_sender s r) ''Null Sender provided'' None"
  "refuses_null (\<lambda>f. set_user_data_fn f r) ''Null Function provided'' None"
  unfolding refuses_null_def RealTimeSystem_is_error_def RealTimeSystem_get_error_def
  by (simp_all add: set_timer_def set_sender_def set_user_data_fn_def r_set_error_def)

text \<open>
  C36: A call that fails reports its error until the error is fetched. For each timer and every sequence
  of calls after its constructor, on any clock: \<^verbatim>\<open>is_error\<close> is true exactly if a call answered false since
  the last \<^verbatim>\<open>get_error\<close> (or since the constructor), and \<^verbatim>\<open>get_error\<close> answers the message that belongs to the last such call -
  a later failure replaces a message that was not fetched - and the empty message otherwise. In the two
  senders and the system, too, what the latest \<^verbatim>\<open>set_error\<close> said is reported and after \<^verbatim>\<open>get_error\<close> there
  is no error; the system refuses a null timer, sender or function with a message of its own.
\<close>

theorem errors_reported_once:
  "reports_failures BusyWaitTimer_vtable (BusyWaitTimer_ctor raw_bw) \<and>
   reports_failures FreeWaitTimer_vtable (FreeWaitTimer_ctor raw_fw) \<and>
   reports_failures WorstCaseTimer_vtable (WorstCaseTimer_ctor delay raw_wc) \<and>
   reports_latest s_error_handler TCPSender_get_error TCPSender_is_error \<and>
   reports_latest s_error_handler TCPSenderZC_get_error TCPSenderZC_is_error \<and>
   reports_latest r_error_handler RealTimeSystem_get_error RealTimeSystem_is_error \<and>
   refuses_null (\<lambda>t. set_timer t r) ''Null Timer provided'' None \<and>
   refuses_null (\<lambda>s. set_sender s r) ''Null Sender provided'' None \<and>
   refuses_null (\<lambda>f. set_user_data_fn f r) ''Null Function provided'' None"
  by (intro conjI reports_latestI null_refused rts_errors.error_source_axioms tcp_errors.error_source_axioms
      zc_errors.error_source_axioms bw.failures_reported [OF handlers_constructed(1)]
      fw.failures_reported [OF handlers_constructed(2)] wc.failures_reported [OF handlers_constructed(3)])

section \<open>Time arithmetic\<close>

text \<open>
  C33: Adding a duration to a point in time and taking the difference again gives the duration, the sum
  is a normalised point in time and its distance is exact (for durations below \<open>2 ^ 63\<close> nanoseconds,
  292 years); and the macro for differences is exact for every two points that
  are less than \<open>2 ^ 64\<close> nanoseconds apart, also across the borrow of the nanosecond field.
\<close>

theorem timespec_roundtrip:
  assumes "ts_norm t" and "uint ns < 2 ^ 63" and "0 \<le> ts_ns t" and "ts_ns t < 2 ^ 63"
  shows "TIMESPEC_DIFF_NS t (ADD_NS_TO_TIMESPEC t ns) = ns \<and> ts_norm (ADD_NS_TO_TIMESPEC t ns) \<and>
    ts_ns (ADD_NS_TO_TIMESPEC t ns) = ts_ns t + uint ns \<and>
    (\<forall>t1 t2. ts_ns t1 \<le> ts_ns t2 \<and> ts_ns t2 - ts_ns t1 < 2 ^ 64 \<longrightarrow> uint (TIMESPEC_DIFF_NS t1 t2) = ts_ns t2 - ts_ns t1)"
proof -
  note a = ts_ns_ADD_NS [OF assms]
  have "TIMESPEC_DIFF_NS t (ADD_NS_TO_TIMESPEC t ns) = ns" unfolding TIMESPEC_DIFF_NS_word a(1) by simp
  with a uint_TIMESPEC_DIFF_NS show ?thesis by blast
qed

theorem timespec_roundtrip_witness:
  "TIMESPEC_DIFF_NS \<lparr>tv_sec = 1, tv_nsec = 999999999\<rparr> (ADD_NS_TO_TIMESPEC \<lparr>tv_sec = 1, tv_nsec = 999999999\<rparr> 2500000000) = 2500000000 \<and>
   ADD_NS_TO_TIMESPEC \<lparr>tv_sec = 1, tv_nsec = 999999999\<rparr> 2500000000 = \<lparr>tv_sec = 4, tv_nsec = 499999999\<rparr>"
proof -
  have "ts_norm \<lparr>tv_sec = 1, tv_nsec = 999999999\<rparr> \<and> ts_ns \<lparr>tv_sec = 1, tv_nsec = 999999999\<rparr> = 1999999999 \<and>
    uint (2500000000 :: uint_fast64) = 2500000000" by code_simp
  moreover have "ADD_NS_TO_TIMESPEC \<lparr>tv_sec = 1, tv_nsec = 999999999\<rparr> 2500000000 = \<lparr>tv_sec = 4, tv_nsec = 499999999\<rparr>" by code_simp
  ultimately show ?thesis using timespec_roundtrip [of "\<lparr>tv_sec = 1, tv_nsec = 999999999\<rparr>" 2500000000] by simp
qed

section \<open>Sleeping\<close>

text \<open>
  C31: The sleep functions sleep long enough and not much longer: from the first reading of the clock to
  the last there are at least the nanoseconds asked for, also when \<^verbatim>\<open>nanosleep\<close> is interrupted, every request
  to the kernel is well-formed and asks for no more than the whole time, and when the clock is
  read with steps of at most \<open>b\<close>, the sleep ends at most \<open>2 * b\<close> late.
\<close>

theorem sleep_lasts:
  assumes "nanoseconds_sleep d w = Some w'" and "clock_ok (clock w)" and "clock_steps b (clock w)"
  shows "ts_ns (clock w (reads w)) + uint d \<le> ts_ns (clock w (reads w' - 1)) \<and>
    ts_ns (clock w (reads w')) \<le> ts_ns (clock w (reads w)) + uint d + 2 * b \<and>
    (\<exists>naps. log w' = log w @ map Nanosleep naps \<and> (\<forall>t \<in> set naps. ts_norm t \<and> 0 < ts_ns t \<and> ts_ns t \<le> uint d))"
  using nanoseconds_sleep_result [OF assms(1,2)] nanoseconds_sleep_until [OF assms] by (auto dest: sleptD(3))

theorem sleep_lasts_witness:
  "\<exists>w'. nanoseconds_sleep 3000000 demo_os = Some w' \<and> 3000000 \<le> ts_ns (demo_clock (reads w' - 1)) \<and>
     ts_ns (demo_clock (reads w')) \<le> 5000000 \<and> length (log w') = 2"
proof -
  have "case nanoseconds_sleep 3000000 demo_os of None \<Rightarrow> False | Some w' \<Rightarrow> length (log w') = 2" by code_simp
  then obtain w' where s: "nanoseconds_sleep 3000000 demo_os = Some w'" and l: "length (log w') = 2" by (auto split: option.splits)
  have "uint (3000000 :: uint_fast64) = 3000000" "ts_ns (demo_clock 0) = 0" by simp_all
  with sleep_lasts [OF s, of "10 ^ 6"] s l demo_clock_steps show ?thesis by (simp del: demo_reading)
qed

text \<open>
  C32: The sleep functions return, on every clock that runs, up to 146 years after its origin, and the units
  are converted without wrap-around: sleeping \<open>n\<close> seconds, milliseconds or microseconds takes
  at least that long.
\<close>

theorem sleeps_return:
  assumes "clock_runs (clock w)" and "ts_ns (clock w (reads w)) + 10 ^ 9 * int (unat n) < 2 ^ 62"
  shows "\<exists>w1 w2 w3.
    seconds_sleep n w = Some w1 \<and> ts_ns (clock w (reads w)) + 10 ^ 9 * int (unat n) \<le> ts_ns (clock w (reads w1 - 1)) \<and>
    milliseconds_sleep n w = Some w2 \<and> ts_ns (clock w (reads w)) + 10 ^ 6 * int (unat n) \<le> ts_ns (clock w (reads w2 - 1)) \<and>
    microseconds_sleep n w = Some w3 \<and> ts_ns (clock w (reads w)) + 10 ^ 3 * int (unat n) \<le> ts_ns (clock w (reads w3 - 1))"
proof -
  have ok: "clock_ok (clock w)" using assms(1) by (simp add: clock_runs_def)
  have "10 ^ 9 * int (unat n) < 2 ^ 62" using assms(2) clock_bounds(1) [OF ok, of "reads w"] by linarith
  then have "int (unat n * 10 ^ 9) < int (2 ^ 62)" by simp
  then have n: "unat n * 10 ^ 9 < 2 ^ 62" by (simp only: of_nat_less_iff)
  have "SEC_TO_NS n = n * 1000000000" by (simp add: to_finer)
  moreover have "unat (n * 1000000000) = unat n * 10 ^ 9" using n by (subst unat_mult_no_wrap) simp_all
  ultimately have "unat (SEC_TO_NS n) = unat n * 10 ^ 9" by simp
  moreover have "unat (MS_TO_NS n) = unat n * 10 ^ 6" "unat (US_TO_NS n) = unat n * 10 ^ 3"
    using n by (simp_all add: unat_MS_TO_NS unat_US_TO_NS)
  ultimately have u: "uint (SEC_TO_NS n) = 10 ^ 9 * int (unat n)" "uint (MS_TO_NS n) = 10 ^ 6 * int (unat n)"
    "uint (US_TO_NS n) = 10 ^ 3 * int (unat n)"
    by (simp_all only: uint_eq_int_unat of_nat_mult of_nat_power of_nat_numeral mult.commute)
  have s: "\<exists>w'. nanoseconds_sleep d w = Some w' \<and> ts_ns (clock w (reads w)) + uint d \<le> ts_ns (clock w (reads w' - 1))"
    if "uint d \<le> 10 ^ 9 * int (unat n)" for d
  proof -
    have "ts_ns (clock w (reads w)) + uint d < 2 ^ 62" using assms(2) that by linarith
    then obtain w' where w': "nanoseconds_sleep d w = Some w'" using nanoseconds_sleep_returns [OF assms(1)] by blast
    with nanoseconds_sleep_result [OF w' ok] show ?thesis by blast
  qed
  have "10 ^ 6 * int (unat n) \<le> 10 ^ 9 * int (unat n)" "10 ^ 3 * int (unat n) \<le> 10 ^ 9 * int (unat n)" by simp_all
  with s [of "SEC_TO_NS n"] s [of "MS_TO_NS n"] s [of "US_TO_NS n"] show ?thesis
    unfolding u seconds_sleep_def milliseconds_sleep_def microseconds_sleep_def by blast
qed

theorem sleeps_return_witness:
  "\<exists>w1 w2 w3. seconds_sleep 2 demo_os = Some w1 \<and> 2 * 10 ^ 9 \<le> ts_ns (demo_clock (reads w1 - 1)) \<and>
     milliseconds_sleep 2 demo_os = Some w2 \<and> microseconds_sleep 2 demo_os = Some w3"
proof -
  have "ts_ns (clock demo_os (reads demo_os)) + 10 ^ 9 * int (unat (2 :: 64 word)) < 2 ^ 62" by simp
  from sleeps_return [OF _ this] clock_runs_demo show ?thesis by auto
qed

section \<open>Timers\<close>

text \<open>
  A timer that runs is not stuck: the call of \<^verbatim>\<open>sleep_to_next_tick\<close> for a tick that is not over yet returns
  with the answer true, and the timer runs on.
\<close>

definition ticks_again :: "'t Timer \<Rightarrow> ('t \<Rightarrow> timer_view) \<Rightarrow> bool" where
  [spec_defs]: "ticks_again T view \<longleftrightarrow>
     (\<forall>f t w n t' w'. runs_at T f t w n t' w' \<and> \<not> v_started (view t) \<and> clock_runs (clock w) \<and> \<not> late (view t') w' \<and>
        ts_ns (clock w (Suc (reads w'))) + uint (v_target (view t')) < 2 ^ 62 \<longrightarrow>
        (\<exists>t'' w''. tm_sleep_to_next_tick T t' w' = Some (True, t'', w'') \<and> runs_at T f t w (Suc n) t'' w''))"

context tick_timer
begin

lemma runs_again: "ticks_again T view"
  unfolding ticks_again_def
proof (intro allI impI, elim conjE)
  fix f t w n t' w'
  assume r: "runs_at T f t w n t' w'" "\<not> v_started (view t)" and c: "clock_runs (clock w)" and l: "\<not> late (view t') w'"
    and b: "ts_ns (clock w (Suc (reads w'))) + uint (v_target (view t')) < 2 ^ 62"
  have ok: "clock_ok (clock w)" using c by (simp add: clock_runs_def)
  note t = runs_at_ticking [OF r ok]
  have "tm_sleep_to_next_tick T t' w' \<noteq> None" using sleep_returns [OF l, of] t c b by simp
  then obtain x t'' w'' where s: "tm_sleep_to_next_tick T t' w' = Some (x, t'', w'')"
    by (cases "tm_sleep_to_next_tick T t' w'") auto
  then have x using sleep_cases [OF _ _ s] t ok l by simp
  with s have "tm_sleep_to_next_tick T t' w' = Some (True, t'', w'')" by simp
  with runs_at_next [OF r(1) this] show "\<exists>t'' w''. tm_sleep_to_next_tick T t' w' = Some (True, t'', w'') \<and> runs_at T f t w (Suc n) t'' w''" by blast
qed

end

text \<open>
  C24: A running timer of any of the three classes ticks on: when the tick is not over yet, the clock runs
  and the tick is less than 146 years from its origin, \<^verbatim>\<open>sleep_to_next_tick\<close> returns with the
  answer true, and the timer has done one tick more.
\<close>

theorem timers_tick_on:
  "ticks_again BusyWaitTimer_vtable BusyWaitTimer_view \<and> ticks_again FreeWaitTimer_vtable FreeWaitTimer_view \<and>
   ticks_again WorstCaseTimer_vtable WorstCaseTimer_view"
  using bw.runs_again fw.runs_again wc.runs_again by blast

theorem timers_tick_on_witness:
  "\<exists>t0 w0 t1 w1. runs_at BusyWaitTimer_vtable 100 (BusyWaitTimer_ctor bw_raw) demo_os 0 t0 w0 \<and>
     tm_sleep_to_next_tick BusyWaitTimer_vtable t0 w0 = Some (True, t1, w1) \<and>
     runs_at BusyWaitTimer_vtable 100 (BusyWaitTimer_ctor bw_raw) demo_os 1 t1 w1"
proof -
  have "case tm_set_frequency BusyWaitTimer_vtable 100 (BusyWaitTimer_ctor bw_raw) of None \<Rightarrow> False | Some (b, t1) \<Rightarrow> b \<and>
      (case tm_start_timer BusyWaitTimer_vtable t1 demo_os of (c, t2, w2) \<Rightarrow> c \<and> \<not> late (BusyWaitTimer_view t2) w2 \<and>
         ts_ns (demo_clock (Suc (reads w2))) + uint (v_target (BusyWaitTimer_view t2)) < 2 ^ 62)" by code_simp
  then obtain t1 t2 w2 where "tm_set_frequency BusyWaitTimer_vtable 100 (BusyWaitTimer_ctor bw_raw) = Some (True, t1)"
    and "tm_start_timer BusyWaitTimer_vtable t1 demo_os = (True, t2, w2)"
    and l: "\<not> late (BusyWaitTimer_view t2) w2" "ts_ns (demo_clock (Suc (reads w2))) + uint (v_target (BusyWaitTimer_view t2)) < 2 ^ 62"
    by (auto simp only: holds option.inject prod.inject simp_thms)
  then have r: "runs_at BusyWaitTimer_vtable 100 (BusyWaitTimer_ctor bw_raw) demo_os 0 t2 w2" by (auto simp: runs_at_def)
  from conjunct1 [OF timers_tick_on, unfolded ticks_again_def, rule_format, OF conjI [OF r]] l r clock_runs_demo
  show ?thesis by auto
qed

text \<open>
  Setting the frequency, with the check of the range and the division of a second.
\<close>

definition checks_frequency :: "'t Timer \<Rightarrow> ('t \<Rightarrow> timer_view) \<Rightarrow> bool" where
  [spec_defs]: "checks_frequency T view \<longleftrightarrow>
     (\<forall>f t. if f = 0 then tm_set_frequency T f t = None
        else if unat f \<le> 100 then \<not> v_started (view t) \<longrightarrow>
          (\<exists>t'. tm_set_frequency T f t = Some (True, t') \<and> tm_get_frequency T t' = f \<and>
            unat (v_ps (view t')) = 10 ^ 12 div unat f \<and> \<not> v_started (view t'))
        else \<exists>t'. tm_set_frequency T f t = Some (False, t') \<and> view t' = view t \<and> tm_is_error T t' \<and>
            fst (tm_get_error T t') = frequency_message f \<and> length (frequency_message f) < 256)"

context tick_timer
begin

lemma frequency_checked: "checks_frequency T view"
  unfolding checks_frequency_def
proof (intro allI)
  fix f t
  have z: "f = 0 \<longleftrightarrow> unat f = 0" and o: "TIMER_MAX_FREQUENCY < f \<longleftrightarrow> 100 < unat f"
    by (simp_all add: unat_eq_0 word_less_nat_alt TIMER_MAX_FREQUENCY_def)
  consider "f = 0" | "f \<noteq> 0" "unat f \<le> 100" | "100 < unat f" by linarith
  then show "if f = 0 then tm_set_frequency T f t = None
        else if unat f \<le> 100 then \<not> v_started (view t) \<longrightarrow>
          (\<exists>t'. tm_set_frequency T f t = Some (True, t') \<and> tm_get_frequency T t' = f \<and>
            unat (v_ps (view t')) = 10 ^ 12 div unat f \<and> \<not> v_started (view t'))
        else \<exists>t'. tm_set_frequency T f t = Some (False, t') \<and> view t' = view t \<and> tm_is_error T t' \<and>
            fst (tm_get_error T t') = frequency_message f \<and> length (frequency_message f) < 256"
  proof cases
    case 1
    then show ?thesis using set_frequency_zero by simp
  next
    case 2
    then have "0 < f" "f \<le> TIMER_MAX_FREQUENCY" using o by (auto simp: word_neq_0_conv [symmetric] linorder_not_less [symmetric])
    from set_frequency_ok [OF this, of t] 2 show ?thesis
      by (auto simp: get_frequency_law view_set_frequency_def SEC_TO_PS_1 unat_div)
  next
    case 3
    with set_frequency_over [of f t] z o length_frequency_message [of f] show ?thesis
      by (auto simp: is_err_handler get_msg)
  qed
qed

end

text \<open>
  C30: \<^verbatim>\<open>set_frequency\<close> of each timer as \<^verbatim>\<open>includes/timer.h\<close> promises it: before the timer is started, from 1 to
  100, the answer is true and the period is a second divided by the frequency, in picoseconds, rounded
  down; above 100 the answer is false, the timer is as before, and the error names the frequency in a
  message that fits the buffer of 256 characters; 0 is a division by zero (no check guards it). The
  answer of a timer that runs is not part of the property: the header file promises false for it.
\<close>

theorem timers_check_frequency:
  "checks_frequency BusyWaitTimer_vtable BusyWaitTimer_view \<and> checks_frequency FreeWaitTimer_vtable FreeWaitTimer_view \<and>
   checks_frequency WorstCaseTimer_vtable WorstCaseTimer_view"
  using bw.frequency_checked fw.frequency_checked wc.frequency_checked by blast

section \<open>A descriptor closed twice\<close>

definition unbound_os :: os where
  "unbound_os = server_os\<lparr>answer := (\<lambda>n. if n = 1 then 5 else if n = 3 then -1 else 0)\<rparr>"

text \<open>
  C40: When an \<^verbatim>\<open>initialize\<close> of either sender, called after any history, fails to bind and the last
  thing it did was to close a descriptor and to free the addresses (the socket of the last address could
  not be bound), the object still holds that descriptor, and the next \<^verbatim>\<open>end_sender\<close> (also run by the
  destructor and by the next \<^verbatim>\<open>initialize\<close>) returns and shuts it down and closes it once more, when it may
  belong to another part of the process.
\<close>

theorem failed_bind_closes_twice:
  "closes_again tcp_class (TCPSender_ctor port) \<and> closes_again tcp_zc_class (TCPSenderZC_ctor port)"
  unfolding TCPSender_ctor_def TCPSenderZC_ctor_def using tcp.closes_again zc.closes_again by blast

theorem failed_bind_closes_twice_witness:
  "\<exists>s' w' s'' w''. TCPSender_initialize (TCPSender_ctor 80, unbound_os) = Some (False, s', w') \<and> s_server_sock_fd s' = 5 \<and>
     (\<exists>l. log w' = l @ [CloseCall 5, Freeaddrinfo]) \<and> TCPSender_end_sender (s', w') = Some (True, s'', w'') \<and> log w'' = log w' @ [ShutdownCall 5, CloseCall 5]"
proof -
  have "case initialize tcp_class (TCPSender_ctor 80, unbound_os) of None \<Rightarrow> False | Some (b, s, w) \<Rightarrow>
     \<not> b \<and> fst (get_error s) = ''server: failed to bind'' \<and>
     log w = butlast (butlast (log w)) @ [CloseCall 5, Freeaddrinfo]" by code_simp
  then obtain s' w' where i: "initialize tcp_class (TCPSender_ctor 80, unbound_os) = Some (False, s', w')"
    and m: "fst (get_error s') = ''server: failed to bind''" and l: "log w' = butlast (butlast (log w')) @ [CloseCall 5, Freeaddrinfo]"
    by (auto split: option.splits)
  have h: "do_calls tcp_class [] (TCPSender_ctor 80, unbound_os) = Some (TCPSender_ctor 80, unbound_os)" by simp
  from conjunct1 [OF failed_bind_closes_twice [of 80], unfolded closes_again_def, rule_format, OF conjI [OF h conjI [OF i conjI [OF m l]]]]
    i l show ?thesis unfolding TCPSender_initialize_def TCPSender_end_sender_def by auto
qed

end
