(* ===== verification/Spec2Isabelle.thy ===== *)
theory Spec2Isabelle
  imports System_Properties Library_Properties
begin

text \<open>
  \<^bold>\<open>Real-Time-Data-Transfer: a verification development.\<close>

  \<^bold>\<open>The program.\<close> A C++ library that sends data over TCP at a fixed frequency. An application registers
  a function with a \<^verbatim>\<open>RealTimeSystem\<close> (\<^verbatim>\<open>src/systems\<close>), which asks it at every tick for a list of
  packets. A \<^verbatim>\<open>Timer\<close> (\<^verbatim>\<open>src/timers\<close>: busy waiting, blocking, or blocking up to a worst delay and then
  spinning) gives the ticks; a \<^verbatim>\<open>Sender\<close> (\<^verbatim>\<open>src/senders\<close>: plain TCP, or TCP with \<^verbatim>\<open>MSG_ZEROCOPY\<close>) is
  handed the list and sends it from a worker thread, which shares flags, a mutex and a condition variable
  with the main thread (\<^verbatim>\<open>SenderWorkerData\<close> in \<^verbatim>\<open>includes/data_packets.h\<close>). Errors are values: every
  class embeds an \<^verbatim>\<open>Error\<close> and answers false.

  \<^bold>\<open>Theories and sources.\<close>
  \<^item> \<open>RT_Prelude\<close>: \<^verbatim>\<open>flags.h\<close>, machine integers (\<open>uint_fast16\<close>, \<open>uint_fast32\<close> and \<open>uint_fast64\<close> are 64-bit
    words, as on the library's platform), arithmetic without wrap-around, decimal numbers.
  \<^item> \<open>Error_Handler\<close>: \<^verbatim>\<open>error.h/.cpp\<close>; locale \<open>error_source\<close> of the \<^verbatim>\<open>get_error\<close>/\<^verbatim>\<open>is_error\<close> pair.
  \<^item> \<open>Raii_Guards\<close>: \<^verbatim>\<open>mutex_raii.h/.cpp\<close>, \<^verbatim>\<open>atomic_val_raii.h\<close>.
  \<^item> \<open>Data_Packets\<close>, \<open>Packet_Heap\<close>: \<^verbatim>\<open>data_packets.h\<close>, with \<^verbatim>\<open>malloc\<close>, \<^verbatim>\<open>free\<close> and \<^verbatim>\<open>memcpy\<close> on an explicit
    store; the refinement of the copy operations to lists as values.
  \<^item> \<open>Os_Model\<close>: the machine: the readings of the clock, the answers of system calls (a log of the calls
    and a function from the position in the log to the answer), memory, files, the wire, the schedule.
  \<^item> \<open>Timers_Utils\<close>, \<open>Timer_Interface\<close>, \<open>Busy_Wait_Timer\<close>, \<open>Free_Wait_Timer\<close>, \<open>Worst_Case_Timer\<close>:
    \<^verbatim>\<open>timers_utils.h/.cpp\<close>, \<^verbatim>\<open>timer.h\<close> and the three timers. Each timer is a record of its fields and a
    record \<open>Timer\<close> of its virtual methods; locale \<open>tick_timer\<close> is the contract, over the abstract
    state \<open>timer_view\<close>; it is interpreted as \<open>bw\<close>, \<open>fw\<close> and \<open>wc\<close>. The contract also covers histories of
    calls (\<open>timer_history\<close>) and the error that is pending after them.
  \<^item> \<open>Sender_Interface\<close>, \<open>Sender_Worker\<close>, \<open>Worker_Step\<close>, \<open>Tcp_Worker\<close>, \<open>Tcp_Worker_Zc\<close>: \<^verbatim>\<open>sender.h\<close> and the
    function \<^verbatim>\<open>tcp_worker_function\<close> of both senders as a step function on places (\<open>wpc\<close>), one step for
    each access to shared data or system call; locale \<open>worker_thread\<close> is what a step keeps, interpreted as \<open>tw\<close>
    and \<open>zw\<close>.
  \<^item> \<open>Sender_Object\<close>, \<open>Sender_Invariants\<close>, \<open>Sender_Calls\<close>, \<open>Sender_Histories\<close>, \<open>Sender_Termination\<close>,
    \<open>Sender_Ending\<close>, \<open>Sender_Contract\<close>, \<open>Tcp_Sender\<close>, \<open>Tcp_Sender_Zc\<close>: the methods of \<^verbatim>\<open>tcp_sender.cpp\<close> and
    \<^verbatim>\<open>tcp_sender_zc.cpp\<close>. The two files share most of their text; what they share is defined once, over a
    record \<open>sender_class\<close> of the differences. Locale \<open>sender_thread\<close> (interpreted as \<open>tcp\<close> and \<open>zc\<close>)
    proves the invariant and the calls; its sublocale \<open>contract\<close> is the locale \<open>sender_contract\<close> that clients see.
  \<^item> \<open>Sender_Trace\<close>, \<open>Zero_Copy_Trace\<close>: locale \<open>thread_trace\<close> extends \<open>sender_thread\<close> by a relation of the thread to the log
    that every worker step keeps, and keeps it through all methods; interpreted as \<open>zc_trace\<close>: the counters of
    the zero-copy worker are the numbers of sends in the log and of sends the notifications cover.
  \<^item> \<open>Sender_Copy\<close>, \<open>Failed_Bind\<close>: when a list is read through its pointer, and what a failed \<^verbatim>\<open>bind\<close> leaves behind.
  \<^item> \<open>Real_Time_System\<close>, \<open>System_Run\<close>, \<open>System_Contract\<close>: \<^verbatim>\<open>real_time_system.h/.cpp\<close>, over any timer and any
    sender; locale \<open>rt_system\<close> puts a \<open>tick_timer\<close> and a \<open>sender_contract\<close> together, and is interpreted on
    all six systems in \<open>System_Properties\<close>.

  \<^bold>\<open>State.\<close> A method maps the object and the machine to an answer and both; \<open>None\<close> is a call that does
  not return (a loop or a lock for ever) or is undefined (a null pointer, a division by zero, \<^verbatim>\<open>exit\<close>).
  Between two accesses of the main thread to shared data the worker makes as many steps as the
  \<open>schedule\<close> says, for every schedule, so that every interleaving of the two threads at the accesses to
  shared data is covered; the wait on the condition variable may also end without a signal. Loops that wait
  are partial functions or functions with a measure; no fuel is used. The
  lists of the application are in the store \<open>lists\<close> by address, because the worker copies a list through
  a pointer some time after \<^verbatim>\<open>send\<close> returned, and the application may have written it by then.

  \<^bold>\<open>What is shown.\<close>
  \<^item> \<open>System_Properties\<close>: in-order delivery of a whole run for all six systems, the schedule of its ticks, how
    it ends (with what the last call of the user function answered, read off the calls in the log),
    \<^verbatim>\<open>initialize\<close>, \<^verbatim>\<open>send_before_run\<close> and its logarithmic wait, the numbers the user function is told; and
    that a refused list is reported as sent by \<^verbatim>\<open>send_before_run\<close>, which promises more than it keeps.
  \<^item> \<open>Sender_Properties\<close>: delivery, prefixes, silence after the end, termination of \<^verbatim>\<open>end_sender\<close>, the invariant,
    errors and \<^verbatim>\<open>initialize\<close> of both senders, after every history of calls; the counters of the zero-copy sender; and
    that a list is sent as it stands when the worker copies it, so that one overwritten before that is lost
    (the system overwrites its list at a skipped tick).
  \<^item> \<open>Timer_Properties\<close>: no tick is early, deadlines do not drift, for the three timers.
  \<^item> \<open>Library_Properties\<close>: packet lists, guards, errors (pending from the failing call until they are
    fetched), time arithmetic, sleeping, frequencies; and for every history: a list assigned to
    itself loses its packets, and a descriptor that could not be bound is closed twice.

  \<^bold>\<open>Assumptions.\<close> \<open>clock_ok\<close>: readings of \<^verbatim>\<open>CLOCK_MONOTONIC\<close> are normalised, never go back, and stay below
  \<open>2 ^ 63\<close> nanoseconds; \<open>clock_runs\<close> and \<open>clock_steps\<close>, where something has to end: the clock reaches every
  point below \<open>2 ^ 62\<close> nanoseconds, in steps of at most \<open>b\<close>; \<open>fair\<close>, for \<^verbatim>\<open>end_sender\<close>: the worker makes a step
  between two accesses of the main thread; \<open>malloc_ok\<close>: what the C library says of \<^verbatim>\<open>malloc\<close>. The user function
  is a parameter: it may write memory, but not the objects of the library. A successful \<^verbatim>\<open>send\<close> or \<^verbatim>\<open>sendfile\<close>
  puts as many bytes on the wire as it answers, and never more than it was asked for.

  \<^bold>\<open>Not modelled.\<close> The programs in \<^verbatim>\<open>src/tests\<close> (manual, they print and check nothing), the example receiver
  \<^verbatim>\<open>others/receiver_example.c\<close>, and the build files. The worker threads are detached or never joined: that
  a thread goes on for a few instructions after it reported its end, into the next \<^verbatim>\<open>initialize\<close>, is not
  modelled, nor its late write of \<^verbatim>\<open>is_terminated_thread\<close>. The signed \<^verbatim>\<open>int\<close>s of the worker are unbounded here: the
  two counters of the zero-copy worker (\<open>zc_delivers\<close> says what they count, so they fit an \<^verbatim>\<open>int\<close> as long as
  fewer than \<open>2 ^ 31\<close> sends were made and acknowledged; beyond it the overflow is undefined in C++) and the index
  of the packet loop. The worker copies a list in one step, and the \<^verbatim>\<open>exit(1)\<close> of that copy when \<^verbatim>\<open>malloc\<close>
  fails is not modelled there (it is in \<open>Data_Packets\<close>). Reads of uninitialised data (the length given to \<^verbatim>\<open>accept\<close>, the
  unset fields of the \<^verbatim>\<open>msghdr\<close>) are calls whose answer is arbitrary. The memory model is sequentially
  consistent, as the \<^verbatim>\<open>std::atomic\<close> operations of the code are by default.
\<close>

end
